(* ===== verification/LSFS_Prelude.thy ===== *)
theory LSFS_Prelude
  imports Main "HOL-Library.Word" "HOL-Library.List_Lexorder" "HOL-Library.Char_ord"
begin

text \<open>
  Shared vocabulary of the development.

  \<^item> \<open>res\<close> is the outcome of a C++ call: it returns a value, it throws, or it does not return.
    \<open>rbind\<close> and \<open>on_ret\<close> sequence such calls, the second one with a state that keeps the
    changes made before the exception.
  \<^item> \<open>smap\<close> is \<^verbatim>\<open>std::map\<close>: an association list kept strictly sorted by key, so that two
    maps with the same entries are equal and iteration is in key order. The order on
    \<^verbatim>\<open>std::string\<close> keys is the bytewise lexicographic one.
  \<^item> \<open>lsfs_simps\<close> collects the rewrite rules on these two types that the component proofs use.
\<close>

named_theorems lsfs_simps \<open>rewrite rules on outcomes and sorted maps\<close>

type_synonym long = int
type_synonym bytes = string

text \<open>\<^verbatim>\<open>LONG_MAX\<close> of the 64-bit targets the program is built for.\<close>

definition LONG_MAX :: long where
  "LONG_MAX = 2 ^ 63 - 1"

section \<open>Outcomes of calls\<close>

text \<open>
  The exceptions the modelled code throws or lets through: those of the standard library
  (\<open>Out_of_range\<close> from \<^verbatim>\<open>vector::at\<close>, \<^verbatim>\<open>string::substr\<close>, \<^verbatim>\<open>stol\<close>; \<open>Invalid_argument\<close> from \<^verbatim>\<open>stol\<close>),
  the one of the serialisation archive, those under \<^verbatim>\<open>exceptions/\<close>, and string literals that are thrown (\<open>Message\<close>).
\<close>

datatype exn =
    Out_of_range
  | Invalid_argument
  | Archive_exception
  | LevelDBException
  | TimeoutException
  | ConcurrentWritesSameKeyException
  | EmptyViewException
  | Message string

datatype 'a res = Ret 'a | Throw exn | Hang

fun rbind :: "'a res \<Rightarrow> ('a \<Rightarrow> 'b res) \<Rightarrow> 'b res" where
  "rbind (Ret a) f = f a"
| "rbind (Throw e) f = Throw e"
| "rbind Hang f = Hang"

fun on_ret :: "'s \<Rightarrow> 'a res \<Rightarrow> ('a \<Rightarrow> 'b res \<times> 's) \<Rightarrow> 'b res \<times> 's" where
  "on_ret s (Ret a) f = f a"
| "on_ret s (Throw e) f = (Throw e, s)"
| "on_ret s Hang f = (Hang, s)"

definition of_option :: "exn \<Rightarrow> 'a option \<Rightarrow> 'a res" where
  "of_option e x = (case x of None \<Rightarrow> Throw e | Some a \<Rightarrow> Ret a)"

text \<open>\<^verbatim>\<open>std::vector::at\<close>\<close>

definition vec_at :: "'a list \<Rightarrow> nat \<Rightarrow> 'a res" where
  "vec_at xs i = (if i < length xs then Ret (xs ! i) else Throw Out_of_range)"

lemma of_option_simps [simp, lsfs_simps]:
  "of_option e None = Throw e" "of_option e (Some a) = Ret a"
  by (simp_all add: of_option_def)

lemma of_option_eq_Ret [simp]: "of_option e x = Ret a \<longleftrightarrow> x = Some a"
  by (cases x) auto

lemma vec_at_0 [simp, lsfs_simps]:
  "vec_at [] 0 = Throw Out_of_range" "vec_at (x # xs) 0 = Ret x"
  by (simp_all add: vec_at_def)

lemma rbind_eq_Ret [simp]: "rbind m f = Ret b \<longleftrightarrow> (\<exists>a. m = Ret a \<and> f a = Ret b)"
  by (cases m) auto

lemma on_ret_eq_Ret [simp]:
  "on_ret s m f = (Ret b, s') \<longleftrightarrow> (\<exists>a. m = Ret a \<and> f a = (Ret b, s'))"
  by (cases m) auto

lemma rbind_assoc: "rbind (rbind m f) g = rbind m (\<lambda>a. rbind (f a) g)"
  by (cases m) auto

section \<open>Sorted association lists\<close>

definition sorted_keys :: "('k::linorder \<times> 'v) list \<Rightarrow> bool" where
  "sorted_keys xs \<longleftrightarrow> sorted_wrt (<) (map fst xs)"

fun al_put :: "'k::linorder \<Rightarrow> 'v \<Rightarrow> ('k \<times> 'v) list \<Rightarrow> ('k \<times> 'v) list" where
  "al_put k v [] = [(k, v)]"
| "al_put k v ((k', v') # xs) =
     (if k < k' then (k, v) # (k', v') # xs
      else if k = k' then (k, v) # xs
      else (k', v') # al_put k v xs)"

fun al_del :: "'k \<Rightarrow> ('k \<times> 'v) list \<Rightarrow> ('k \<times> 'v) list" where
  "al_del k [] = []"
| "al_del k ((k', v') # xs) = (if k = k' then al_del k xs else (k', v') # al_del k xs)"

lemma sorted_keys_simps [simp]:
  "sorted_keys []"
  "sorted_keys ((k, v) # xs) \<longleftrightarrow> (\<forall>k'\<in>fst ` set xs. k < k') \<and> sorted_keys xs"
  by (auto simp: sorted_keys_def)

lemma fst_set_al_put [simp]: "fst ` set (al_put k v xs) = insert k (fst ` set xs)"
  by (induction k v xs rule: al_put.induct) (simp_all add: insert_commute)

lemma sorted_keys_al_put: "sorted_keys xs \<Longrightarrow> sorted_keys (al_put k v xs)"
  by (induction k v xs rule: al_put.induct)
    (auto simp del: fst_set_al_put simp add: fst_set_al_put dest: less_trans)

lemma map_of_al_put [simp]: "map_of (al_put k v xs) = (map_of xs)(k \<mapsto> v)"
  by (induction k v xs rule: al_put.induct) (auto simp: fun_eq_iff)

lemma al_del_filter: "al_del k xs = filter (\<lambda>p. fst p \<noteq> k) xs"
  by (induction xs) auto

lemma fst_set_al_del [simp]: "fst ` set (al_del k xs) = fst ` set xs - {k}"
  by (auto simp: al_del_filter)

lemma map_of_al_del [simp]: "map_of (al_del k xs) = (map_of xs)(k := None)"
  by (induction xs) (auto simp: fun_eq_iff split: prod.splits)

lemma sorted_keys_distinct: "sorted_keys xs \<Longrightarrow> distinct (map fst xs)"
  by (auto simp: sorted_keys_def strict_sorted_iff)

lemma sorted_keys_filter: "sorted_keys xs \<Longrightarrow> sorted_keys (filter P xs)"
  by (induction xs) auto

lemma sorted_keys_al_del: "sorted_keys xs \<Longrightarrow> sorted_keys (al_del k xs)"
  by (simp add: al_del_filter sorted_keys_filter)

lemma map_fst_map_value: "map fst (map (\<lambda>(k, v). (k, f k v)) xs) = map fst xs"
  by (induction xs) auto

lemma sorted_keys_map_value:
  "sorted_keys (map (\<lambda>(k, v). (k, f k v)) xs) \<longleftrightarrow> sorted_keys xs"
  unfolding sorted_keys_def map_fst_map_value ..

lemma map_of_map_value: "map_of (map (\<lambda>(k, v). (k, f k v)) xs) k = map_option (f k) (map_of xs k)"
  by (induction xs) auto

lemma sorted_keys_unique:
  assumes "sorted_keys xs" "sorted_keys ys" "map_of xs = map_of ys"
  shows "xs = ys"
proof -
  note d = sorted_keys_distinct[OF assms(1)] sorted_keys_distinct[OF assms(2)]
  have s: "set xs = set ys"
  proof (rule set_eqI)
    fix p :: "'a \<times> 'b"
    show "p \<in> set xs \<longleftrightarrow> p \<in> set ys"
      using assms(3) map_of_eq_Some_iff[OF d(1), of "fst p" "snd p"]
        map_of_eq_Some_iff[OF d(2), of "fst p" "snd p"] by simp
  qed
  have "inj_on fst (set xs \<union> set ys)"
    using d(1) s by (simp add: distinct_map)
  moreover have "sorted (map fst xs)" "sorted (map fst ys)"
    using assms(1,2) by (simp_all add: sorted_keys_def strict_sorted_iff)
  ultimately show ?thesis
    using s d by (intro map_sorted_distinct_set_unique[of fst]) auto
qed

section \<open>\<^verbatim>\<open>std::map\<close>\<close>

typedef (overloaded) ('k, 'v) smap = "{xs :: ('k::linorder \<times> 'v) list. sorted_keys xs}"
  morphisms entries Abs_smap
  by (rule exI[of _ "[]"]) simp

setup_lifting type_definition_smap

lift_definition sempty :: "('k::linorder, 'v) smap" is "[]" by simp

text \<open>\<open>insert_or_assign\<close> (also \<^verbatim>\<open>operator[]\<close> assignment), \<open>emplace\<close>/\<open>insert\<close>, \<open>erase\<close>, \<open>find\<close>.\<close>

lift_definition sput :: "'k::linorder \<Rightarrow> 'v \<Rightarrow> ('k, 'v) smap \<Rightarrow> ('k, 'v) smap" is al_put
  by (rule sorted_keys_al_put)

lift_definition sdel :: "'k::linorder \<Rightarrow> ('k, 'v) smap \<Rightarrow> ('k, 'v) smap" is al_del
  by (rule sorted_keys_al_del)

lift_definition slookup :: "('k::linorder, 'v) smap \<Rightarrow> 'k \<Rightarrow> 'v option" is map_of .

lift_definition smap_value :: "('k::linorder \<Rightarrow> 'v \<Rightarrow> 'w) \<Rightarrow> ('k, 'v) smap \<Rightarrow> ('k, 'w) smap"
  is "\<lambda>f xs. map (\<lambda>(k, v). (k, f k v)) xs"
  by (simp only: sorted_keys_map_value)

lift_definition sfilter :: "('k::linorder \<Rightarrow> 'v \<Rightarrow> bool) \<Rightarrow> ('k, 'v) smap \<Rightarrow> ('k, 'v) smap"
  is "\<lambda>P xs. filter (\<lambda>(k, v). P k v) xs"
  by (rule sorted_keys_filter)

definition semplace :: "'k::linorder \<Rightarrow> 'v \<Rightarrow> ('k, 'v) smap \<Rightarrow> ('k, 'v) smap" where
  "semplace k v m = (case slookup m k of None \<Rightarrow> sput k v m | Some _ \<Rightarrow> m)"

definition smap_of :: "('k::linorder \<times> 'v) list \<Rightarrow> ('k, 'v) smap" where
  "smap_of xs = fold (\<lambda>(k, v) m. sput k v m) xs sempty"

definition ssize :: "('k::linorder, 'v) smap \<Rightarrow> nat" where
  "ssize m = length (entries m)"

lemma slookup_sempty [simp, lsfs_simps]: "slookup sempty k = None"
  by transfer simp

lemma slookup_sput [simp, lsfs_simps]: "slookup (sput k v m) = (slookup m)(k \<mapsto> v)"
  by transfer simp

lemma slookup_sdel [simp, lsfs_simps]: "slookup (sdel k m) = (slookup m)(k := None)"
  by transfer simp

lemma slookup_smap_value [simp, lsfs_simps]:
  "slookup (smap_value f m) k = map_option (f k) (slookup m k)"
  by transfer (rule map_of_map_value)

lemma map_of_filter_distinct:
  "distinct (map fst xs) \<Longrightarrow> map_of (filter (\<lambda>(k, v). P k v) xs) k =
     (case map_of xs k of None \<Rightarrow> None | Some v \<Rightarrow> if P k v then Some v else None)"
  by (induction xs) (auto simp: map_of_eq_None_iff split: option.splits)

lemma slookup_sfilter [lsfs_simps]:
  "slookup (sfilter P m) k =
     (case slookup m k of None \<Rightarrow> None | Some v \<Rightarrow> if P k v then Some v else None)"
  by transfer (simp add: map_of_filter_distinct sorted_keys_distinct)

lemma slookup_semplace [lsfs_simps]:
  "slookup (semplace k v m) q = (if q = k \<and> slookup m k = None then Some v else slookup m q)"
  by (simp add: semplace_def split: option.splits)

lemma entries_simps [simp, lsfs_simps]:
  "entries sempty = []" "entries (sput k v m) = al_put k v (entries m)"
  "entries (sdel k m) = al_del k (entries m)"
  by (transfer, simp)+

lemma slookup_entries: "slookup m = map_of (entries m)"
  by transfer simp

lemma sorted_entries [simp]: "sorted_keys (entries m)"
  using entries[of m] by simp

lemma distinct_entries [simp]: "distinct (map fst (entries m))"
  by (simp add: sorted_keys_distinct)

lemma in_entries_iff: "(k, v) \<in> set (entries m) \<longleftrightarrow> slookup m k = Some v"
  by (simp add: slookup_entries map_of_eq_Some_iff)

lemma ball_entries:
  "(\<forall>(k, v) \<in> set (entries m). P k v) \<longleftrightarrow> (\<forall>k v. slookup m k = Some v \<longrightarrow> P k v)"
  by (auto simp flip: in_entries_iff)

lemma fst_entries: "fst ` set (entries m) = dom (slookup m)"
  by (simp add: slookup_entries dom_map_of_conv_image_fst)

lemma smap_eqI: "(\<And>k. slookup m k = slookup m' k) \<Longrightarrow> m = m'"
  by transfer (rule sorted_keys_unique, auto)

lemma smap_eq_iff: "m = m' \<longleftrightarrow> (\<forall>k. slookup m k = slookup m' k)"
  by (auto intro: smap_eqI)

lemma finite_dom_slookup [simp]: "finite (dom (slookup m))"
  by (simp flip: fst_entries)

lemma ssize_card: "ssize m = card (dom (slookup m))"
  by (metis distinct_card distinct_entries fst_entries length_map list.set_map ssize_def)

text \<open>Equality of maps and their size through the library's type classes.\<close>

instantiation smap :: (linorder, equal) equal
begin

definition equal_smap :: "('a::linorder, 'b) smap \<Rightarrow> ('a, 'b) smap \<Rightarrow> bool" where
  "equal_smap m m' \<longleftrightarrow> entries m = entries m'"

instance
  by standard (simp add: equal_smap_def entries_inject)

end

instantiation smap :: (linorder, type) size
begin

definition size_smap :: "('a, 'b) smap \<Rightarrow> nat" where
  "size_smap m = ssize m"

instance ..

end

end
