(* ===== verification/Versions.thy ===== *)
theory Versions
  imports LSFS_Prelude
begin

text \<open>
  Version vectors: \<^verbatim>\<open>df_store/kv_store_value/kv_store_version.h\<close>, \<^verbatim>\<open>df_store/kv_store_key.h\<close> and the
  functions on versions of \<^verbatim>\<open>df_util/util.cpp\<close>.

  \<open>comp_version\<close> is the four-way comparison that every replica and every client uses to order
  writes. The locale \<open>version_order\<close> is the contract its callers rely on (it decides a partial
  order); it is interpreted on \<open>comp_version\<close>. The scan \<open>vscan\<close>/\<open>vinsert\<close> that \<^verbatim>\<open>put\<close>, \<^verbatim>\<open>remove\<close> and the
  reply handler of the client all contain is verified once inside the locale.
\<close>

section \<open>Data\<close>

datatype kVersionComp = Lower | Bigger | Equal | Concurrent

datatype FileType = FILE | DIRECTORY

lemma FileType_neq [simp]: "t \<noteq> FILE \<longleftrightarrow> t = DIRECTORY" "t \<noteq> DIRECTORY \<longleftrightarrow> t = FILE"
  by (cases t; simp)+

record kv_store_version =
  vv :: "(long, long) smap"
  client_id :: long

text \<open>The default constructor: an empty vector and client id \<^verbatim>\<open>LONG_MAX\<close>.\<close>

definition default_version :: kv_store_version where
  "default_version = \<lparr>vv = sempty, client_id = LONG_MAX\<rparr>"

record kv_store_key =
  key :: string
  version :: kv_store_version
  f_type :: FileType
  is_deleted :: bool

section \<open>Operations\<close>

text \<open>\<^verbatim>\<open>operator==\<close> on versions: every entry of the left vector is found with the same clock in the
  right one, the sizes agree, and the client ids agree.\<close>

fun version_eq_loop :: "(long \<times> long) list \<Rightarrow> (long, long) smap \<Rightarrow> bool" where
  "version_eq_loop [] m = True"
| "version_eq_loop ((c, n) # xs) m =
     (case slookup m c of
        None \<Rightarrow> False
      | Some n' \<Rightarrow> if n \<noteq> n' then False else version_eq_loop xs m)"

definition version_eq :: "kv_store_version \<Rightarrow> kv_store_version \<Rightarrow> bool" where
  "version_eq a b \<longleftrightarrow>
     version_eq_loop (entries (vv a)) (vv b) \<and>
     ssize (vv a) = ssize (vv b) \<and> client_id a = client_id b"

definition key_eq :: "kv_store_key \<Rightarrow> kv_store_key \<Rightarrow> bool" where
  "key_eq a b \<longleftrightarrow> key a = key b \<and> version_eq (version a) (version b) \<and>
     is_deleted a = is_deleted b \<and> f_type a = f_type b"

text \<open>The loop of \<^verbatim>\<open>comp_version\<close> over the entries of the first vector; the state is
  (is_equal, is_lower, is_bigger, is_bigger_count).\<close>

fun comp_version_loop ::
  "(long \<times> long) list \<Rightarrow> (long, long) smap \<Rightarrow> bool \<times> bool \<times> bool \<times> nat \<Rightarrow> bool \<times> bool \<times> bool \<times> nat" where
  "comp_version_loop [] m s = s"
| "comp_version_loop ((c, n) # xs) m (is_equal, is_lower, is_bigger, is_bigger_count) =
     (case slookup m c of
        None \<Rightarrow> comp_version_loop xs m (False, False, is_bigger, is_bigger_count)
      | Some n' \<Rightarrow>
          comp_version_loop xs m
            (if n \<noteq> n' then False else is_equal,
             if n > n' then False else is_lower,
             if n < n' then False else is_bigger,
             if n \<ge> n' then is_bigger_count + 1 else is_bigger_count))"

definition comp_version :: "kv_store_version \<Rightarrow> kv_store_version \<Rightarrow> kVersionComp" where
  "comp_version k1 k2 =
     (case comp_version_loop (entries (vv k1)) (vv k2) (True, True, True, 0) of
        (is_equal, is_lower, is_bigger, is_bigger_count) \<Rightarrow>
          if is_equal \<and> ssize (vv k1) = ssize (vv k2) then Equal
          else if is_lower \<and> ssize (vv k1) \<le> ssize (vv k2) then Lower
          else if is_bigger \<and> is_bigger_count = ssize (vv k2) \<and> ssize (vv k1) \<ge> ssize (vv k2)
               then Bigger
          else Concurrent)"

fun merge_vv_loop :: "(long \<times> long) list \<Rightarrow> (long, long) smap \<Rightarrow> (long, long) smap" where
  "merge_vv_loop [] res = res"
| "merge_vv_loop ((c, n) # xs) res =
     merge_vv_loop xs
       (case slookup res c of
          None \<Rightarrow> sput c n res
        | Some n' \<Rightarrow> if n' < n then sput c n res else res)"

definition merge_kv :: "kv_store_version \<Rightarrow> kv_store_version \<Rightarrow> kv_store_version" where
  "merge_kv k1 k2 =
     \<lparr>vv = merge_vv_loop (entries (vv k2)) (vv k1),
      client_id = (if client_id k2 < client_id k1 then client_id k2 else client_id k1)\<rparr>"

definition add_vv :: "long \<times> long \<Rightarrow> kv_store_version \<Rightarrow> kv_store_version" where
  "add_vv p k2 = merge_kv (default_version\<lparr>vv := semplace (fst p) (snd p) sempty\<rparr>) k2"

fun choose_latest_loop :: "kv_store_version list \<Rightarrow> kv_store_version \<Rightarrow> kv_store_version" where
  "choose_latest_loop [] choosed = choosed"
| "choose_latest_loop (kvv # kvs) choosed =
     choose_latest_loop kvs (if client_id kvv < client_id choosed then kvv else choosed)"

definition choose_latest_version :: "kv_store_version list \<Rightarrow> kv_store_version" where
  "choose_latest_version kvv_v = choose_latest_loop kvv_v default_version"

text \<open>The scan that \<^verbatim>\<open>put\<close>, \<^verbatim>\<open>remove\<close> and the waits for the latest version share: replace the first
  entry the new version is bigger than and stop; otherwise count the concurrent entries. The new
  entry is appended when every entry was counted.\<close>

fun vscan ::
  "('v \<Rightarrow> 'v \<Rightarrow> kVersionComp) \<Rightarrow> ('a \<Rightarrow> 'v) \<Rightarrow> 'v \<Rightarrow> 'a \<Rightarrow> 'a list \<Rightarrow> 'a list \<times> nat" where
  "vscan cmp f v x [] = ([], 0)"
| "vscan cmp f v x (y # ys) =
     (case cmp v (f y) of
        Bigger \<Rightarrow> (x # ys, 0)
      | Concurrent \<Rightarrow> (case vscan cmp f v x ys of (zs, n) \<Rightarrow> (y # zs, n + 1))
      | _ \<Rightarrow> (case vscan cmp f v x ys of (zs, n) \<Rightarrow> (y # zs, n)))"

definition vinsert ::
  "('v \<Rightarrow> 'v \<Rightarrow> kVersionComp) \<Rightarrow> ('a \<Rightarrow> 'v) \<Rightarrow> 'v \<Rightarrow> 'a \<Rightarrow> 'a list \<Rightarrow> 'a list" where
  "vinsert cmp f v x xs =
     (case vscan cmp f v x xs of (ys, cout_concurrent) \<Rightarrow>
        if cout_concurrent = length ys then ys @ [x] else ys)"

section \<open>The order on version vectors\<close>

definition vv_le :: "(long, long) smap \<Rightarrow> (long, long) smap \<Rightarrow> bool" where
  "vv_le a b \<longleftrightarrow> (\<forall>c n. slookup a c = Some n \<longrightarrow> (\<exists>n'. slookup b c = Some n' \<and> n \<le> n'))"

abbreviation ver_le :: "kv_store_version \<Rightarrow> kv_store_version \<Rightarrow> bool" where
  "ver_le a b \<equiv> vv_le (vv a) (vv b)"

lemma vv_le_code [code]:
  "vv_le a b \<longleftrightarrow>
     list_all (\<lambda>(c, n). case slookup b c of None \<Rightarrow> False | Some n' \<Rightarrow> n \<le> n') (entries a)"
proof -
  have "(case x of None \<Rightarrow> False | Some n' \<Rightarrow> n \<le> n') \<longleftrightarrow> (\<exists>n'. x = Some n' \<and> n \<le> n')" for x and n :: long
    by (cases x) auto
  then show ?thesis by (simp add: vv_le_def list_all_iff ball_entries)
qed

lemma vv_le_refl [simp]: "vv_le a a"
  by (simp add: vv_le_def)

lemma vv_le_trans: "vv_le a b \<Longrightarrow> vv_le b c \<Longrightarrow> vv_le a c"
  unfolding vv_le_def by (meson order_trans)

lemma vv_le_antisym: "vv_le a b \<Longrightarrow> vv_le b a \<Longrightarrow> a = b"
proof (rule smap_eqI)
  fix c
  assume "vv_le a b" "vv_le b a"
  then show "slookup a c = slookup b c"
    unfolding vv_le_def by (cases "slookup a c"; cases "slookup b c") (fastforce intro: antisym)+
qed

lemma vv_le_dom: "vv_le a b \<Longrightarrow> dom (slookup a) \<subseteq> dom (slookup b)"
  by (auto simp: vv_le_def dom_def)

lemma vv_le_ssize: "vv_le a b \<Longrightarrow> ssize a \<le> ssize b"
  by (simp add: ssize_card card_mono vv_le_dom)

lemma version_eq_loop_iff:
  "version_eq_loop xs m \<longleftrightarrow> (\<forall>(c, n) \<in> set xs. slookup m c = Some n)"
  by (induction xs m rule: version_eq_loop.induct) (auto split: option.splits)

lemma same_entries_eq:
  assumes "\<forall>(c, n) \<in> set (entries a). slookup b c = Some n" "ssize a = ssize b"
  shows "a = b"
proof (rule smap_eqI)
  fix c
  have sub: "slookup a c = Some n \<Longrightarrow> slookup b c = Some n" for c n
    using assms(1) by (simp add: ball_entries)
  then have "dom (slookup a) \<subseteq> dom (slookup b)" by auto
  then have "dom (slookup a) = dom (slookup b)"
    using assms(2) by (simp add: ssize_card card_subset_eq)
  then show "slookup a c = slookup b c"
    using sub[of c] by (cases "slookup a c"; cases "slookup b c") auto
qed

lemma version_eq_iff [simp]: "version_eq a b \<longleftrightarrow> a = b"
  using same_entries_eq[of "vv a" "vv b"]
  by (auto simp: version_eq_def version_eq_loop_iff ball_entries)

lemma key_eq_iff [simp]: "key_eq a b \<longleftrightarrow> a = b"
  by (auto simp: key_eq_def)

lemma comp_version_loop_result:
  "comp_version_loop xs m (e, l, b, n) =
     (e \<and> (\<forall>(c, v) \<in> set xs. slookup m c = Some v),
      l \<and> (\<forall>(c, v) \<in> set xs. \<exists>v'. slookup m c = Some v' \<and> v \<le> v'),
      b \<and> (\<forall>(c, v) \<in> set xs. \<forall>v'. slookup m c = Some v' \<longrightarrow> v' \<le> v),
      n + length (filter (\<lambda>(c, v). \<exists>v'. slookup m c = Some v' \<and> v' \<le> v) xs))"
  by (induction xs arbitrary: e l b n) (auto split: option.splits)

lemma bigger_count_card:
  "length (filter (\<lambda>(c, v). \<exists>v'. slookup b c = Some v' \<and> v' \<le> v) (entries a)) =
     card {c. \<exists>v v'. slookup a c = Some v \<and> slookup b c = Some v' \<and> v' \<le> v}"
    (is "length (filter ?P _) = card ?S")
proof -
  have d: "distinct (map fst (filter ?P (entries a)))"
    using distinct_entries[of a] by (rule distinct_map_filter)
  have "set (filter ?P (entries a)) =
      {(c, v). slookup a c = Some v \<and> (\<exists>v'. slookup b c = Some v' \<and> v' \<le> v)}"
    by (auto simp: in_entries_iff)
  then have "fst ` set (filter ?P (entries a)) =
      fst ` {(c, v). slookup a c = Some v \<and> (\<exists>v'. slookup b c = Some v' \<and> v' \<le> v)}"
    by (rule arg_cong)
  also have "\<dots> = ?S" by (auto simp: image_def)
  finally have "fst ` set (filter ?P (entries a)) = ?S" .
  moreover have "length (filter ?P (entries a)) = card (fst ` set (filter ?P (entries a)))"
    using distinct_card[OF d] by (simp only: length_map set_map)
  ultimately show ?thesis by simp
qed

lemma vv_le_iff_count:
  "vv_le b a \<longleftrightarrow>
     (\<forall>(c, v) \<in> set (entries a). \<forall>v'. slookup b c = Some v' \<longrightarrow> v' \<le> v) \<and>
     length (filter (\<lambda>(c, v). \<exists>v'. slookup b c = Some v' \<and> v' \<le> v) (entries a)) = ssize b"
    (is "_ \<longleftrightarrow> ?all \<and> _")
proof -
  let ?S = "{c. \<exists>v v'. slookup a c = Some v \<and> slookup b c = Some v' \<and> v' \<le> v}"
  have sub: "?S \<subseteq> dom (slookup b)" by auto
  have "card ?S = ssize b \<longleftrightarrow> ?S = dom (slookup b)"
    using card_subset_eq[OF finite_dom_slookup sub] by (auto simp: ssize_card)
  moreover have "?S = dom (slookup b) \<longleftrightarrow> vv_le b a"
  proof
    show "vv_le b a \<Longrightarrow> ?S = dom (slookup b)"
      using sub by (fastforce simp: vv_le_def)
    show "?S = dom (slookup b) \<Longrightarrow> vv_le b a"
      unfolding vv_le_def by (fastforce simp: set_eq_iff dom_def)
  qed
  moreover have "vv_le b a \<Longrightarrow> ?all"
    unfolding ball_entries vv_le_def by fastforce
  ultimately show ?thesis by (simp only: bigger_count_card) blast
qed

lemma comp_version_cases:
  "comp_version a b =
     (if vv a = vv b then Equal
      else if vv_le (vv a) (vv b) then Lower
      else if vv_le (vv b) (vv a) then Bigger
      else Concurrent)"
proof -
  let ?same = "\<forall>(c, v) \<in> set (entries (vv a)). slookup (vv b) c = Some v"
  have eq: "?same \<and> ssize (vv a) = ssize (vv b) \<longleftrightarrow> vv a = vv b"
    using same_entries_eq[of "vv a" "vv b"] by (auto simp: ball_entries)
  have le: "(\<forall>(c, v) \<in> set (entries (vv a)). \<exists>v'. slookup (vv b) c = Some v' \<and> v \<le> v') \<longleftrightarrow>
      vv_le (vv a) (vv b)"
    by (simp add: vv_le_def ball_entries)
  show ?thesis
    using eq vv_le_iff_count[of "vv b" "vv a"] vv_le_ssize[of "vv a" "vv b"]
      vv_le_ssize[of "vv b" "vv a"]
    by (simp add: comp_version_def comp_version_loop_result le)
qed

lemma comp_version_iffs:
  "comp_version a b = Equal \<longleftrightarrow> vv a = vv b"
  "comp_version a b = Lower \<longleftrightarrow> ver_le a b \<and> vv a \<noteq> vv b"
  "comp_version a b = Bigger \<longleftrightarrow> ver_le b a \<and> vv a \<noteq> vv b"
  "comp_version a b = Concurrent \<longleftrightarrow> \<not> ver_le a b \<and> \<not> ver_le b a"
  by (auto simp: comp_version_cases dest: vv_le_antisym)

section \<open>The contract of the comparison, and the scans that rely on it\<close>

locale version_order =
  fixes cmp :: "'v \<Rightarrow> 'v \<Rightarrow> kVersionComp"
  assumes comp_refl: "cmp a a = Equal"
    and comp_dual: "cmp a b = Lower \<longleftrightarrow> cmp b a = Bigger"
    and comp_equal_sym: "cmp a b = Equal \<Longrightarrow> cmp b a = Equal"
    and comp_trans: "cmp a b \<in> {Lower, Equal} \<Longrightarrow> cmp b c \<in> {Lower, Equal} \<Longrightarrow> cmp a c \<in> {Lower, Equal}"
begin

text \<open>\<open>covered f xs v\<close>: some entry of the list carries a version at least as new as \<open>v\<close>.\<close>

definition covered :: "('a \<Rightarrow> 'v) \<Rightarrow> 'a list \<Rightarrow> 'v \<Rightarrow> bool" where
  "covered f xs v \<longleftrightarrow> (\<exists>y\<in>set xs. cmp v (f y) \<in> {Lower, Equal})"

lemma vscan_count_le: "snd (vscan cmp f v x xs) \<le> length (fst (vscan cmp f v x xs))"
  by (induction xs) (auto split: kVersionComp.splits prod.splits)

lemma vscan_concurrent:
  "\<forall>y\<in>set xs. cmp v (f y) = Concurrent \<Longrightarrow> vscan cmp f v x xs = (xs, length xs)"
  by (induction xs) auto

lemma vscan_full:
  "snd (vscan cmp f v x xs) = length (fst (vscan cmp f v x xs)) \<Longrightarrow>
     \<forall>y\<in>set xs. cmp v (f y) = Concurrent"
proof (induction xs)
  case (Cons y ys)
  then show ?case using vscan_count_le[of f v x ys]
    by (auto split: kVersionComp.splits prod.splits)
qed simp

lemma vinsert_unfold:
  "vinsert cmp f v x xs =
     (if \<forall>y\<in>set xs. cmp v (f y) = Concurrent then xs @ [x] else fst (vscan cmp f v x xs))"
  using vscan_full[of f v x xs]
  by (auto simp: vinsert_def vscan_concurrent split: prod.splits)

lemma vscan_bigger:
  assumes "xs = ys @ y # zs" "cmp v (f y) = Bigger" "\<forall>z\<in>set ys. cmp v (f z) \<noteq> Bigger"
  shows "fst (vscan cmp f v x xs) = ys @ x # zs"
  using assms by (induction ys arbitrary: xs) (auto split: kVersionComp.splits prod.splits)

lemma vscan_no_bigger:
  "\<forall>y\<in>set xs. cmp v (f y) \<noteq> Bigger \<Longrightarrow> fst (vscan cmp f v x xs) = xs"
  by (induction xs) (auto split: kVersionComp.splits prod.splits)

text \<open>The three outcomes of the scan.\<close>

lemma vinsert_concurrent:
  "\<forall>y\<in>set xs. cmp v (f y) = Concurrent \<Longrightarrow> vinsert cmp f v x xs = xs @ [x]"
  by (simp add: vinsert_def vscan_concurrent)

lemma vinsert_bigger:
  assumes "cmp v (f y) = Bigger" "\<forall>z\<in>set ys. cmp v (f z) \<noteq> Bigger"
  shows "vinsert cmp f v x (ys @ y # zs) = ys @ x # zs"
  using vscan_bigger[OF refl assms] assms(1) by (simp add: vinsert_unfold)

lemma vinsert_stale:
  assumes "\<forall>y\<in>set xs. cmp v (f y) \<noteq> Bigger" "\<exists>y\<in>set xs. cmp v (f y) \<noteq> Concurrent"
  shows "vinsert cmp f v x xs = xs"
  using vscan_no_bigger[OF assms(1)] assms(2) by (simp add: vinsert_unfold)

lemma vinsert_cases [case_names Concurrent Bigger Stale]:
  obtains "\<forall>y\<in>set xs. cmp v (f y) = Concurrent" "vinsert cmp f v x xs = xs @ [x]"
  | ys y zs where "xs = ys @ y # zs" "cmp v (f y) = Bigger" "vinsert cmp f v x xs = ys @ x # zs"
  | "\<exists>y\<in>set xs. cmp v (f y) \<in> {Lower, Equal}" "vinsert cmp f v x xs = xs"
proof (cases "\<exists>y\<in>set xs. cmp v (f y) = Bigger")
  case True
  then obtain ys y zs where "xs = ys @ y # zs" "cmp v (f y) = Bigger"
    "\<forall>z\<in>set ys. cmp v (f z) \<noteq> Bigger"
    using split_list_first_prop[OF True] by blast
  then show ?thesis using vinsert_bigger[of v f y ys x zs] by (intro that(2)) auto
next
  case False
  show ?thesis
  proof (cases "\<forall>y\<in>set xs. cmp v (f y) = Concurrent")
    case True
    then show ?thesis using vinsert_concurrent[OF True] by (rule that(1))
  next
    case False': False
    then obtain y where y: "y \<in> set xs" "cmp v (f y) \<noteq> Concurrent" by blast
    with False have "cmp v (f y) \<in> {Lower, Equal}" by (cases "cmp v (f y)") auto
    with y(1) have "\<exists>y\<in>set xs. cmp v (f y) \<in> {Lower, Equal}" ..
    moreover have "vinsert cmp f v x xs = xs"
      using False y by (intro vinsert_stale) auto
    ultimately show ?thesis by (rule that(3))
  qed
qed

lemma vinsert_set: "set (vinsert cmp f v x xs) \<subseteq> insert x (set xs)"
  by (rule vinsert_cases[of xs v f x]) auto

lemma vinsert_covers_new: "f x = v \<Longrightarrow> covered f (vinsert cmp f v x xs) v"
  by (rule vinsert_cases[of xs v f x]) (auto simp: covered_def comp_refl)

lemma vinsert_covers_old:
  assumes "covered f xs w" "f x = v"
  shows "covered f (vinsert cmp f v x xs) w"
proof (rule vinsert_cases[of xs v f x])
  fix ys y zs
  assume *: "xs = ys @ y # zs" "cmp v (f y) = Bigger" "vinsert cmp f v x xs = ys @ x # zs"
  from assms(1) obtain u where u: "u \<in> set xs" "cmp w (f u) \<in> {Lower, Equal}"
    by (auto simp: covered_def)
  have "cmp (f y) v \<in> {Lower, Equal}" using *(2) comp_dual by blast
  with u * assms(2) show ?thesis
    using comp_trans[of w "f y" v] by (cases "u = y") (auto simp: covered_def)
qed (use assms in \<open>auto simp: covered_def\<close>)

lemma vinserts_cover:
  "w \<in> set xs \<Longrightarrow> covered f (fold (\<lambda>x. vinsert cmp f (f x) x) xs acc) (f w)"
proof (induction xs arbitrary: acc rule: rev_induct)
  case (snoc x xs)
  then show ?case by (auto intro: vinsert_covers_new vinsert_covers_old)
qed simp

lemma vinserts_set: "set (fold (\<lambda>x. vinsert cmp f (f x) x) xs acc) \<subseteq> set xs \<union> set acc"
  by (induction xs arbitrary: acc) (use vinsert_set in force)+

lemma vinserts_Nil_iff [simp]:
  "fold (\<lambda>x. vinsert cmp f (f x) x) xs acc = [] \<longleftrightarrow> xs = [] \<and> acc = []"
proof -
  have "vinsert cmp f v x ys \<noteq> []" for v x ys
    by (rule vinsert_cases[of ys v f x]) auto
  then show ?thesis by (induction xs arbitrary: acc) auto
qed

end

interpretation cv: version_order comp_version
  by unfold_locales (auto simp: comp_version_iffs intro: vv_le_trans)

section \<open>Merging versions\<close>

definition omax :: "long option \<Rightarrow> long option \<Rightarrow> long option" where
  "omax a b = (case a of None \<Rightarrow> b | Some x \<Rightarrow> (case b of None \<Rightarrow> a | Some y \<Rightarrow> Some (max x y)))"

lemma omax_simps [simp]:
  "omax None b = b" "omax a None = a" "omax (Some x) (Some y) = Some (max x y)"
  by (auto simp: omax_def split: option.splits)

lemma omax_semilattice: "omax a a = a" "omax a b = omax b a" "omax (omax a b) c = omax a (omax b c)"
  by (cases a; cases b; cases c; simp add: max.commute max.assoc)+

lemma slookup_merge_vv_loop:
  "distinct (map fst xs) \<Longrightarrow> slookup (merge_vv_loop xs m) c = omax (slookup m c) (map_of xs c)"
proof (induction xs arbitrary: m)
  case (Cons p xs)
  obtain d n where [simp]: "p = (d, n)" by (cases p)
  show ?case
  proof (cases "c = d")
    case True
    then have "map_of xs c = None" using Cons.prems by (simp add: map_of_eq_None_iff)
    with Cons True show ?thesis by (auto split: option.splits)
  qed (use Cons in \<open>auto split: option.splits\<close>)
qed simp

lemma slookup_merge_kv:
  "slookup (vv (merge_kv a b)) c = omax (slookup (vv a) c) (slookup (vv b) c)"
  by (simp add: merge_kv_def slookup_merge_vv_loop flip: slookup_entries)

lemma client_id_merge_kv [simp]: "client_id (merge_kv a b) = min (client_id a) (client_id b)"
  by (simp add: merge_kv_def)

lemma version_eqI:
  "(\<And>c. slookup (vv a) c = slookup (vv b) c) \<Longrightarrow> client_id a = client_id b \<Longrightarrow> a = (b :: kv_store_version)"
  by (simp add: smap_eqI)

text \<open>Merging is a join: the library's semilattice laws hold for it, client ids included.\<close>

interpretation mk: semilattice merge_kv
proof
  show "merge_kv (merge_kv a b) c = merge_kv a (merge_kv b c)" for a b c
    by (rule version_eqI) (simp_all add: slookup_merge_kv omax_semilattice(3) min.assoc)
  show "merge_kv a b = merge_kv b a" for a b
    by (rule version_eqI) (simp_all add: slookup_merge_kv omax_semilattice(2) min.commute)
  show "merge_kv a a = a" for a
    by (rule version_eqI) (simp_all add: slookup_merge_kv omax_semilattice(1))
qed

lemma vv_le_omax:
  "vv_le a b \<longleftrightarrow> (\<forall>c. omax (slookup a c) (slookup b c) = slookup b c)"
  unfolding vv_le_def
proof (intro iffI allI impI)
  fix c
  assume "\<forall>c n. slookup a c = Some n \<longrightarrow> (\<exists>n'. slookup b c = Some n' \<and> n \<le> n')"
  then show "omax (slookup a c) (slookup b c) = slookup b c"
    by (cases "slookup a c") fastforce+
next
  fix c n
  assume "\<forall>c. omax (slookup a c) (slookup b c) = slookup b c" "slookup a c = Some n"
  then show "\<exists>n'. slookup b c = Some n' \<and> n \<le> n'"
    by (cases "slookup b c") (auto dest!: spec[of _ c])
qed

lemma merge_kv_upper: "ver_le a (merge_kv a b)" "ver_le b (merge_kv a b)"
proof -
  show a: "ver_le x (merge_kv x y)" for x y
    by (auto simp: vv_le_omax slookup_merge_kv omax_semilattice(1) simp flip: omax_semilattice(3))
  show "ver_le b (merge_kv a b)" using a[of b a] by (simp only: mk.commute)
qed

lemma merge_kv_least: "ver_le a c \<Longrightarrow> ver_le b c \<Longrightarrow> ver_le (merge_kv a b) c"
  by (simp add: vv_le_omax slookup_merge_kv omax_semilattice(3))

lemma merge_fold_absorb:
  "x \<in> insert z (set xs) \<Longrightarrow> merge_kv x (fold merge_kv xs z) = fold merge_kv xs z"
proof (induction xs rule: rev_induct)
  case (snoc y xs)
  then show ?case
    by (cases "x = y") (auto simp: mk.left_commute[of x])
qed simp

lemma merge_fold_mono:
  "set xs \<subseteq> set ys \<Longrightarrow> merge_kv (fold merge_kv xs z) (fold merge_kv ys z) = fold merge_kv ys z"
  by (induction xs rule: rev_induct) (simp_all add: merge_fold_absorb mk.assoc)

section \<open>The version a client gives a new write\<close>

lemma slookup_add_vv:
  "slookup (vv (add_vv (c, n) k)) d =
     (if d = c then omax (Some n) (slookup (vv k) d) else slookup (vv k) d)"
  by (simp add: add_vv_def slookup_merge_kv semplace_def default_version_def)

lemma add_vv_upper: "ver_le k (add_vv p k)"
  by (simp add: add_vv_def merge_kv_upper)

lemma add_vv_bigger:
  "comp_version (add_vv (c, n) k) k = Bigger \<longleftrightarrow>
     (\<forall>m. slookup (vv k) c = Some m \<longrightarrow> m < n)"
proof -
  have "vv (add_vv (c, n) k) = vv k \<longleftrightarrow> omax (Some n) (slookup (vv k) c) = slookup (vv k) c"
    by (auto simp: smap_eq_iff slookup_add_vv)
  moreover have "\<dots> \<longleftrightarrow> (\<exists>m. slookup (vv k) c = Some m \<and> n \<le> m)"
    by (cases "slookup (vv k) c") auto
  ultimately show ?thesis
    by (auto simp: comp_version_iffs add_vv_upper not_less)
qed

section \<open>Choosing among concurrent versions\<close>

lemma choose_latest_loop_result:
  "choose_latest_loop kvs c \<in> insert c (set kvs) \<and>
   (\<forall>k\<in>insert c (set kvs). client_id (choose_latest_loop kvs c) \<le> client_id k)"
proof (induction kvs arbitrary: c)
  case (Cons k kvs)
  show ?case using Cons[of k] Cons[of c] by (cases "client_id k < client_id c") auto
qed simp

lemma choose_latest_version_min:
  assumes "k \<in> set kvs" "client_id k < LONG_MAX"
  shows "choose_latest_version kvs \<in> set kvs"
    "\<forall>k\<in>set kvs. client_id (choose_latest_version kvs) \<le> client_id k"
  using choose_latest_loop_result[of kvs default_version] assms
  by (auto simp: choose_latest_version_def default_version_def)

section \<open>Properties\<close>

text \<open>
  C11. \<^verbatim>\<open>comp_version\<close> decides the partial order of version vectors exactly: \<open>Equal\<close> when the vectors are
  the same map, \<open>Lower\<close> (\<open>Bigger\<close>) when they differ and every clock of the first (second) is matched
  by one at least as large in the second (first), and \<open>Concurrent\<close> in all remaining cases. The client
  id plays no part.
\<close>

theorem comp_version_decides_order:
  "comp_version a b =
     (if vv a = vv b then Equal
      else if vv_le (vv a) (vv b) then Lower
      else if vv_le (vv b) (vv a) then Bigger
      else Concurrent)"
  by (rule comp_version_cases)

text \<open>
  C27. \<^verbatim>\<open>merge_kv\<close> computes the least upper bound of two versions: it is above both, below every other
  version above both, and carries the smaller client id.
\<close>

theorem merge_kv_is_join:
  fixes a b c :: kv_store_version
  shows "vv_le (vv a) (vv (merge_kv a b)) \<and> vv_le (vv b) (vv (merge_kv a b)) \<and>
   (vv_le (vv a) (vv c) \<and> vv_le (vv b) (vv c) \<longrightarrow> vv_le (vv (merge_kv a b)) (vv c)) \<and>
   client_id (merge_kv a b) = min (client_id a) (client_id b)"
  by (simp add: merge_kv_upper merge_kv_least)

theorem merge_kv_is_join_witness:
  "let a = \<lparr>vv = smap_of [(1, 4), (2, 1)], client_id = 1\<rparr>;
       b = \<lparr>vv = smap_of [(2, 3)], client_id = 2\<rparr>;
       c = \<lparr>vv = smap_of [(1, 5), (2, 3)], client_id = 9\<rparr>
   in vv_le (vv a) (vv c) \<and> vv_le (vv b) (vv c) \<and> vv_le (vv (merge_kv a b)) (vv c)"
proof -
  let ?a = "\<lparr>vv = smap_of [(1, 4), (2, 1)], client_id = 1\<rparr>"
  let ?b = "\<lparr>vv = smap_of [(2, 3)], client_id = 2\<rparr>"
  let ?c = "\<lparr>vv = smap_of [(1, 5), (2, 3)], client_id = 9\<rparr>"
  have "vv_le (vv ?a) (vv ?c)" "vv_le (vv ?b) (vv ?c)"
    by (simp_all add: smap_of_def vv_le_code)
  then show ?thesis using merge_kv_is_join[of ?a ?b ?c] by (auto simp: Let_def)
qed

text \<open>
  \<^verbatim>\<open>merge_kv\<close> is commutative, associative and idempotent on whole versions (vector and client id),
  so replicas that merge the same set of versions in any order and any number of times agree.
\<close>

theorem merge_kv_order_irrelevant:
  "set xs = set ys \<Longrightarrow> fold merge_kv xs z = fold merge_kv ys z"
  using merge_fold_mono[of xs ys z] merge_fold_mono[of ys xs z] by (simp add: mk.commute)

theorem merge_kv_order_irrelevant_witness:
  "let a = \<lparr>vv = smap_of [(1, 4)], client_id = 1\<rparr>; b = \<lparr>vv = smap_of [(2, 3)], client_id = 2\<rparr>
   in set [a, b] = set [b, a, b] \<and>
      fold merge_kv [a, b] default_version = fold merge_kv [b, a, b] default_version"
  unfolding Let_def using merge_kv_order_irrelevant
    [of "[\<lparr>vv = smap_of [(1, 4)], client_id = 1\<rparr>, \<lparr>vv = smap_of [(2, 3)], client_id = 2\<rparr>]"
        "[\<lparr>vv = smap_of [(2, 3)], client_id = 2\<rparr>, \<lparr>vv = smap_of [(1, 4)], client_id = 1\<rparr>,
          \<lparr>vv = smap_of [(2, 3)], client_id = 2\<rparr>]" default_version]
  by auto

text \<open>
  The version a client gives a write (\<^verbatim>\<open>add_vv\<close> of its own next clock to the version it read) is never
  older than what it read, and is strictly newer exactly when its clock exceeds the clock it already
  has in that version. A client that restarts with clock 0 therefore produces a version that replicas
  treat as \<open>Equal\<close>.
\<close>

theorem client_version_newer_iff:
  "comp_version (add_vv (c, n) k) k =
     (case slookup (vv k) c of None \<Rightarrow> Bigger | Some m \<Rightarrow> if m < n then Bigger else Equal)"
proof -
  have "comp_version (add_vv (c, n) k) k \<in> {Bigger, Equal}"
    using add_vv_upper[of k "(c, n)"] by (auto simp: comp_version_cases dest: vv_le_antisym)
  then show ?thesis using add_vv_bigger[of c n k] by (auto split: option.splits)
qed

text \<open>
  Among concurrent versions \<^verbatim>\<open>choose_latest_version\<close> returns the one of the smallest client id. When
  client ids are unique, as the source assumes, the choice does not depend on the order in which the
  replies were collected.
\<close>

theorem choose_latest_version_order_irrelevant:
  assumes "set xs = set ys" "xs \<noteq> []" "inj_on client_id (set xs)" "\<forall>k\<in>set xs. client_id k < LONG_MAX"
  shows "choose_latest_version xs = choose_latest_version ys \<and> choose_latest_version xs \<in> set xs \<and>
     (\<forall>k\<in>set xs. client_id (choose_latest_version xs) \<le> client_id k)"
proof -
  obtain k where k: "k \<in> set xs" "client_id k < LONG_MAX"
    using assms(2,4) by (cases xs) auto
  note x = choose_latest_version_min[OF k]
  note y = choose_latest_version_min[of k ys, OF _ k(2)]
  have "client_id (choose_latest_version xs) = client_id (choose_latest_version ys)"
    using x y k(1) assms(1) by (auto intro!: antisym)
  then show ?thesis using x y k(1) assms(1,3) by (auto dest: inj_onD)
qed

theorem choose_latest_version_order_irrelevant_witness:
  "let a = \<lparr>vv = smap_of [(1, 4)], client_id = 1\<rparr>; b = \<lparr>vv = smap_of [(2, 3)], client_id = 2\<rparr>
   in choose_latest_version [a, b] = choose_latest_version [b, a] \<and>
      choose_latest_version [b, a] = a"
proof -
  let ?a = "\<lparr>vv = smap_of [(1, 4)], client_id = 1\<rparr>"
  let ?b = "\<lparr>vv = smap_of [(2, 3)], client_id = 2\<rparr>"
  have "choose_latest_version [?a, ?b] = choose_latest_version [?b, ?a]"
    using choose_latest_version_order_irrelevant[of "[?a, ?b]" "[?b, ?a]"]
    by (auto simp: LONG_MAX_def)
  then show ?thesis
    by (simp add: Let_def choose_latest_version_def default_version_def LONG_MAX_def)
qed

end
