(* ===== verification/Messages.thy ===== *)
theory Messages
  imports Versions
begin

text \<open>
  The messages clients and peers exchange, as \<^verbatim>\<open>df_util/message_builder/message_builder.cpp\<close> builds them. The wire format is
  generated from a protocol description; a message is a record with the fields the code sets. Builders fill the record,
  readers rebuild a version with \<^verbatim>\<open>emplace\<close>; \<open>version_of_key_msg\<close> is the round trip between the two.
\<close>

section \<open>Message types\<close>

record proto_key =
  pk_key :: string
  pk_version :: "(long \<times> long) list"
  pk_client_id :: long

record msg_header =
  m_ip :: string
  m_port :: int
  m_id :: long

record get_message = msg_header +
  gt_reqid :: string
  gt_no_data :: bool
  gt_key :: proto_key

record get_reply_message = msg_header +
  gr_reqid :: string
  gr_data :: bytes
  gr_key :: proto_key
  gr_version_is_deleted :: bool

record get_metadata_reply_message = get_reply_message +
  gm_higher_version :: bool

record get_latest_version_message = msg_header +
  gv_key :: string
  gv_reqid :: string
  gv_get_data :: bool

record last_version =
  lv_version :: "(long \<times> long) list"
  lv_client_id :: long
  lv_data :: bytes

record get_latest_version_reply_message = msg_header +
  gl_reqid :: string
  gl_key :: string
  gl_last_v :: "last_version list"
  gl_last_deleted_v :: "last_version list"

record put_message = msg_header +
  pm_key :: proto_key
  pm_type :: FileType
  pm_data :: bytes
  pm_extra_reply :: bool

text \<open>Acknowledgement of a write or of a delete.\<close>

record put_reply_message = msg_header +
  pr_key :: proto_key
  pr_type :: FileType

record delete_message = msg_header +
  dm_key :: proto_key
  dm_type :: FileType
  dm_extra_reply :: bool

record put_child_message = msg_header +
  pc_key :: proto_key
  pc_is_create :: bool
  pc_is_dir :: bool
  pc_child_path :: string
  pc_extra_reply :: bool

text \<open>Query for the stat or the size of the latest metadata.\<close>

record get_latest_metadata_message = msg_header +
  mq_reqid :: string
  mq_key :: string

record get_metadata_message = msg_header +
  gd_reqid :: string
  gd_key :: proto_key

text \<open>Anti-entropy requests and replies, for whole objects and for blocks of metadata.\<close>

record anti_entropy_get_message = msg_header +
  ag_reqid :: string
  ag_is_deleted :: bool
  ag_key :: proto_key
  ag_type :: FileType

record anti_entropy_get_reply_message = msg_header +
  ar_reqid :: string
  ar_data :: bytes
  ar_key :: proto_key
  ar_type :: FileType
  ar_is_deleted :: bool

record store_key =
  sk_key :: proto_key
  sk_is_deleted :: bool
  sk_type :: FileType
  sk_data_size :: nat

record anti_entropy_message = msg_header +
  ae_store_keys :: "store_key list"

record recover_request_message = msg_header +
  rr_recover_port :: int
  rr_nr_slices :: int
  rr_slice :: int

datatype kv_body =
    Get_msg get_message
  | Get_latest_version_msg get_latest_version_message
  | Put_msg put_message
  | Delete_msg delete_message
  | Put_child_msg put_child_message
  | Get_latest_met_stat_msg get_latest_metadata_message
  | Get_latest_met_size_msg get_latest_metadata_message
  | Get_met_msg get_metadata_message
  | Anti_entropy_msg anti_entropy_message
  | Anti_entropy_get_msg anti_entropy_get_message
  | Anti_entropy_get_met_msg anti_entropy_get_message
  | Anti_entropy_get_reply_msg anti_entropy_get_reply_message
  | Anti_entropy_get_met_reply_msg anti_entropy_get_reply_message
  | Recover_request_msg recover_request_message
  | Recover_data_msg store_key bytes
  | Recover_termination_msg
  | Get_reply_msg get_reply_message
  | Get_met_reply_msg get_metadata_reply_message
  | Get_latest_version_reply_msg get_latest_version_reply_message
  | Put_reply_msg put_reply_message
  | Delete_reply_msg put_reply_message

record kv_message =
  forwarded_within_group :: bool
  body :: kv_body

section \<open>Builders\<close>

definition key_msg :: "string \<Rightarrow> kv_store_version \<Rightarrow> proto_key" where
  "key_msg k v = \<lparr>pk_key = k, pk_version = entries (vv v), pk_client_id = client_id v\<rparr>"

definition data_or_empty :: "bytes option \<Rightarrow> bytes" where
  "data_or_empty d = (case d of None \<Rightarrow> [] | Some b \<Rightarrow> b)"

definition build_get_message :: "string \<Rightarrow> int \<Rightarrow> long \<Rightarrow> string \<Rightarrow> string \<Rightarrow> kv_store_version \<Rightarrow> bool \<Rightarrow> kv_body" where
  "build_get_message ip kv_port pid req_id k v no_data =
     Get_msg \<lparr>m_ip = ip, m_port = kv_port, m_id = pid, gt_reqid = req_id, gt_no_data = no_data, gt_key = key_msg k v\<rparr>"

definition build_get_reply_message ::
  "string \<Rightarrow> int \<Rightarrow> long \<Rightarrow> string \<Rightarrow> bytes option \<Rightarrow> string \<Rightarrow> kv_store_version \<Rightarrow> bool \<Rightarrow> kv_body" where
  "build_get_reply_message ip kv_port pid req_id data k v del =
     Get_reply_msg \<lparr>m_ip = ip, m_port = kv_port, m_id = pid, gr_reqid = req_id, gr_data = data_or_empty data,
       gr_key = key_msg k v, gr_version_is_deleted = del\<rparr>"

definition build_get_latest_version_message ::
  "string \<Rightarrow> int \<Rightarrow> long \<Rightarrow> string \<Rightarrow> string \<Rightarrow> bool \<Rightarrow> kv_body" where
  "build_get_latest_version_message ip kv_port pid req_id k get_data =
     Get_latest_version_msg \<lparr>m_ip = ip, m_port = kv_port, m_id = pid, gv_key = k, gv_reqid = req_id, gv_get_data = get_data\<rparr>"

text \<open>\<open>vdata\<close> is the vector of data, which has an element for every version when \<open>bring_data\<close> is set; each
  element is an allocated string.\<close>

definition build_get_latest_version_reply_message ::
  "string \<Rightarrow> int \<Rightarrow> long \<Rightarrow> string \<Rightarrow> string \<Rightarrow> kv_store_version list \<Rightarrow> bool \<Rightarrow> bytes list \<Rightarrow> kv_store_version list \<Rightarrow> kv_body" where
  "build_get_latest_version_reply_message ip kv_port pid req_id k vversion bring_data vdata vdel_version =
     Get_latest_version_reply_msg \<lparr>m_ip = ip, m_port = kv_port, m_id = pid, gl_reqid = req_id, gl_key = k,
       gl_last_v = map (\<lambda>i. \<lparr>lv_version = entries (vv (vversion ! i)), lv_client_id = client_id (vversion ! i),
                              lv_data = (if bring_data then vdata ! i else [])\<rparr>) [0..<length vversion],
       gl_last_deleted_v = map (\<lambda>v. \<lparr>lv_version = entries (vv v), lv_client_id = client_id v, lv_data = []\<rparr>) vdel_version\<rparr>"

definition build_put_message ::
  "string \<Rightarrow> int \<Rightarrow> long \<Rightarrow> string \<Rightarrow> kv_store_version \<Rightarrow> FileType \<Rightarrow> bytes \<Rightarrow> bool \<Rightarrow> kv_body" where
  "build_put_message ip kv_port pid k v t data extra_reply =
     Put_msg \<lparr>m_ip = ip, m_port = kv_port, m_id = pid, pm_key = key_msg k v, pm_type = t, pm_data = data,
       pm_extra_reply = extra_reply\<rparr>"

definition build_put_reply_message ::
  "string \<Rightarrow> int \<Rightarrow> long \<Rightarrow> string \<Rightarrow> kv_store_version \<Rightarrow> FileType \<Rightarrow> kv_body" where
  "build_put_reply_message ip kv_port pid k v t =
     Put_reply_msg \<lparr>m_ip = ip, m_port = kv_port, m_id = pid, pr_key = key_msg k v, pr_type = t\<rparr>"

definition build_delete_message ::
  "string \<Rightarrow> int \<Rightarrow> long \<Rightarrow> string \<Rightarrow> kv_store_version \<Rightarrow> FileType \<Rightarrow> bool \<Rightarrow> kv_body" where
  "build_delete_message ip kv_port pid k v t extra_reply =
     Delete_msg \<lparr>m_ip = ip, m_port = kv_port, m_id = pid, dm_key = key_msg k v, dm_type = t, dm_extra_reply = extra_reply\<rparr>"

definition build_delete_reply_message ::
  "string \<Rightarrow> int \<Rightarrow> long \<Rightarrow> string \<Rightarrow> kv_store_version \<Rightarrow> FileType \<Rightarrow> kv_body" where
  "build_delete_reply_message ip kv_port pid k v t =
     Delete_reply_msg \<lparr>m_ip = ip, m_port = kv_port, m_id = pid, pr_key = key_msg k v, pr_type = t\<rparr>"

definition build_get_latest_metadata_stat_message :: "string \<Rightarrow> int \<Rightarrow> long \<Rightarrow> string \<Rightarrow> string \<Rightarrow> kv_body" where
  "build_get_latest_metadata_stat_message ip kv_port pid req_id k =
     Get_latest_met_stat_msg \<lparr>m_ip = ip, m_port = kv_port, m_id = pid, mq_reqid = req_id, mq_key = k\<rparr>"

definition build_put_child_message ::
  "string \<Rightarrow> int \<Rightarrow> long \<Rightarrow> string \<Rightarrow> kv_store_version \<Rightarrow> string \<Rightarrow> bool \<Rightarrow> bool \<Rightarrow> bool \<Rightarrow> kv_body" where
  "build_put_child_message ip kv_port pid k v child_path is_create is_dir extra_reply =
     Put_child_msg \<lparr>m_ip = ip, m_port = kv_port, m_id = pid, pc_key = key_msg k v, pc_is_create = is_create,
       pc_is_dir = is_dir, pc_child_path = child_path, pc_extra_reply = extra_reply\<rparr>"

definition build_get_latest_metadata_size_message :: "string \<Rightarrow> int \<Rightarrow> long \<Rightarrow> string \<Rightarrow> string \<Rightarrow> kv_body" where
  "build_get_latest_metadata_size_message ip kv_port pid req_id k =
     Get_latest_met_size_msg \<lparr>m_ip = ip, m_port = kv_port, m_id = pid, mq_reqid = req_id, mq_key = k\<rparr>"

definition build_get_metadata_message :: "string \<Rightarrow> int \<Rightarrow> long \<Rightarrow> string \<Rightarrow> string \<Rightarrow> kv_store_version \<Rightarrow> kv_body" where
  "build_get_metadata_message ip kv_port pid req_id k v =
     Get_met_msg \<lparr>m_ip = ip, m_port = kv_port, m_id = pid, gd_reqid = req_id, gd_key = key_msg k v\<rparr>"

definition build_get_metadata_reply_message ::
  "string \<Rightarrow> int \<Rightarrow> long \<Rightarrow> string \<Rightarrow> bytes option \<Rightarrow> string \<Rightarrow> kv_store_version \<Rightarrow> bool \<Rightarrow> bool \<Rightarrow> kv_body" where
  "build_get_metadata_reply_message ip kv_port pid req_id data k v del higher_version =
     Get_met_reply_msg \<lparr>m_ip = ip, m_port = kv_port, m_id = pid, gr_reqid = req_id, gr_data = data_or_empty data,
       gr_key = key_msg k v, gr_version_is_deleted = del, gm_higher_version = higher_version\<rparr>"

definition build_anti_entropy_get_message ::
  "string \<Rightarrow> int \<Rightarrow> long \<Rightarrow> string \<Rightarrow> string \<Rightarrow> kv_store_version \<Rightarrow> FileType \<Rightarrow> bool \<Rightarrow> kv_body" where
  "build_anti_entropy_get_message ip kv_port pid req_id k v t del =
     Anti_entropy_get_msg \<lparr>m_ip = ip, m_port = kv_port, m_id = pid, ag_reqid = req_id, ag_is_deleted = del,
       ag_key = key_msg k v, ag_type = t\<rparr>"

definition build_anti_entropy_get_reply_message ::
  "string \<Rightarrow> int \<Rightarrow> long \<Rightarrow> string \<Rightarrow> string \<Rightarrow> kv_store_version \<Rightarrow> FileType \<Rightarrow> bool \<Rightarrow> bytes \<Rightarrow> kv_body" where
  "build_anti_entropy_get_reply_message ip kv_port pid req_id k v t del data =
     Anti_entropy_get_reply_msg \<lparr>m_ip = ip, m_port = kv_port, m_id = pid, ar_reqid = req_id, ar_data = data,
       ar_key = key_msg k v, ar_type = t, ar_is_deleted = del\<rparr>"

definition build_anti_entropy_get_metadata_message ::
  "string \<Rightarrow> int \<Rightarrow> long \<Rightarrow> string \<Rightarrow> string \<Rightarrow> kv_store_version \<Rightarrow> FileType \<Rightarrow> bool \<Rightarrow> kv_body" where
  "build_anti_entropy_get_metadata_message ip kv_port pid req_id k v t del =
     Anti_entropy_get_met_msg \<lparr>m_ip = ip, m_port = kv_port, m_id = pid, ag_reqid = req_id, ag_is_deleted = del,
       ag_key = key_msg k v, ag_type = t\<rparr>"

definition build_anti_entropy_get_metadata_reply_message ::
  "string \<Rightarrow> int \<Rightarrow> long \<Rightarrow> string \<Rightarrow> string \<Rightarrow> kv_store_version \<Rightarrow> FileType \<Rightarrow> bool \<Rightarrow> bytes \<Rightarrow> kv_body" where
  "build_anti_entropy_get_metadata_reply_message ip kv_port pid req_id k v t del data =
     Anti_entropy_get_met_reply_msg \<lparr>m_ip = ip, m_port = kv_port, m_id = pid, ar_reqid = req_id, ar_data = data,
       ar_key = key_msg k v, ar_type = t, ar_is_deleted = del\<rparr>"

section \<open>Reading a version out of a message\<close>

text \<open>\<^verbatim>\<open>emplace\<close> keeps the first clock of a client.\<close>

definition vv_of_msg :: "(long \<times> long) list \<Rightarrow> (long, long) smap" where
  "vv_of_msg cs = fold (\<lambda>(c, n) m. semplace c n m) cs sempty"

definition version_of_msg :: "proto_key \<Rightarrow> kv_store_version" where
  "version_of_msg k = \<lparr>vv = vv_of_msg (pk_version k), client_id = pk_client_id k\<rparr>"

lemma slookup_fold_semplace:
  "slookup (fold (\<lambda>(c, n) m. semplace c n m) cs m0) c =
     (case slookup m0 c of Some n \<Rightarrow> Some n | None \<Rightarrow> map_of cs c)"
proof (induction cs arbitrary: m0)
  case (Cons p cs)
  obtain a b where "p = (a, b)" by (cases p)
  with Cons show ?case by (cases "slookup m0 c") (auto simp: slookup_semplace split: option.splits)
qed (simp split: option.splits)

lemma vv_of_msg_entries [simp]: "vv_of_msg (entries m) = m"
  by (rule smap_eqI) (simp add: vv_of_msg_def slookup_fold_semplace slookup_entries[of m])

lemma version_of_key_msg [simp]: "version_of_msg (key_msg k v) = v" "pk_key (key_msg k v) = k"
  by (simp_all add: version_of_msg_def key_msg_def)

end
