(* ===== verification/Reply_Handler.thy ===== *)
theory Reply_Handler
  imports Messages
begin

text \<open>
  The part of the client that collects the replies of the peers: \<^verbatim>\<open>df_client/client_reply_handler.cpp\<close>.

  A request is registered, replies of peers are recorded while the requesting thread sleeps on a condition variable, and
  the wait ends when enough distinct peers have answered. Waiting releases the lock, so other threads run: the arguments
  \<open>during\<close> (the replies processed while the thread sleeps) and \<open>timeout\<close> (whether the condition variable reports a
  timeout) describe what happens in that window. The maps of mutexes are kept as sets of keys; \<open>handler_wf\<close> says
  that they always have the same keys as the maps of replies, which is what the unchecked \<^verbatim>\<open>find(key)->second\<close> of the
  code relies on.

  \<^verbatim>\<open>std::unordered_map\<close> is a list of pairs without duplicate keys in insertion order; the order in which the code
  iterates over it is not specified, so iteration goes through the argument \<open>ord\<close>, any rearrangement of the list.
  A \<^verbatim>\<open>std::unique_ptr\<close> is an \<open>option\<close>.

  The locale \<open>quorum_registry\<close> is the contract that the registries of writes, deletes and reads share.
\<close>

section \<open>State\<close>

datatype Response = Ok | Deleted | NoData | NoData_HigherVersion | Init

type_synonym key_map = "(kv_store_key \<times> bytes option) list"

definition map_insert :: "'k \<Rightarrow> 'v \<Rightarrow> ('k \<times> 'v) list \<Rightarrow> ('k \<times> 'v) list" where
  "map_insert k v m = (if k \<in> fst ` set m then m else m @ [(k, v)])"

record get_Replies =
  keys :: key_map
  deleted_keys :: key_map
  reply_count :: "long set"
  metadata_higher_version :: bool

record reply_handler =
  get_replies :: "string \<rightharpoonup> get_Replies"
  get_mutexes :: "string set"
  put_replies :: "kv_store_key \<rightharpoonup> long set"
  put_mutexes :: "kv_store_key set"
  delete_replies :: "kv_store_key \<rightharpoonup> long set"
  delete_mutexes :: "kv_store_key set"

section \<open>Registering and forgetting requests\<close>

definition register_put :: "kv_store_key \<Rightarrow> reply_handler \<Rightarrow> unit res \<times> reply_handler" where
  "register_put comp_key h =
     (case put_replies h comp_key of
        None \<Rightarrow> (Ret (), h\<lparr>put_replies := (put_replies h)(comp_key \<mapsto> {}),
                           put_mutexes := insert comp_key (put_mutexes h)\<rparr>)
      | Some _ \<Rightarrow> (Throw ConcurrentWritesSameKeyException, h))"

definition register_delete :: "kv_store_key \<Rightarrow> reply_handler \<Rightarrow> unit res \<times> reply_handler" where
  "register_delete comp_key h =
     (case delete_replies h comp_key of
        None \<Rightarrow> (Ret (), h\<lparr>delete_replies := (delete_replies h)(comp_key \<mapsto> {}),
                           delete_mutexes := insert comp_key (delete_mutexes h)\<rparr>)
      | Some _ \<Rightarrow> (Throw ConcurrentWritesSameKeyException, h))"

definition register_get :: "string \<Rightarrow> reply_handler \<Rightarrow> reply_handler" where
  "register_get req_id h =
     (case get_replies h req_id of
        None \<Rightarrow>
          h\<lparr>get_replies := (get_replies h)(req_id \<mapsto>
               \<lparr>keys = [], deleted_keys = [], reply_count = {}, metadata_higher_version = False\<rparr>),
            get_mutexes := insert req_id (get_mutexes h)\<rparr>
      | Some _ \<Rightarrow> h)"

definition erase_put :: "kv_store_key \<Rightarrow> reply_handler \<Rightarrow> reply_handler" where
  "erase_put k h = h\<lparr>put_replies := (put_replies h)(k := None), put_mutexes := put_mutexes h - {k}\<rparr>"

definition erase_delete :: "kv_store_key \<Rightarrow> reply_handler \<Rightarrow> reply_handler" where
  "erase_delete k h = h\<lparr>delete_replies := (delete_replies h)(k := None), delete_mutexes := delete_mutexes h - {k}\<rparr>"

definition erase_get :: "string \<Rightarrow> reply_handler \<Rightarrow> reply_handler" where
  "erase_get r h = h\<lparr>get_replies := (get_replies h)(r := None), get_mutexes := get_mutexes h - {r}\<rparr>"

fun clear_put_keys_entries :: "kv_store_key list \<Rightarrow> reply_handler \<Rightarrow> reply_handler" where
  "clear_put_keys_entries [] h = h"
| "clear_put_keys_entries (k # ks) h =
     clear_put_keys_entries ks (case put_replies h k of None \<Rightarrow> h | Some _ \<Rightarrow> erase_put k h)"

fun clear_get_keys_entries :: "string list \<Rightarrow> reply_handler \<Rightarrow> reply_handler" where
  "clear_get_keys_entries [] h = h"
| "clear_get_keys_entries (r # rs) h =
     clear_get_keys_entries rs (case get_replies h r of None \<Rightarrow> h | Some _ \<Rightarrow> erase_get r h)"

text \<open>Re-inserting an extracted node under an id that is already present drops the node.\<close>

definition change_get_reqid :: "string \<Rightarrow> string \<Rightarrow> reply_handler \<Rightarrow> reply_handler" where
  "change_get_reqid latest_reqid_str new_reqid h =
     (case get_replies h latest_reqid_str of
        None \<Rightarrow> h
      | Some node \<Rightarrow>
          (let h' = erase_get latest_reqid_str h in
           h'\<lparr>get_replies := (case get_replies h' new_reqid of
                 None \<Rightarrow> (get_replies h')(new_reqid \<mapsto> node) | Some _ \<Rightarrow> get_replies h'),
              get_mutexes := insert new_reqid (get_mutexes h')\<rparr>))"

section \<open>Replies\<close>

definition process_put_reply_msg :: "put_reply_message \<Rightarrow> reply_handler \<Rightarrow> reply_handler" where
  "process_put_reply_msg msg h =
     (let comp_key = \<lparr>key = pk_key (pr_key msg), version = version_of_msg (pr_key msg), f_type = pr_type msg,
                      is_deleted = False\<rparr>
      in case put_replies h comp_key of
           None \<Rightarrow> h
         | Some r \<Rightarrow> h\<lparr>put_replies := (put_replies h)(comp_key \<mapsto> insert (m_id msg) r)\<rparr>)"

definition process_delete_reply_msg :: "put_reply_message \<Rightarrow> reply_handler \<Rightarrow> reply_handler" where
  "process_delete_reply_msg msg h =
     (let comp_key = \<lparr>key = pk_key (pr_key msg), version = version_of_msg (pr_key msg), f_type = pr_type msg,
                      is_deleted = True\<rparr>
      in case delete_replies h comp_key of
           None \<Rightarrow> h
         | Some r \<Rightarrow> h\<lparr>delete_replies := (delete_replies h)(comp_key \<mapsto> insert (m_id msg) r)\<rparr>)"

definition update_get :: "string \<Rightarrow> (get_Replies \<Rightarrow> get_Replies) \<Rightarrow> reply_handler \<Rightarrow> reply_handler" where
  "update_get req_id f h =
     (case get_replies h req_id of
        None \<Rightarrow> h
      | Some g \<Rightarrow> h\<lparr>get_replies := (get_replies h)(req_id \<mapsto> f g)\<rparr>)"

text \<open>One reply with a single key and version, as \<^verbatim>\<open>process_get_reply_msg\<close> (type file) and
  \<^verbatim>\<open>process_get_metadata_reply_msg\<close> (type directory) record it.\<close>

definition record_data :: "FileType \<Rightarrow> 'a get_reply_message_scheme \<Rightarrow> get_Replies \<Rightarrow> get_Replies" where
  "record_data t msg g =
     (let del = gr_version_is_deleted msg;
          st_key = \<lparr>key = pk_key (gr_key msg), version = version_of_msg (gr_key msg), f_type = t, is_deleted = del\<rparr>
      in if \<not> del then g\<lparr>keys := map_insert st_key (Some (gr_data msg)) (keys g)\<rparr>
         else g\<lparr>deleted_keys := map_insert st_key None (deleted_keys g)\<rparr>)"

definition process_get_reply_msg :: "get_reply_message \<Rightarrow> reply_handler \<Rightarrow> reply_handler" where
  "process_get_reply_msg msg =
     update_get (gr_reqid msg) (\<lambda>g.
       (record_data FILE msg g)\<lparr>reply_count := insert (m_id msg) (reply_count g)\<rparr>)"

definition process_get_metadata_reply_msg :: "get_metadata_reply_message \<Rightarrow> reply_handler \<Rightarrow> reply_handler" where
  "process_get_metadata_reply_msg msg =
     update_get (gr_reqid msg) (\<lambda>g.
       (if gm_higher_version msg then g else record_data DIRECTORY msg g)
         \<lparr>metadata_higher_version := gm_higher_version msg, reply_count := insert (m_id msg) (reply_count g)\<rparr>)"

definition record_version :: "string \<Rightarrow> last_version \<Rightarrow> get_Replies \<Rightarrow> get_Replies" where
  "record_version k lv g =
     g\<lparr>keys := map_insert
         \<lparr>key = k, version = \<lparr>vv = vv_of_msg (lv_version lv), client_id = lv_client_id lv\<rparr>, f_type = FILE,
          is_deleted = False\<rparr>
         (if lv_data lv \<noteq> [] then Some (lv_data lv) else None) (keys g)\<rparr>"

definition record_deleted_version :: "string \<Rightarrow> last_version \<Rightarrow> get_Replies \<Rightarrow> get_Replies" where
  "record_deleted_version k lv g =
     g\<lparr>deleted_keys := map_insert
         \<lparr>key = k, version = \<lparr>vv = vv_of_msg (lv_version lv), client_id = lv_client_id lv\<rparr>, f_type = FILE,
          is_deleted = True\<rparr> None (deleted_keys g)\<rparr>"

definition process_get_latest_version_reply_msg ::
  "get_latest_version_reply_message \<Rightarrow> reply_handler \<Rightarrow> reply_handler" where
  "process_get_latest_version_reply_msg msg =
     update_get (gl_reqid msg) (\<lambda>g.
       (let g1 = fold (record_version (gl_key msg)) (gl_last_v msg) g;
            g2 = fold (record_deleted_version (gl_key msg)) (gl_last_deleted_v msg) g1
        in g2\<lparr>reply_count := insert (m_id msg) (reply_count g2)\<rparr>))"

text \<open>The dispatch of the listener threads; other messages are ignored.\<close>

fun process_reply :: "kv_body \<Rightarrow> reply_handler \<Rightarrow> reply_handler" where
  "process_reply (Put_reply_msg m) = process_put_reply_msg m"
| "process_reply (Delete_reply_msg m) = process_delete_reply_msg m"
| "process_reply (Get_reply_msg m) = process_get_reply_msg m"
| "process_reply (Get_met_reply_msg m) = process_get_metadata_reply_msg m"
| "process_reply (Get_latest_version_reply_msg m) = process_get_latest_version_reply_msg m"
| "process_reply _ = (\<lambda>h. h)"

section \<open>Waiting\<close>

text \<open>What the two waits for an acknowledgement (of a write, of a delete) have in common.\<close>

definition wait_quorum ::
  "(reply_handler \<Rightarrow> kv_store_key \<rightharpoonup> long set) \<Rightarrow> (kv_store_key \<Rightarrow> reply_handler \<Rightarrow> reply_handler) \<Rightarrow>
     kv_store_key \<Rightarrow> nat \<Rightarrow> kv_body list \<Rightarrow> bool \<Rightarrow> reply_handler \<Rightarrow> bool res \<times> reply_handler" where
  "wait_quorum replies erase k wait_for during timeout h =
     (case replies h k of
        None \<Rightarrow> (Ret False, h)
      | Some r \<Rightarrow>
          (let waited = card r < wait_for;
               h' = (if waited then fold process_reply during h else h)
           in case replies h' k of
                None \<Rightarrow> (Ret False, h')
              | Some r' \<Rightarrow>
                  if card r' \<ge> wait_for then (Ret True, erase k h')
                  else if waited \<and> timeout then (Throw TimeoutException, h')
                  else (Ret False, h')))"

definition wait_for_put :: "kv_store_key \<Rightarrow> nat \<Rightarrow> kv_body list \<Rightarrow> bool \<Rightarrow> reply_handler \<Rightarrow> bool res \<times> reply_handler" where
  "wait_for_put = wait_quorum put_replies erase_put"

text \<open>\<^verbatim>\<open>wait_for_put_until\<close> differs from \<^verbatim>\<open>wait_for_put\<close> in the clock and in where it releases the global lock.\<close>

definition wait_for_put_until ::
  "kv_store_key \<Rightarrow> nat \<Rightarrow> kv_body list \<Rightarrow> bool \<Rightarrow> reply_handler \<Rightarrow> bool res \<times> reply_handler" where
  "wait_for_put_until = wait_quorum put_replies erase_put"

definition wait_for_delete :: "kv_store_key \<Rightarrow> nat \<Rightarrow> kv_body list \<Rightarrow> bool \<Rightarrow> reply_handler \<Rightarrow> bool res \<times> reply_handler" where
  "wait_for_delete = wait_quorum delete_replies erase_delete"

text \<open>The common beginning of the waits for a read: the replies when there are enough of them, whether the wait timed
  out, and the state after it.\<close>

definition await_get :: "string \<Rightarrow> nat \<Rightarrow> kv_body list \<Rightarrow> bool \<Rightarrow> reply_handler \<Rightarrow>
    get_Replies option \<times> bool \<times> reply_handler" where
  "await_get req_id wait_for during timeout h =
     (case get_replies h req_id of
        None \<Rightarrow> (None, False, h)
      | Some g \<Rightarrow>
          (let waited = card (reply_count g) < wait_for;
               h' = (if waited then fold process_reply during h else h)
           in (case get_replies h' req_id of
                 None \<Rightarrow> None
               | Some g' \<Rightarrow> if card (reply_count g') \<ge> wait_for then Some g' else None,
               waited \<and> timeout, h')))"

text \<open>Results of a read wait: the value or the exception, the new content of \<^verbatim>\<open>*get_res\<close>, and the state.\<close>

type_synonym 'a get_result = "'a res \<times> Response \<times> reply_handler"

definition wait_for_get :: "(key_map \<Rightarrow> key_map) \<Rightarrow> string \<Rightarrow> nat \<Rightarrow> kv_body list \<Rightarrow> bool \<Rightarrow> Response \<Rightarrow> reply_handler \<Rightarrow>
    bytes option get_result" where
  "wait_for_get ord req_id wait_for during timeout get_res h =
     (case await_get req_id wait_for during timeout h of
        (Some g, _, h') \<Rightarrow>
          (if deleted_keys g \<noteq> [] then (Ret None, Deleted, erase_get req_id h')
           else if keys g \<noteq> [] then (Ret (snd (hd (ord (keys g)))), Ok, erase_get req_id h')
           else (Ret None, NoData, erase_get req_id h'))
      | (None, timeout_happened, h') \<Rightarrow>
          if get_res = Init \<and> timeout_happened then (Throw TimeoutException, get_res, h')
          else (Ret None, get_res, h'))"

definition wait_for_get_metadata_until ::
  "(key_map \<Rightarrow> key_map) \<Rightarrow> string \<Rightarrow> nat \<Rightarrow> kv_body list \<Rightarrow> bool \<Rightarrow> Response \<Rightarrow> reply_handler \<Rightarrow> bytes option get_result" where
  "wait_for_get_metadata_until ord req_id wait_for during timeout get_res h =
     (case await_get req_id wait_for during timeout h of
        (Some g, _, h') \<Rightarrow>
          (if metadata_higher_version g then (Ret None, NoData_HigherVersion, erase_get req_id h')
           else if deleted_keys g \<noteq> [] then (Ret None, Deleted, erase_get req_id h')
           else if keys g \<noteq> [] then (Ret (snd (hd (ord (keys g)))), Ok, erase_get req_id h')
           else (Ret None, NoData, erase_get req_id h'))
      | (None, timeout_happened, h') \<Rightarrow>
          if get_res = Init \<and> timeout_happened then (Throw TimeoutException, get_res, h')
          else (Ret None, get_res, h'))"

text \<open>The scan of the replies for the latest versions that have not been deleted.\<close>

fun version_deleted :: "kv_store_version \<Rightarrow> key_map \<Rightarrow> bool" where
  "version_deleted v [] = False"
| "version_deleted v (kv_del # dels) =
     (if comp_version v (version (fst kv_del)) \<in> {Lower, Equal} then True else version_deleted v dels)"

fun max_versions :: "key_map \<Rightarrow> key_map \<Rightarrow> kv_store_version list \<Rightarrow> kv_store_version list" where
  "max_versions [] dels max_vv = max_vv"
| "max_versions (kv # kvs) dels max_vv =
     max_versions kvs dels
       (if \<not> version_deleted (version (fst kv)) dels
        then vinsert comp_version (\<lambda>v. v) (version (fst kv)) (version (fst kv)) max_vv
        else max_vv)"

definition last_v :: "kv_store_version list \<Rightarrow> kv_store_version" where
  "last_v max_vv =
     (if length max_vv > 1 then choose_latest_version max_vv
      else if length max_vv = 1 then hd max_vv else default_version)"

definition wait_for_get_latest_version ::
  "(key_map \<Rightarrow> key_map) \<Rightarrow> string \<Rightarrow> nat \<Rightarrow> kv_body list \<Rightarrow> bool \<Rightarrow> Response \<Rightarrow> reply_handler \<Rightarrow>
     kv_store_version option get_result" where
  "wait_for_get_latest_version ord req_id wait_for during timeout get_res h =
     (case await_get req_id wait_for during timeout h of
        (Some g, timeout_happened, h') \<Rightarrow>
          (let max_vv = max_versions (ord (keys g)) (ord (deleted_keys g)) [] in
           if max_vv \<noteq> [] then (Ret (Some (last_v max_vv)), Ok, erase_get req_id h')
           else (if timeout_happened then Throw TimeoutException else Ret None,
                 if deleted_keys g \<noteq> [] then Deleted else NoData, erase_get req_id h'))
      | (None, timeout_happened, h') \<Rightarrow>
          (if timeout_happened then Throw TimeoutException else Ret None, get_res, h'))"

text \<open>\<open>map_keys.find({key, last_v})\<close>: the key built there is a file that is not deleted.\<close>

definition find_latest :: "string \<Rightarrow> kv_store_version \<Rightarrow> key_map \<Rightarrow> bytes option option" where
  "find_latest k v m = map_of m \<lparr>key = k, version = v, f_type = FILE, is_deleted = False\<rparr>"

definition wait_for_get_latest ::
  "(key_map \<Rightarrow> key_map) \<Rightarrow> string \<Rightarrow> string \<Rightarrow> nat \<Rightarrow> kv_body list \<Rightarrow> bool \<Rightarrow> Response \<Rightarrow> kv_store_version \<Rightarrow> reply_handler \<Rightarrow>
     bytes option res \<times> Response \<times> kv_store_version \<times> reply_handler" where
  "wait_for_get_latest ord k req_id wait_for during timeout get_res last_version h =
     (case await_get req_id wait_for during timeout h of
        (Some g, timeout_happened, h') \<Rightarrow>
          (let max_vv = max_versions (ord (keys g)) (ord (deleted_keys g)) [];
               none = (if timeout_happened then Throw TimeoutException else Ret None)
           in if max_vv \<noteq> [] then
                (case find_latest k (last_v max_vv) (keys g) of
                   Some d \<Rightarrow> (if d = None then none else Ret d, Ok, last_v max_vv, erase_get req_id h')
                 | None \<Rightarrow> (none, NoData, last_version, erase_get req_id h'))
              else (none, if deleted_keys g \<noteq> [] then Deleted else NoData, last_version, erase_get req_id h'))
      | (None, timeout_happened, h') \<Rightarrow>
          (if timeout_happened then Throw TimeoutException else Ret None, get_res, last_version, h'))"

text \<open>When all replies are empty, \<^verbatim>\<open>wait_for_get_latest_until\<close> clears the count, keeps the request registered and
  throws, so that the caller waits again.\<close>

definition wait_for_get_latest_until ::
  "(key_map \<Rightarrow> key_map) \<Rightarrow> string \<Rightarrow> string \<Rightarrow> nat \<Rightarrow> kv_body list \<Rightarrow> bool \<Rightarrow> Response \<Rightarrow> reply_handler \<Rightarrow>
     bytes option get_result" where
  "wait_for_get_latest_until ord k req_id wait_for during timeout get_res h =
     (case await_get req_id wait_for during timeout h of
        (Some g, timeout_happened, h') \<Rightarrow>
          (let max_vv = max_versions (ord (keys g)) (ord (deleted_keys g)) [] in
           if max_vv \<noteq> [] then
             (case find_latest k (last_v max_vv) (keys g) of
                Some d \<Rightarrow> (Ret d, Ok, erase_get req_id h')
              | None \<Rightarrow> (Ret None, NoData, erase_get req_id h'))
           else if deleted_keys g \<noteq> [] then (Ret None, Deleted, erase_get req_id h')
           else (Throw TimeoutException, get_res, update_get req_id (\<lambda>g. g\<lparr>reply_count := {}\<rparr>) h'))
      | (None, timeout_happened, h') \<Rightarrow>
          if get_res = Init \<and> timeout_happened then (Throw TimeoutException, get_res, h')
          else (Ret None, get_res, h'))"

text \<open>The scan of \<^verbatim>\<open>wait_for_get_latest_concurrent\<close> as it is written: \<^verbatim>\<open>res.push_back\<close> is not part of the
  conditional statement above it, so the data, empty once it has been moved, is appended for every live reply.\<close>

fun conc_scan :: "kv_store_version \<Rightarrow> bytes option \<Rightarrow> nat \<Rightarrow> kv_store_version list \<Rightarrow> bytes option list \<Rightarrow>
    (kv_store_version list \<times> bytes option list \<times> nat \<times> bytes option) res" where
  "conc_scan v d i [] rs = Ret ([], rs, 0, d)"
| "conc_scan v d i (m # ms) rs =
     (case comp_version v m of
        Bigger \<Rightarrow> if i < length rs then Ret (v # ms, rs[i := d], 0, None) else Throw Out_of_range
      | Concurrent \<Rightarrow> rbind (conc_scan v d (i + 1) ms rs) (\<lambda>(ms', rs', n, d'). Ret (m # ms', rs', n + 1, d'))
      | _ \<Rightarrow> rbind (conc_scan v d (i + 1) ms rs) (\<lambda>(ms', rs', n, d'). Ret (m # ms', rs', n, d')))"

fun conc_versions :: "key_map \<Rightarrow> key_map \<Rightarrow> kv_store_version list \<Rightarrow> bytes option list \<Rightarrow>
    (kv_store_version list \<times> bytes option list) res" where
  "conc_versions [] dels max_vv rs = Ret (max_vv, rs)"
| "conc_versions (kv # kvs) dels max_vv rs =
     (if \<not> version_deleted (version (fst kv)) dels then
        rbind (conc_scan (version (fst kv)) (snd kv) 0 max_vv rs) (\<lambda>(ms, rs', n, d).
          conc_versions kvs dels (if n = length ms then ms @ [version (fst kv)] else ms) (rs' @ [d]))
      else conc_versions kvs dels max_vv rs)"

definition wait_for_get_latest_concurrent ::
  "(key_map \<Rightarrow> key_map) \<Rightarrow> string \<Rightarrow> nat \<Rightarrow> kv_body list \<Rightarrow> bool \<Rightarrow> Response \<Rightarrow> reply_handler \<Rightarrow>
     bytes option list get_result" where
  "wait_for_get_latest_concurrent ord req_id wait_for during timeout get_res h =
     (case await_get req_id wait_for during timeout h of
        (Some g, timeout_happened, h') \<Rightarrow>
          (case conc_versions (ord (keys g)) (ord (deleted_keys g)) [] [] of
             Ret (max_vv, rs) \<Rightarrow>
               (Ret rs, if max_vv = [] \<and> deleted_keys g \<noteq> [] then Deleted
                        else if max_vv = [] then NoData else Ok, erase_get req_id h')
           | Throw e \<Rightarrow> (Throw e, get_res, h')
           | Hang \<Rightarrow> (Hang, get_res, h'))
      | (None, timeout_happened, h') \<Rightarrow>
          if get_res = Init \<and> timeout_happened then (Throw TimeoutException, get_res, h')
          else (Ret [], get_res, h'))"

section \<open>The contract of the registries\<close>

locale quorum_registry =
  fixes replies :: "'s \<Rightarrow> 'k \<Rightarrow> long set option"
    and process :: "'m \<Rightarrow> 's \<Rightarrow> 's"
    and acks :: "'m \<Rightarrow> ('k \<times> long) option"
  assumes process_replies: "replies (process m s) k =
     map_option (\<lambda>r. r \<union> {i. acks m = Some (k, i)}) (replies s k)"
begin

text \<open>The peers from which a list of messages acknowledges a request.\<close>

definition peers :: "'k \<Rightarrow> 'm list \<Rightarrow> long set" where
  "peers k ms = {i. \<exists>m\<in>set ms. acks m = Some (k, i)}"

lemma peers_simps [simp]:
  "peers k [] = {}" "peers k (m # ms) = {i. acks m = Some (k, i)} \<union> peers k ms"
  "peers k (ms @ ms') = peers k ms \<union> peers k ms'"
  by (auto simp: peers_def)

lemma finite_peers [simp]: "finite (peers k ms)"
proof (induction ms)
  case (Cons m ms)
  have "{i. acks m = Some (k, i)} \<subseteq> (case acks m of None \<Rightarrow> {} | Some (_, i) \<Rightarrow> {i})" by auto
  then have "finite {i. acks m = Some (k, i)}" by (rule finite_subset) (simp split: option.splits prod.splits)
  with Cons show ?case by simp
qed simp

lemma replies_fold: "replies (fold process ms s) k = map_option (\<lambda>r. r \<union> peers k ms) (replies s k)"
  by (induction ms arbitrary: s) (simp_all add: process_replies option.map_comp comp_def Un_assoc option.map_ident)

end

definition put_key :: "bool \<Rightarrow> put_reply_message \<Rightarrow> kv_store_key" where
  "put_key del m = \<lparr>key = pk_key (pr_key m), version = version_of_msg (pr_key m), f_type = pr_type m, is_deleted = del\<rparr>"

fun put_ack :: "kv_body \<Rightarrow> (kv_store_key \<times> long) option" where
  "put_ack (Put_reply_msg m) = Some (put_key False m, m_id m)"
| "put_ack _ = None"

fun delete_ack :: "kv_body \<Rightarrow> (kv_store_key \<times> long) option" where
  "delete_ack (Delete_reply_msg m) = Some (put_key True m, m_id m)"
| "delete_ack _ = None"

fun get_ack :: "kv_body \<Rightarrow> (string \<times> long) option" where
  "get_ack (Get_reply_msg m) = Some (gr_reqid m, m_id m)"
| "get_ack (Get_met_reply_msg m) = Some (gr_reqid m, m_id m)"
| "get_ack (Get_latest_version_reply_msg m) = Some (gl_reqid m, m_id m)"
| "get_ack _ = None"

lemmas process_defs =
  process_put_reply_msg_def process_delete_reply_msg_def process_get_reply_msg_def
  process_get_metadata_reply_msg_def process_get_latest_version_reply_msg_def update_get_def

lemma reply_count_record [simp]:
  "reply_count (record_data t m g) = reply_count g" "reply_count (record_version k lv g) = reply_count g"
  "reply_count (record_deleted_version k lv g) = reply_count g"
  by (simp_all add: record_data_def record_version_def record_deleted_version_def Let_def)

lemma reply_count_fold [simp]:
  "reply_count (fold (record_version k) lvs g) = reply_count g"
  "reply_count (fold (record_deleted_version k) lvs g) = reply_count g"
  by (induction lvs arbitrary: g) simp_all

interpretation puts: quorum_registry put_replies process_reply put_ack
proof
  show "put_replies (process_reply m h) k = map_option (\<lambda>r. r \<union> {i. put_ack m = Some (k, i)}) (put_replies h k)" for m h k
    by (cases m; cases "put_replies h k") (auto simp: process_defs put_key_def Let_def split: option.splits)
qed

interpretation deletes: quorum_registry delete_replies process_reply delete_ack
proof
  show "delete_replies (process_reply m h) k = map_option (\<lambda>r. r \<union> {i. delete_ack m = Some (k, i)}) (delete_replies h k)"
    for m h k
    by (cases m; cases "delete_replies h k") (auto simp: process_defs put_key_def Let_def split: option.splits)
qed

interpretation gets: quorum_registry "\<lambda>h r. map_option reply_count (get_replies h r)" process_reply get_ack
proof
  show "map_option reply_count (get_replies (process_reply m h) r) =
      map_option (\<lambda>c. c \<union> {i. get_ack m = Some (r, i)}) (map_option reply_count (get_replies h r))" for m h r
    by (cases m; cases "get_replies h r") (auto simp: process_defs Let_def split: option.splits)
qed

section \<open>Well-formedness\<close>

definition handler_wf :: "reply_handler \<Rightarrow> bool" where
  "handler_wf h \<longleftrightarrow> dom (put_replies h) = put_mutexes h \<and> dom (delete_replies h) = delete_mutexes h \<and>
     dom (get_replies h) = get_mutexes h"

lemma process_reply_frame:
  "dom (put_replies (process_reply m h)) = dom (put_replies h)"
  "dom (delete_replies (process_reply m h)) = dom (delete_replies h)"
  "dom (get_replies (process_reply m h)) = dom (get_replies h)"
  "put_mutexes (process_reply m h) = put_mutexes h" "delete_mutexes (process_reply m h) = delete_mutexes h"
  "get_mutexes (process_reply m h) = get_mutexes h"
  by (cases m; force simp: process_defs Let_def split: option.splits)+

lemma process_replies_wf [simp]: "handler_wf (fold process_reply ms h) \<longleftrightarrow> handler_wf h"
  by (induction ms arbitrary: h) (simp_all add: handler_wf_def process_reply_frame)

lemma erase_wf:
  "handler_wf h \<Longrightarrow> handler_wf (erase_put k h)" "handler_wf h \<Longrightarrow> handler_wf (erase_delete k h)"
  "handler_wf h \<Longrightarrow> handler_wf (erase_get r h)"
  by (auto simp: handler_wf_def erase_put_def erase_delete_def erase_get_def)

lemma wait_quorum_wf:
  "handler_wf h \<Longrightarrow> (\<And>h. handler_wf h \<Longrightarrow> handler_wf (er k h)) \<Longrightarrow> handler_wf (snd (wait_quorum rs er k n during t h))"
  by (auto simp: wait_quorum_def Let_def split: option.splits)

lemma await_get_wf: "await_get r n during t h = (g, to, h') \<Longrightarrow> handler_wf h \<Longrightarrow> handler_wf h'"
  by (auto simp: await_get_def Let_def split: option.splits if_splits)

section \<open>The scan for the latest versions\<close>

lemma version_deleted_iff: "version_deleted v dels \<longleftrightarrow> (\<exists>d\<in>set dels. ver_le v (version (fst d)))"
  by (induction dels) (auto simp: comp_version_cases split: if_splits)

lemma max_versions_fold:
  "max_versions kvs dels acc =
     fold (\<lambda>v. vinsert comp_version (\<lambda>v. v) v v)
       (filter (\<lambda>v. \<not> version_deleted v dels) (map (version \<circ> fst) kvs)) acc"
  by (induction kvs arbitrary: acc) auto

lemma max_versions_live:
  "v \<in> set (max_versions kvs dels []) \<Longrightarrow> v \<in> (version \<circ> fst) ` set kvs \<and> \<not> version_deleted v dels"
  using cv.vinserts_set[of "\<lambda>v. v" "filter (\<lambda>v. \<not> version_deleted v dels) (map (version \<circ> fst) kvs)" "[]"]
  by (auto simp: max_versions_fold)

lemma max_versions_Nil:
  "max_versions kvs dels [] = [] \<longleftrightarrow> (\<forall>kv\<in>set kvs. version_deleted (version (fst kv)) dels)"
  by (auto simp: max_versions_fold filter_empty_conv cv.vinserts_Nil_iff[where f = "\<lambda>v. v", simplified])

lemma max_versions_cover:
  assumes "kv \<in> set kvs" "\<not> version_deleted (version (fst kv)) dels"
  shows "\<exists>w\<in>set (max_versions kvs dels []). ver_le (version (fst kv)) w"
proof -
  have "cv.covered (\<lambda>v. v) (max_versions kvs dels []) (version (fst kv))"
    unfolding max_versions_fold
    using assms cv.vinserts_cover[of "version (fst kv)" "filter (\<lambda>v. \<not> version_deleted v dels) (map (version \<circ> fst) kvs)"
        "\<lambda>v. v" "[]"] by force
  then show ?thesis unfolding cv.covered_def by (metis comp_version_iffs(1,2) insertE singletonD vv_le_refl)
qed

lemma last_v_in:
  assumes "max_vv \<noteq> []" "\<forall>v\<in>set max_vv. client_id v < LONG_MAX"
  shows "last_v max_vv \<in> set max_vv"
proof (cases max_vv)
  case (Cons v vs)
  then show ?thesis
    using assms choose_latest_version_min(1)[of v max_vv] by (auto simp: last_v_def)
qed (use assms in simp)

lemma conc_scan_length: "conc_scan v d i ms rs = Ret (ms', rs', n, d') \<Longrightarrow> length rs' = length rs"
  by (induction v d i ms rs arbitrary: ms' rs' n d' rule: conc_scan.induct)
    (auto split: kVersionComp.splits if_splits)

lemma conc_versions_length:
  "conc_versions kvs dels ms rs = Ret (ms', rs') \<Longrightarrow>
     length rs' = length rs + length (filter (\<lambda>kv. \<not> version_deleted (version (fst kv)) dels) kvs)"
proof (induction kvs arbitrary: ms rs)
  case (Cons kv kvs)
  show ?case
  proof (cases "version_deleted (version (fst kv)) dels")
    case False
    with Cons.prems obtain ms1 rs1 n d where s: "conc_scan (version (fst kv)) (snd kv) 0 ms rs = Ret (ms1, rs1, n, d)"
      "conc_versions kvs dels (if n = length ms1 then ms1 @ [version (fst kv)] else ms1) (rs1 @ [d]) = Ret (ms', rs')"
      by auto
    from Cons.IH[OF s(2)] conc_scan_length[OF s(1)] False show ?thesis by simp
  qed (use Cons in simp)
qed simp

section \<open>Properties\<close>

text \<open>
  Quorum of a write: after a write has been registered, the wait for it returns true exactly when the number of
  distinct peers that acknowledged this key and version reaches the requested number, before the wait or while it
  sleeps, and then the request is forgotten. Repeated acknowledgements of one peer count once and those of other
  writes not at all. Otherwise the wait throws when the condition variable timed out and returns false when it did not.
\<close>

theorem put_quorum:
  assumes "register_put k h = (Ret (), h1)"
  shows "wait_for_put k n during timeout (fold process_reply before h1) =
    (if n \<le> card (puts.peers k before) then (Ret True, erase_put k (fold process_reply before h1))
     else if n \<le> card (puts.peers k (before @ during))
       then (Ret True, erase_put k (fold process_reply (before @ during) h1))
     else (if timeout then Throw TimeoutException else Ret False, fold process_reply (before @ during) h1))"
proof -
  have "put_replies h1 k = Some {}"
    using assms by (auto simp: register_put_def split: option.splits)
  then have "put_replies (fold process_reply before h1) k = Some (puts.peers k before)"
    "put_replies (fold process_reply (before @ during) h1) k = Some (puts.peers k (before @ during))"
    by (simp_all only: puts.replies_fold) simp_all
  then show ?thesis by (auto simp: wait_for_put_def wait_quorum_def Let_def not_le)
qed

definition sample_key :: kv_store_key where
  "sample_key = \<lparr>key = ''/a'', version = \<lparr>vv = smap_of [(1, 1)], client_id = 1\<rparr>, f_type = FILE, is_deleted = False\<rparr>"

definition sample_reply :: "long \<Rightarrow> kv_body" where
  "sample_reply i = Put_reply_msg \<lparr>m_ip = [], m_port = 0, m_id = i,
     pr_key = \<lparr>pk_key = ''/a'', pk_version = [(1, 1)], pk_client_id = 1\<rparr>, pr_type = FILE\<rparr>"

definition empty_handler :: reply_handler where
  "empty_handler = \<lparr>get_replies = Map.empty, get_mutexes = {}, put_replies = Map.empty, put_mutexes = {},
     delete_replies = Map.empty, delete_mutexes = {}\<rparr>"

lemma sample_peers: "puts.peers sample_key (map sample_reply is) = set is"
proof -
  have "put_ack (sample_reply i) = Some (sample_key, i)" for i
    by (simp add: sample_reply_def sample_key_def put_key_def version_of_msg_def vv_of_msg_def smap_of_def semplace_def)
  then show ?thesis by (induction "is") auto
qed

theorem put_quorum_witness:
  "\<exists>h1. register_put sample_key empty_handler = (Ret (), h1) \<and>
     fst (wait_for_put sample_key 2 (map sample_reply [7, 8]) True (fold process_reply (map sample_reply [7]) h1)) = Ret True \<and>
     fst (wait_for_put sample_key 2 (map sample_reply [7, 7]) True (fold process_reply (map sample_reply [7]) h1)) =
       Throw TimeoutException"
proof -
  obtain h1 where h1: "register_put sample_key empty_handler = (Ret (), h1)"
    by (simp add: register_put_def empty_handler_def)
  have p: "card (puts.peers sample_key (map sample_reply [7])) = 1"
    "card (puts.peers sample_key (map sample_reply [7] @ map sample_reply [7, 8])) = 2"
    "card (puts.peers sample_key (map sample_reply [7] @ map sample_reply [7, 7])) = 1"
    unfolding map_append[symmetric] sample_peers by simp_all
  have "fst (wait_for_put sample_key 2 (map sample_reply [7, 8]) True (fold process_reply (map sample_reply [7]) h1)) = Ret True"
    unfolding put_quorum[OF h1] p by simp
  moreover have "fst (wait_for_put sample_key 2 (map sample_reply [7, 7]) True (fold process_reply (map sample_reply [7]) h1)) =
      Throw TimeoutException"
    unfolding put_quorum[OF h1] p by simp
  ultimately show ?thesis using h1 by blast
qed

text \<open>
  C28. Every registered request has its mutex and every mutex its request, whatever sequence of registrations, replies, waits,
  renamings and clean-ups is made: the unchecked lookups of the mutex maps always find an entry.
\<close>

theorem handler_wf_invariant:
  assumes "handler_wf h"
  shows "handler_wf (snd (register_put k h)) \<and> handler_wf (snd (register_delete k h)) \<and> handler_wf (register_get r h) \<and>
     handler_wf (process_reply m h) \<and> handler_wf (clear_put_keys_entries ks h) \<and> handler_wf (clear_get_keys_entries rs h) \<and>
     handler_wf (change_get_reqid r r' h) \<and> handler_wf (snd (wait_for_put k n during t h)) \<and>
     handler_wf (snd (wait_for_delete k n during t h)) \<and> handler_wf (snd (snd (wait_for_get ord r n during t gr h))) \<and>
     handler_wf (snd (snd (wait_for_get_metadata_until ord r n during t gr h))) \<and>
     handler_wf (snd (snd (wait_for_get_latest_version ord r n during t gr h))) \<and>
     handler_wf (snd (snd (wait_for_get_latest_until ord key_s r n during t gr h)))"
proof (intro conjI)
  show "handler_wf (clear_put_keys_entries ks h)"
    using assms by (induction ks arbitrary: h) (auto intro: erase_wf split: option.splits)
  show "handler_wf (clear_get_keys_entries rs h)"
    using assms by (induction rs arbitrary: h) (auto intro: erase_wf split: option.splits)
  show "handler_wf (snd (wait_for_put k n during t h))" "handler_wf (snd (wait_for_delete k n during t h))"
    using assms by (auto simp: wait_for_put_def wait_for_delete_def intro!: wait_quorum_wf erase_wf)
  have up: "handler_wf (update_get r f h')" if "handler_wf h'" for r f h'
    using that by (auto simp: update_get_def handler_wf_def split: option.splits)
  show "handler_wf (snd (snd (wait_for_get ord r n during t gr h)))"
    "handler_wf (snd (snd (wait_for_get_metadata_until ord r n during t gr h)))"
    "handler_wf (snd (snd (wait_for_get_latest_version ord r n during t gr h)))"
    "handler_wf (snd (snd (wait_for_get_latest_until ord key_s r n during t gr h)))"
    using await_get_wf[of r n during t h, OF _ assms]
    by (auto simp: wait_for_get_def wait_for_get_metadata_until_def wait_for_get_latest_version_def
        wait_for_get_latest_until_def Let_def intro!: erase_wf up split: prod.splits option.splits)
  show "handler_wf (process_reply m h)" using process_replies_wf[of "[m]" h] assms by simp
  show "handler_wf (change_get_reqid r r' h)"
    using assms by (auto simp: change_get_reqid_def handler_wf_def erase_get_def Let_def split: option.splits)
qed (use assms in \<open>auto simp: handler_wf_def register_put_def register_delete_def register_get_def split: option.splits\<close>)

theorem handler_wf_invariant_witness:
  "handler_wf empty_handler \<and> handler_wf (snd (register_put sample_key empty_handler))"
proof -
  have wf: "handler_wf empty_handler" by (simp add: handler_wf_def empty_handler_def)
  show ?thesis using handler_wf_invariant[OF wf, of sample_key] wf by simp
qed

text \<open>
  What a client learns from a completed read of the latest version: if some reported version is not covered by
  a reported deletion, it gets a reported version that is not covered by one; otherwise it is told that the
  object was deleted, or that no peer had data. The order in which the replies are visited does not matter for this.
\<close>

theorem latest_version_is_live:
  assumes "await_get r n during timeout h = (Some g, False, h')" "\<forall>xs. set (ord xs) = set xs"
    and "\<forall>kv\<in>set (keys g). client_id (version (fst kv)) < LONG_MAX"
  shows "if \<exists>kv\<in>set (keys g). \<forall>d\<in>set (deleted_keys g). \<not> ver_le (version (fst kv)) (version (fst d))
     then \<exists>kv\<in>set (keys g). (\<forall>d\<in>set (deleted_keys g). \<not> ver_le (version (fst kv)) (version (fst d))) \<and>
       wait_for_get_latest_version ord r n during timeout get_res h =
         (Ret (Some (version (fst kv))), Ok, erase_get r h')
     else wait_for_get_latest_version ord r n during timeout get_res h =
       (Ret None, if deleted_keys g \<noteq> [] then Deleted else NoData, erase_get r h')"
proof -
  let ?max = "max_versions (ord (keys g)) (ord (deleted_keys g)) []"
  have del: "version_deleted v (ord (deleted_keys g)) \<longleftrightarrow> (\<exists>d\<in>set (deleted_keys g). ver_le v (version (fst d)))" for v
    by (simp add: version_deleted_iff assms(2))
  show ?thesis
  proof (cases "?max = []")
    case True
    then have "\<not> (\<exists>kv\<in>set (keys g). \<forall>d\<in>set (deleted_keys g). \<not> ver_le (version (fst kv)) (version (fst d)))"
      by (auto simp: max_versions_Nil del assms(2))
    then show ?thesis using True assms(1) by (simp add: wait_for_get_latest_version_def)
  next
    case False
    have "\<forall>v\<in>set ?max. client_id v < LONG_MAX"
      using assms(2,3) max_versions_live[of _ "ord (keys g)" "ord (deleted_keys g)"] by force
    note m = max_versions_live[OF last_v_in[OF False this]]
    then obtain kv where kv: "kv \<in> set (keys g)" "last_v ?max = version (fst kv)"
      "\<forall>d\<in>set (deleted_keys g). \<not> ver_le (version (fst kv)) (version (fst d))"
      using assms(2) del by auto
    moreover have "wait_for_get_latest_version ord r n during timeout get_res h = (Ret (Some (last_v ?max)), Ok, erase_get r h')"
      using False assms(1) by (simp add: wait_for_get_latest_version_def Let_def)
    ultimately show ?thesis by auto
  qed
qed

definition latest_msg :: "long \<Rightarrow> last_version list \<Rightarrow> kv_body" where
  "latest_msg i lvs = Get_latest_version_reply_msg
     \<lparr>m_ip = [], m_port = 0, m_id = i, gl_reqid = ''r'', gl_key = ''/a'', gl_last_v = lvs, gl_last_deleted_v = []\<rparr>"

definition lv :: "(long \<times> long) list \<Rightarrow> long \<Rightarrow> last_version" where
  "lv cs c = \<lparr>lv_version = cs, lv_client_id = c, lv_data = ''x''\<rparr>"

definition sample_versions :: "kv_store_version list" where
  "sample_versions = [\<lparr>vv = smap_of [(1, 1)], client_id = 5\<rparr>, \<lparr>vv = smap_of [(2, 1)], client_id = 2\<rparr>,
     \<lparr>vv = smap_of [(1, 1), (2, 1), (3, 1)], client_id = 3\<rparr>]"

lemma sample_await:
  "\<exists>g h'. await_get ''r'' 1 [latest_msg 9 [lv [(1, 1)] 5, lv [(2, 1)] 2, lv [(1, 1), (2, 1), (3, 1)] 3]] False
      (register_get ''r'' empty_handler) = (Some g, False, h') \<and>
    map (version \<circ> fst) (keys g) = sample_versions \<and> deleted_keys g = []"
  by (simp add: await_get_def register_get_def empty_handler_def latest_msg_def lv_def process_defs Let_def
      record_version_def map_insert_def vv_of_msg_def semplace_def sample_versions_def smap_of_def)

theorem latest_version_is_live_witness:
  "\<exists>g h' v. await_get ''r'' 1 [latest_msg 9 [lv [(1, 1)] 5, lv [(2, 1)] 2, lv [(1, 1), (2, 1), (3, 1)] 3]] False
      (register_get ''r'' empty_handler) = (Some g, False, h') \<and> v \<in> set sample_versions \<and>
    wait_for_get_latest_version rev ''r'' 1 [latest_msg 9 [lv [(1, 1)] 5, lv [(2, 1)] 2, lv [(1, 1), (2, 1), (3, 1)] 3]]
      False Init (register_get ''r'' empty_handler) = (Ret (Some v), Ok, erase_get ''r'' h')"
proof -
  obtain g h' where g: "await_get ''r'' 1 [latest_msg 9 [lv [(1, 1)] 5, lv [(2, 1)] 2, lv [(1, 1), (2, 1), (3, 1)] 3]] False
      (register_get ''r'' empty_handler) = (Some g, False, h')"
    "map (version \<circ> fst) (keys g) = sample_versions" "deleted_keys g = []"
    using sample_await by blast
  have vs: "(version \<circ> fst) ` set (keys g) = set sample_versions" using arg_cong[OF g(2), of set] by simp
  have "\<forall>v\<in>set sample_versions. client_id v < LONG_MAX" by (simp add: sample_versions_def LONG_MAX_def)
  then have ids: "\<forall>kv\<in>set (keys g). client_id (version (fst kv)) < LONG_MAX" using vs by force
  have "keys g \<noteq> []" using g(2) by (auto simp: sample_versions_def)
  then have ex: "\<exists>kv\<in>set (keys g). \<forall>d\<in>set (deleted_keys g). \<not> ver_le (version (fst kv)) (version (fst d))"
    using g(3) by (cases "keys g") auto
  from latest_version_is_live[OF g(1), of rev Init] ids ex
  obtain kv where "kv \<in> set (keys g)"
    "wait_for_get_latest_version rev ''r'' 1 [latest_msg 9 [lv [(1, 1)] 5, lv [(2, 1)] 2, lv [(1, 1), (2, 1), (3, 1)] 3]]
      False Init (register_get ''r'' empty_handler) = (Ret (Some (version (fst kv))), Ok, erase_get ''r'' h')"
    by (simp only: set_rev if_True) blast
  with g(1) vs show ?thesis by force
qed

text \<open>
  A read of the latest version may return an older one: when two concurrent versions are visited before a version newer
  than both, the second of them stays among the candidates, and it is returned if its client id is smaller.
\<close>

theorem latest_version_may_be_stale:
  assumes "await_get r n during timeout h = (Some g, to, h')" "deleted_keys g = []" "ord [] = []"
    and "map (version \<circ> fst) (ord (keys g)) = [a, b, c]"
    and "comp_version b a = Concurrent" "comp_version c a = Bigger" "comp_version c b = Bigger"
    and "client_id b < client_id c" "client_id b < LONG_MAX"
  shows "fst (wait_for_get_latest_version ord r n during timeout get_res h) = Ret (Some b)"
proof -
  have "max_versions (ord (keys g)) [] [] = [c, b]"
    using assms(4-7) by (simp add: max_versions_fold vinsert_def)
  moreover have "last_v [c, b] = b"
    using assms(8,9) by (simp add: last_v_def choose_latest_version_def default_version_def)
  ultimately show ?thesis using assms(1-3) by (simp add: wait_for_get_latest_version_def Let_def)
qed

theorem latest_version_may_be_stale_witness:
  "comp_version (sample_versions ! 2) (sample_versions ! 1) = Bigger \<and>
   fst (wait_for_get_latest_version (\<lambda>xs. xs) ''r'' 1
     [latest_msg 9 [lv [(1, 1)] 5, lv [(2, 1)] 2, lv [(1, 1), (2, 1), (3, 1)] 3]]
     False Init (register_get ''r'' empty_handler)) = Ret (Some (sample_versions ! 1))"
proof -
  obtain g h' where g: "await_get ''r'' 1 [latest_msg 9 [lv [(1, 1)] 5, lv [(2, 1)] 2, lv [(1, 1), (2, 1), (3, 1)] 3]] False
      (register_get ''r'' empty_handler) = (Some g, False, h')"
    "map (version \<circ> fst) (keys g) = sample_versions" "deleted_keys g = []"
    using sample_await by blast
  let ?a = "sample_versions ! 0" and ?b = "sample_versions ! 1" and ?c = "sample_versions ! 2"
  have l: "sample_versions = [?a, ?b, ?c]" by (simp add: sample_versions_def)
  have c: "comp_version ?b ?a = Concurrent" "comp_version ?c ?a = Bigger" "comp_version ?c ?b = Bigger"
    by (simp_all add: sample_versions_def comp_version_def smap_of_def ssize_def)
  have "fst (wait_for_get_latest_version (\<lambda>xs. xs) ''r'' 1
     [latest_msg 9 [lv [(1, 1)] 5, lv [(2, 1)] 2, lv [(1, 1), (2, 1), (3, 1)] 3]]
     False Init (register_get ''r'' empty_handler)) = Ret (Some ?b)"
    by (rule latest_version_may_be_stale[where ord = "\<lambda>xs. xs", OF g(1,3) _ _ c])
      (use g(2) l in \<open>simp_all add: sample_versions_def LONG_MAX_def\<close>)
  with c show ?thesis by blast
qed

text \<open>
  The read of all concurrent values returns one value per live reply: the vector it returns has as many elements
  as there are reported versions not covered by a deletion, superseded versions included.
\<close>

theorem concurrent_read_has_one_value_per_reply:
  assumes "await_get r n during timeout h = (Some g, to, h')"
    and "wait_for_get_latest_concurrent ord r n during timeout get_res h = (Ret rs, get_res', h'')"
  shows "length rs = length (filter (\<lambda>kv. \<not> version_deleted (version (fst kv)) (ord (deleted_keys g))) (ord (keys g)))"
  using assms by (auto simp: wait_for_get_latest_concurrent_def dest: conc_versions_length split: res.splits)

theorem concurrent_read_has_one_value_per_reply_witness:
  "\<exists>rs get_res' h''. wait_for_get_latest_concurrent (\<lambda>xs. xs) ''r'' 1
     [latest_msg 9 [lv [(1, 1)] 5, lv [(2, 1)] 2, lv [(1, 1), (2, 1), (3, 1)] 3]]
     False Init (register_get ''r'' empty_handler) = (Ret rs, get_res', h'') \<and> length rs = 3"
proof -
  obtain g h' where g: "await_get ''r'' 1 [latest_msg 9 [lv [(1, 1)] 5, lv [(2, 1)] 2, lv [(1, 1), (2, 1), (3, 1)] 3]] False
      (register_get ''r'' empty_handler) = (Some g, False, h')"
    "map (version \<circ> fst) (keys g) = sample_versions" "deleted_keys g = []"
    using sample_await by blast
  let ?a = "sample_versions ! 0" and ?b = "sample_versions ! 1" and ?c = "sample_versions ! 2"
  have l: "sample_versions = [?a, ?b, ?c]" by (simp add: sample_versions_def)
  obtain x y z where xs: "keys g = [x, y, z]" "version (fst x) = ?a" "version (fst y) = ?b" "version (fst z) = ?c"
    using trans[OF g(2) l] by (simp only: map_eq_Cons_conv) auto
  have c: "comp_version ?b ?a = Concurrent" "comp_version ?c ?a = Bigger"
    by (simp_all add: sample_versions_def comp_version_def smap_of_def ssize_def)
  have "\<exists>ms rs. conc_versions (keys g) [] [] [] = Ret (ms, rs)"
    using xs c by simp
  then obtain rs get_res' h'' where w: "wait_for_get_latest_concurrent (\<lambda>xs. xs) ''r'' 1
     [latest_msg 9 [lv [(1, 1)] 5, lv [(2, 1)] 2, lv [(1, 1), (2, 1), (3, 1)] 3]]
     False Init (register_get ''r'' empty_handler) = (Ret rs, get_res', h'')"
    using g by (auto simp: wait_for_get_latest_concurrent_def)
  from concurrent_read_has_one_value_per_reply[OF g(1) w] xs(1) g(3) have "length rs = 3" by simp
  with w show ?thesis by blast
qed

end
