(* ===== verification/Peer_View.thy ===== *)
theory Peer_View
  imports Complex_Main LSFS_Prelude
begin

text \<open>
  The views of a peer: \<^verbatim>\<open>df_core/peer_data.h\<close> and the \<^verbatim>\<open>std::unordered_map<long, peer_data>\<close> that the
  peer sampling and the group construction keep. A view is an association list in order of insertion; the order in
  which the hash table is traversed is taken to be that order.

  Positions are \<^verbatim>\<open>double\<close>s in the unit interval. They are only multiplied by the number of groups and rounded up;
  the number of groups is a power of two (see \<open>Group_Construction\<close>), so the product is exact and positions are rational
  numbers here.
\<close>

record peer_data =
  pd_ip :: string
  pd_kv_port :: int
  pd_pss_port :: int
  pd_recover_port :: int
  pd_age :: int
  pd_id :: long
  pd_nr_slices :: int
  pd_pos :: rat
  pd_slice :: int

type_synonym pview = "(long \<times> peer_data) list"

section \<open>Operations of the hash table\<close>

definition view_insert :: "peer_data \<Rightarrow> pview \<Rightarrow> pview" where
  "view_insert p v = (if map_of v (pd_id p) = None then v @ [(pd_id p, p)] else v)"

definition view_update :: "long \<Rightarrow> (peer_data \<Rightarrow> peer_data) \<Rightarrow> pview \<Rightarrow> pview" where
  "view_update i f v = map (\<lambda>(j, p). (j, if j = i then f p else p)) v"

definition view_erase :: "long \<Rightarrow> pview \<Rightarrow> pview" where
  "view_erase i v = filter (\<lambda>(j, _). j \<noteq> i) v"

definition view_age :: "pview \<Rightarrow> pview" where
  "view_age v = map (\<lambda>(j, p). (j, p\<lparr>pd_age := pd_age p + 1\<rparr>)) v"

section \<open>Well-formed views\<close>

text \<open>Every entry stands under the id of its peer, once, and the owner of the view is not in it.\<close>

definition view_wf :: "long \<Rightarrow> pview \<Rightarrow> bool" where
  "view_wf self v \<longleftrightarrow> distinct (map fst v) \<and> self \<notin> fst ` set v \<and> (\<forall>(i, p)\<in>set v. pd_id p = i)"

lemma view_wf_Nil [simp]: "view_wf self []"
  by (simp add: view_wf_def)

lemma view_wf_insert [simp]: "view_wf self v \<Longrightarrow> pd_id p \<noteq> self \<Longrightarrow> view_wf self (view_insert p v)"
  by (auto simp: view_wf_def view_insert_def map_of_eq_None_iff)

lemma fst_view_update [simp]: "map fst (view_update i f v) = map fst v"
  by (induction v) (auto simp: view_update_def)

lemma fst_set_view_update [simp]: "fst ` set (view_update i f v) = fst ` set v"
  by (metis fst_view_update list.set_map)

lemma set_view_update: "e \<in> set (view_update i f v) \<Longrightarrow> e \<in> set v \<or> (\<exists>p. (i, p) \<in> set v \<and> e = (i, f p))"
  by (auto simp: view_update_def split: if_splits)

lemma view_wf_update [simp]:
  assumes "view_wf self v" "\<And>p. pd_id p = i \<Longrightarrow> pd_id (f p) = i"
  shows "view_wf self (view_update i f v)"
proof -
  have "\<forall>(j, p)\<in>set (view_update i f v). pd_id p = j"
    using assms set_view_update[of _ i f v] unfolding view_wf_def by fastforce
  with assms(1) show ?thesis by (simp add: view_wf_def)
qed

lemma view_wf_filter [simp]: "view_wf self v \<Longrightarrow> view_wf self (filter P v)"
  by (auto simp: view_wf_def distinct_map_filter)

lemma view_wf_erase [simp]: "view_wf self v \<Longrightarrow> view_wf self (view_erase i v)"
  by (simp add: view_erase_def)

lemma view_wf_age [simp]: "view_wf self v \<Longrightarrow> view_wf self (view_age v)"
  by (auto simp: view_wf_def view_age_def comp_def case_prod_beta image_image)

lemma set_view_insert: "set (view_insert p v) \<subseteq> insert (pd_id p, p) (set v)"
  by (auto simp: view_insert_def)

lemma length_view_update [simp]: "length (view_update i f v) = length v"
  by (simp add: view_update_def)

lemma length_view_insert: "length (view_insert p v) \<le> length v + 1"
  by (simp add: view_insert_def)

definition view_all :: "(peer_data \<Rightarrow> bool) \<Rightarrow> pview \<Rightarrow> bool" where
  "view_all ok v \<longleftrightarrow> (\<forall>p\<in>snd ` set v. ok p)"

lemma view_all_insert [simp]: "view_all ok v \<Longrightarrow> ok p \<Longrightarrow> view_all ok (view_insert p v)"
  by (auto simp: view_all_def view_insert_def)

lemma view_all_update: "view_all ok v \<Longrightarrow> (\<And>p. ok p \<Longrightarrow> ok (f p)) \<Longrightarrow> view_all ok (view_update i f v)"
  by (auto simp: view_all_def view_update_def)

lemma view_all_filter: "view_all ok (filter (\<lambda>(i, p). ok p \<and> Q p) v)"
  by (auto simp: view_all_def)

section \<open>Incorporating received peers\<close>

text \<open>The code goes through received peers and takes each into a view. \<open>step\<close> is the treatment of one peer; what it promises
  for one peer holds for the whole list. \<open>ok\<close> is what the component expects of the entries of the view.\<close>

locale incorporate =
  fixes self :: long and ok :: "peer_data \<Rightarrow> bool" and step :: "peer_data \<Rightarrow> pview \<Rightarrow> pview"
  assumes step_wf: "view_wf self v \<Longrightarrow> view_wf self (step p v)"
    and step_ok: "view_all ok v \<Longrightarrow> view_all ok (step p v)"
begin

lemma fold_wf: "view_wf self v \<Longrightarrow> view_wf self (fold step ps v)"
  by (induction ps arbitrary: v) (auto intro: step_wf)

lemma fold_ok: "view_all ok v \<Longrightarrow> view_all ok (fold step ps v)"
  by (induction ps arbitrary: v) (auto intro: step_ok)

end

end
