(* ===== verification/Text_Util.thy ===== *)
theory Text_Util
  imports Versions
begin

text \<open>
  Numbers as text, composite keys and block splitting: \<^verbatim>\<open>std::to_string\<close>, \<^verbatim>\<open>std::stol\<close> and \<^verbatim>\<open>std::stoi\<close> as the
  program uses them, and the functions of \<^verbatim>\<open>df_util/util.cpp\<close> that build and take apart keys.

  The regular-expression engine is not part of the repository: \<open>rx pattern subject\<close> stands for
  \<^verbatim>\<open>boost::regex_search\<close> and gives the list of matched groups (the whole match first) or \<open>None\<close>.
  \<open>regex_ok\<close> states the documented behaviour of the two patterns this theory uses on subjects
  without line breaks.
\<close>

section \<open>Decimal numbers\<close>

definition digit_char :: "nat \<Rightarrow> char" where
  "digit_char d = char_of (48 + d)"

fun digits :: "nat \<Rightarrow> string" where
  "digits n = (if n < 10 then [digit_char n] else digits (n div 10) @ [digit_char (n mod 10)])"

declare digits.simps [simp del]

text \<open>\<^verbatim>\<open>std::to_string\<close>\<close>

definition to_string :: "int \<Rightarrow> string" where
  "to_string i = (if i < 0 then CHR ''-'' # digits (nat (- i)) else digits (nat i))"

definition is_digit :: "char \<Rightarrow> bool" where
  "is_digit c \<longleftrightarrow> 48 \<le> (of_char c :: nat) \<and> (of_char c :: nat) \<le> 57"

definition is_space :: "char \<Rightarrow> bool" where
  "is_space c \<longleftrightarrow> (of_char c :: nat) = 32 \<or> (9 \<le> (of_char c :: nat) \<and> (of_char c :: nat) \<le> 13)"

definition digits_value :: "string \<Rightarrow> int" where
  "digits_value s = fold (\<lambda>c a. a * 10 + (int (of_char c) - 48)) s 0"

text \<open>\<^verbatim>\<open>strtol\<close> in base 10: leading white space, an optional sign, the longest run of digits; no digit is
  an error of the caller (\<^verbatim>\<open>std::invalid_argument\<close>).\<close>

definition parse_integer :: "string \<Rightarrow> int option" where
  "parse_integer s =
     (let t = dropWhile is_space s;
          neg = (t \<noteq> [] \<and> hd t = CHR ''-'');
          u = (if t \<noteq> [] \<and> (hd t = CHR ''-'' \<or> hd t = CHR ''+'') then tl t else t);
          ds = takeWhile is_digit u
      in if ds = [] then None
         else Some (if neg then - digits_value ds else digits_value ds))"

definition stol :: "string \<Rightarrow> int res" where
  "stol s = (case parse_integer s of
       None \<Rightarrow> Throw Invalid_argument
     | Some i \<Rightarrow> if - LONG_MAX - 1 \<le> i \<and> i \<le> LONG_MAX then Ret i else Throw Out_of_range)"

definition stoi :: "string \<Rightarrow> int res" where
  "stoi s = (case parse_integer s of
       None \<Rightarrow> Throw Invalid_argument
     | Some i \<Rightarrow> if - (2 ^ 31) \<le> i \<and> i \<le> 2 ^ 31 - 1 then Ret i else Throw Out_of_range)"

section \<open>Composite keys\<close>

fun vv2str_loop :: "(long \<times> long) list \<Rightarrow> string \<Rightarrow> string" where
  "vv2str_loop [] mapStr = mapStr"
| "vv2str_loop ((c, n) # xs) mapStr =
     vv2str_loop xs (mapStr @ to_string c @ ''@'' @ to_string n @ '','')"

definition vv2str :: "(long, long) smap \<Rightarrow> string" where
  "vv2str m = (let mapStr = vv2str_loop (entries m) [] in
     if length mapStr > 0 then butlast mapStr else mapStr)"

definition compose_key_toString :: "string \<Rightarrow> kv_store_version \<Rightarrow> string" where
  "compose_key_toString k v =
     (let mapStr = vv2str (vv v) in k @ ''#'' @ mapStr @ ''#'' @ to_string (client_id v))"

type_synonym regex = "string \<Rightarrow> string \<Rightarrow> string list option"

definition base_path_pattern :: string where
  "base_path_pattern = ''(.*):[^:]+$''"

definition blk_num_pattern :: string where
  "blk_num_pattern = '':([^:]+)$''"

text \<open>\<^verbatim>\<open>c_str()\<close> ends at the first NUL byte.\<close>

definition c_str :: "string \<Rightarrow> string" where
  "c_str s = takeWhile (\<lambda>c. of_char c \<noteq> (0 :: nat)) s"

text \<open>\<^verbatim>\<open>match[1].str()\<close>: empty when the group did not take part in the match.\<close>

definition group1 :: "string list \<Rightarrow> string" where
  "group1 gs = (case gs of _ # g # _ \<Rightarrow> g | _ \<Rightarrow> [])"

text \<open>Both return 0 and leave the output argument alone when there is no match.\<close>

definition get_base_path :: "regex \<Rightarrow> string \<Rightarrow> string \<Rightarrow> int \<times> string" where
  "get_base_path rx k base_path =
     (0, case rx base_path_pattern (c_str k) of None \<Rightarrow> base_path | Some gs \<Rightarrow> group1 gs)"

definition get_blk_num :: "regex \<Rightarrow> string \<Rightarrow> string \<Rightarrow> int \<times> string" where
  "get_blk_num rx k blk_num =
     (0, case rx blk_num_pattern (c_str k) of None \<Rightarrow> blk_num | Some gs \<Rightarrow> group1 gs)"

definition blk_path :: "string \<Rightarrow> nat \<Rightarrow> string" where
  "blk_path base i = base @ '':'' @ to_string (int i)"

section \<open>Blocks\<close>

definition BLK_SIZE :: nat where
  "BLK_SIZE = 4096"

definition NR_BLKS :: "nat \<Rightarrow> nat" where
  "NR_BLKS total_s = (let n = total_s div BLK_SIZE in if total_s mod BLK_SIZE > 0 then n + 1 else n)"

definition substr_from :: "string \<Rightarrow> nat \<Rightarrow> string res" where
  "substr_from s pos = (if pos > length s then Throw Out_of_range else Ret (drop pos s))"

definition substr :: "string \<Rightarrow> nat \<Rightarrow> nat \<Rightarrow> string res" where
  "substr s pos n = rbind (substr_from s pos) (\<lambda>t. Ret (take n t))"

text \<open>\<^verbatim>\<open>blk_num\<close> is an \<^verbatim>\<open>int\<close>; the position and the comparison with the number of blocks are computed in
  \<^verbatim>\<open>size_t\<close>.\<close>

definition split_data :: "bytes option \<Rightarrow> int \<Rightarrow> bytes option res" where
  "split_data data blk_num =
     (case data of
        None \<Rightarrow> Ret None
      | Some d \<Rightarrow>
          (let pos = unat ((word_of_int (blk_num - 1) :: 64 word) * of_nat BLK_SIZE);
               value =
                 (if (word_of_int blk_num :: 64 word) = of_nat (NR_BLKS (length d))
                  then substr_from d pos else substr d pos BLK_SIZE)
           in rbind value (\<lambda>v. Ret (Some v))))"

section \<open>Printing and parsing\<close>

lemma of_char_digit_char [simp]: "d < 10 \<Longrightarrow> of_char (digit_char d) = (48 + d :: nat)"
  by (simp add: digit_char_def)

lemma is_digit_digit_char [simp]: "d < 10 \<Longrightarrow> is_digit (digit_char d)"
  by (simp add: is_digit_def)

lemma digits_not_Nil [simp]: "digits n \<noteq> []"
  by (subst digits.simps) simp

lemma digits_are_digits: "c \<in> set (digits n) \<Longrightarrow> is_digit c"
proof (induction n rule: digits.induct)
  case (1 n)
  then show ?case by (subst (asm) digits.simps) (auto split: if_splits)
qed

lemma digits_value_append:
  "digits_value (s @ [c]) = digits_value s * 10 + (int (of_char c) - 48)"
  by (simp add: digits_value_def)

lemma digits_value_digits [simp]: "digits_value (digits n) = int n"
proof (induction n rule: digits.induct)
  case (1 n)
  show ?case
  proof (cases "n < 10")
    case True
    then show ?thesis by (subst digits.simps) (simp add: digits_value_def)
  next
    case False
    with 1 show ?thesis
      by (subst digits.simps) (simp add: digits_value_append zmod_int zdiv_int algebra_simps)
  qed
qed

lemma takeWhile_digits:
  "rest = [] \<or> \<not> is_digit (hd rest) \<Longrightarrow> takeWhile is_digit (digits n @ rest) = digits n"
  using digits_are_digits by (cases rest) (auto simp: takeWhile_append)

lemma is_digit_facts:
  "is_digit c \<Longrightarrow> \<not> is_space c" "is_digit c \<Longrightarrow> c \<noteq> CHR ''-''" "is_digit c \<Longrightarrow> c \<noteq> CHR ''+''"
  "is_digit c \<Longrightarrow> c \<noteq> CHR ''#''" "is_digit c \<Longrightarrow> c \<noteq> CHR ''@''" "is_digit c \<Longrightarrow> c \<noteq> CHR '',''"
  "is_digit c \<Longrightarrow> c \<noteq> CHR '':''"
  by (auto simp: is_digit_def is_space_def)

lemma digits_Cons: obtains c cs where "digits n = c # cs" "is_digit c"
  using digits_are_digits by (cases "digits n") (auto, metis list.set_intros(1))

text \<open>Reading back a printed number, whatever non-digit text follows it.\<close>

lemma parse_integer_to_string:
  assumes "rest = [] \<or> \<not> is_digit (hd rest)"
  shows "parse_integer (to_string i @ rest) = Some i"
proof (cases "i < 0")
  case True
  have "takeWhile is_digit (digits (nat (- i)) @ rest) = digits (nat (- i))"
    using assms by (rule takeWhile_digits)
  with True show ?thesis
    by (simp add: parse_integer_def to_string_def is_space_def)
next
  case False
  obtain c cs where c: "digits (nat i) = c # cs" "is_digit c" by (rule digits_Cons)
  have "takeWhile is_digit (digits (nat i) @ rest) = digits (nat i)"
    using assms by (rule takeWhile_digits)
  with False c show ?thesis
    using digits_value_digits[of "nat i"]
    by (simp add: parse_integer_def to_string_def is_digit_facts)
qed

lemma stol_to_string: "\<bar>i\<bar> \<le> LONG_MAX \<Longrightarrow> stol (to_string i) = Ret i"
  using parse_integer_to_string[of "[]" i] by (auto simp: stol_def)

lemma stoi_to_string: "\<bar>i\<bar> < 2 ^ 31 \<Longrightarrow> stoi (to_string i) = Ret i"
  using parse_integer_to_string[of "[]" i] by (auto simp: stoi_def)

lemma to_string_inject [simp]: "to_string i = to_string j \<longleftrightarrow> i = j"
proof
  assume "to_string i = to_string j"
  then have "parse_integer (to_string i @ []) = parse_integer (to_string j @ [])" by simp
  then show "i = j" using parse_integer_to_string[of "[]"] by (metis option.inject)
qed simp

lemma set_to_string: "c \<in> set (to_string i) \<Longrightarrow> is_digit c \<or> c = CHR ''-''"
  by (auto simp: to_string_def dest: digits_are_digits split: if_splits)

lemma to_string_no_sep [simp]:
  "CHR ''#'' \<notin> set (to_string i)" "CHR ''@'' \<notin> set (to_string i)" "CHR '','' \<notin> set (to_string i)"
  "CHR '':'' \<notin> set (to_string i)"
  by (auto dest!: set_to_string dest: is_digit_facts)

lemma to_string_not_Nil [simp]: "to_string i \<noteq> []"
  by (simp add: to_string_def)

section \<open>Composite keys are unambiguous\<close>

lemma append_sep_inject:
  assumes "a @ s # b = a' @ s # b'" "s \<notin> set b" "s \<notin> set b'"
  shows "a = a' \<and> b = b'"
  using assms by (auto simp: append_eq_append_conv2 append_eq_Cons_conv Cons_eq_append_conv)

lemma append_sep_inject_first:
  assumes "a @ s # b = a' @ s # b'" "s \<notin> set a" "s \<notin> set a'"
  shows "a = a' \<and> b = b'"
  using assms by (auto simp: append_eq_append_conv2 append_eq_Cons_conv Cons_eq_append_conv)

definition entry_str :: "long \<times> long \<Rightarrow> string" where
  "entry_str p = to_string (fst p) @ ''@'' @ to_string (snd p)"

lemma entry_str_inject [simp]: "entry_str p = entry_str q \<longleftrightarrow> p = q"
  using append_sep_inject[of "to_string (fst p)" "CHR ''@''" "to_string (snd p)"
      "to_string (fst q)" "to_string (snd q)"]
  by (auto simp: entry_str_def prod_eq_iff)

lemma entry_str_no_sep [simp]: "CHR '','' \<notin> set (entry_str p)" "CHR ''#'' \<notin> set (entry_str p)"
  by (simp_all add: entry_str_def)

lemma vv2str_loop_concat:
  "vv2str_loop xs s = s @ concat (map (\<lambda>p. entry_str p @ '','') xs)"
  by (induction xs s rule: vv2str_loop.induct) (simp_all add: entry_str_def)

lemma concat_entries_inject:
  "concat (map (\<lambda>p. entry_str p @ '','') xs) = concat (map (\<lambda>p. entry_str p @ '','') ys) \<Longrightarrow> xs = ys"
proof (induction xs arbitrary: ys)
  case (Cons x xs)
  then obtain y ys' where ys: "ys = y # ys'" by (cases ys) auto
  with Cons.prems have "entry_str x @ CHR '','' # concat (map (\<lambda>p. entry_str p @ '','') xs) =
      entry_str y @ CHR '','' # concat (map (\<lambda>p. entry_str p @ '','') ys')" by simp
  then have "entry_str x = entry_str y \<and> concat (map (\<lambda>p. entry_str p @ '','') xs) =
      concat (map (\<lambda>p. entry_str p @ '','') ys')"
    by (rule append_sep_inject_first) simp_all
  then show ?case using Cons.IH ys by simp
next
  case Nil
  then show ?case by (cases ys) auto
qed

lemma concat_entries_snoc:
  "xs \<noteq> [] \<Longrightarrow> \<exists>s. concat (map (\<lambda>p. entry_str p @ '','') xs) = s @ '',''"
  by (cases xs rule: rev_cases) auto

lemma vv2str_inject: "vv2str a = vv2str b \<Longrightarrow> a = b"
proof -
  let ?c = "\<lambda>m. concat (map (\<lambda>p. entry_str p @ '','') (entries m))"
  assume eq: "vv2str a = vv2str b"
  have v: "vv2str m = butlast (?c m)" for m :: "(long, long) smap"
    by (cases "entries m") (simp_all add: vv2str_def vv2str_loop_concat Let_def)
  have nil: "butlast (?c m) = [] \<Longrightarrow> entries m = []" for m :: "(long, long) smap"
    by (cases "entries m") (auto simp: butlast_append entry_str_def split: if_splits)
  have "?c a = ?c b"
  proof (cases "entries a = [] \<or> entries b = []")
    case True
    then show ?thesis using eq nil[of a] nil[of b] by (auto simp: v)
  next
    case False
    then show ?thesis
      using eq concat_entries_snoc[of "entries a"] concat_entries_snoc[of "entries b"]
      by (auto simp: v)
  qed
  then have "entries a = entries b" by (rule concat_entries_inject)
  then show "a = b" by (simp add: entries_inject)
qed

lemma vv2str_no_sep [simp]: "CHR ''#'' \<notin> set (vv2str m)"
  by (auto simp: vv2str_def vv2str_loop_concat Let_def dest: in_set_butlastD split: if_splits)

lemma compose_key_inject:
  "compose_key_toString k v = compose_key_toString k' v' \<longleftrightarrow> k = k' \<and> v = v'"
proof
  assume "compose_key_toString k v = compose_key_toString k' v'"
  then have "(k @ ''#'' @ vv2str (vv v)) @ CHR ''#'' # to_string (client_id v) =
      (k' @ ''#'' @ vv2str (vv v')) @ CHR ''#'' # to_string (client_id v')"
    by (simp add: compose_key_toString_def Let_def)
  then have "k @ ''#'' @ vv2str (vv v) = k' @ ''#'' @ vv2str (vv v') \<and>
      to_string (client_id v) = to_string (client_id v')"
    by (rule append_sep_inject) simp_all
  then have 1: "k @ CHR ''#'' # vv2str (vv v) = k' @ CHR ''#'' # vv2str (vv v')"
    and 2: "client_id v = client_id v'" by simp_all
  from 1 have "k = k' \<and> vv2str (vv v) = vv2str (vv v')"
    by (rule append_sep_inject) simp_all
  with 2 show "k = k' \<and> v = v'" by (auto dest: vv2str_inject)
qed simp

lemma blk_path_inject [simp]: "blk_path a i = blk_path b j \<longleftrightarrow> a = b \<and> i = j"
  using append_sep_inject[of a "CHR '':''" "to_string (int i)" b "to_string (int j)"]
  by (auto simp: blk_path_def)

section \<open>Base path and block number of a block key\<close>

definition plain :: "string \<Rightarrow> bool" where
  "plain s \<longleftrightarrow> list_all (\<lambda>c. of_char c \<notin> {0, 10, 11, 12, 13 :: nat}) s"

text \<open>What the code relies on of the two patterns: on a subject without NUL or line-break bytes, the
  first captures what precedes the last colon and the second what follows it, when that is not empty.\<close>

definition regex_ok :: "regex \<Rightarrow> bool" where
  "regex_ok rx \<longleftrightarrow>
     (\<forall>b n. plain b \<and> plain n \<and> n \<noteq> [] \<and> CHR '':'' \<notin> set n \<longrightarrow>
        rx base_path_pattern (b @ '':'' @ n) = Some [b @ '':'' @ n, b] \<and>
        rx blk_num_pattern (b @ '':'' @ n) = Some ['':'' @ n, n])"

lemma plain_append [simp]: "plain (a @ b) \<longleftrightarrow> plain a \<and> plain b"
  by (simp add: plain_def)

lemma plain_Cons [simp]: "plain (c # s) \<longleftrightarrow> of_char c \<notin> {0, 10, 11, 12, 13 :: nat} \<and> plain s"
  by (simp add: plain_def)

lemma plain_Nil [simp]: "plain []"
  by (simp add: plain_def)

lemma plain_to_string [simp]: "plain (to_string i)"
  by (auto simp: plain_def list_all_iff is_digit_def dest!: set_to_string)

lemma c_str_plain [simp]: "plain s \<Longrightarrow> c_str s = s"
  unfolding c_str_def plain_def by (rule takeWhile_eq_all_conv[THEN iffD2]) (auto simp: list_all_iff)

lemma blk_key_parts:
  assumes "regex_ok rx" "plain base"
  shows "get_base_path rx (blk_path base i) b0 = (0, base)"
    "get_blk_num rx (blk_path base i) n0 = (0, to_string (int i))"
proof -
  have c: "c_str (blk_path base i) = base @ '':'' @ to_string (int i)"
    using assms(2) unfolding blk_path_def by (intro c_str_plain) simp
  show "get_base_path rx (blk_path base i) b0 = (0, base)"
    "get_blk_num rx (blk_path base i) n0 = (0, to_string (int i))"
    using assms unfolding get_base_path_def get_blk_num_def c regex_ok_def
    by (simp_all add: group1_def)
qed

section \<open>Splitting into blocks\<close>

lemma NR_BLKS_bounds:
  assumes "0 < n"
  shows "(NR_BLKS n - 1) * BLK_SIZE < n \<and> n \<le> NR_BLKS n * BLK_SIZE"
proof -
  have n: "n = n div 4096 * 4096 + n mod 4096" by (rule div_mult_mod_eq[symmetric])
  have m: "n mod 4096 < 4096" by simp
  show ?thesis
  proof (cases "n mod 4096 > 0")
    case True
    then have "n div 4096 * 4096 < n" "n \<le> 4096 + n div 4096 * 4096"
      using n m by linarith+
    with True show ?thesis by (simp add: NR_BLKS_def BLK_SIZE_def)
  next
    case False
    then have e: "n = n div 4096 * 4096" using n by linarith
    with assms have "(n div 4096 - 1) * 4096 < n" by linarith
    with e False show ?thesis by (simp add: NR_BLKS_def BLK_SIZE_def)
  qed
qed

lemma NR_BLKS_0 [simp]: "NR_BLKS 0 = 0"
  by (simp add: NR_BLKS_def)

lemma block_pos:
  assumes "1 \<le> i" "i \<le> 2 ^ 31"
  shows "unat ((word_of_int (int i - 1) :: 64 word) * of_nat BLK_SIZE) = (i - 1) * BLK_SIZE"
proof -
  have "(word_of_int (int i - 1) :: 64 word) * of_nat BLK_SIZE = of_nat ((i - 1) * BLK_SIZE)"
    using assms(1) by (simp add: of_nat_diff)
  moreover have "(i - 1) * BLK_SIZE < 2 ^ 64"
    using assms by (simp add: BLK_SIZE_def)
  ultimately show ?thesis by (simp only: unat_of_nat) simp
qed

lemma split_data_block:
  assumes "length d < 2 ^ 43" "1 \<le> i" "i \<le> NR_BLKS (length d)"
  shows "split_data (Some d) (int i) = Ret (Some (take BLK_SIZE (drop ((i - 1) * BLK_SIZE) d)))"
proof -
  let ?n = "NR_BLKS (length d)"
  have len: "0 < length d" using assms(2,3) by (cases d) auto
  note b = NR_BLKS_bounds[OF len]
  have n31: "?n \<le> 2 ^ 31"
    using conjunct1[OF b] assms(1) by (simp add: BLK_SIZE_def)
  have pos: "unat ((word_of_int (int i - 1) :: 64 word) * of_nat BLK_SIZE) = (i - 1) * BLK_SIZE"
    using assms n31 by (intro block_pos) auto
  have le: "(i - 1) * BLK_SIZE \<le> length d"
    using b assms(3) by (meson diff_le_mono less_imp_le mult_le_mono1 order_trans)
  have eq: "(word_of_int (int i) :: 64 word) = of_nat ?n \<longleftrightarrow> i = ?n"
    using n31 assms(3) by (simp add: word_of_nat_eq_iff take_bit_nat_eq_self)
  show ?thesis
  proof (cases "i = ?n")
    case True
    then have "length (drop ((i - 1) * BLK_SIZE) d) \<le> BLK_SIZE"
      using b by (cases "NR_BLKS (length d)") (auto simp: BLK_SIZE_def)
    with True le show ?thesis
      unfolding split_data_def option.case pos Let_def eq
      by (simp add: substr_from_def)
  next
    case False
    with le show ?thesis
      unfolding split_data_def option.case pos Let_def eq
      by (simp add: substr_from_def substr_def)
  qed
qed

lemma concat_blocks:
  "length d \<le> n * BLK_SIZE \<Longrightarrow>
     concat (map (\<lambda>i. take BLK_SIZE (drop (i * BLK_SIZE) d)) [0..<n]) = d"
proof (induction n arbitrary: d)
  case (Suc n)
  have "[0..<Suc n] = 0 # map Suc [0..<n]" by (simp add: upt_conv_Cons map_Suc_upt)
  moreover have "concat (map (\<lambda>i. take BLK_SIZE (drop (i * BLK_SIZE) (drop BLK_SIZE d))) [0..<n]) =
      drop BLK_SIZE d"
    using Suc.prems by (intro Suc.IH) auto
  ultimately show ?case by (simp add: comp_def add.commute)
qed simp

section \<open>Properties\<close>

text \<open>
  Metadata sent block by block is put together unchanged: for any object of at most \<^verbatim>\<open>INT_MAX\<close> blocks,
  \<^verbatim>\<open>split_data\<close> returns a block for every block number from 1 to the number of blocks, none longer than
  \<^verbatim>\<open>BLK_SIZE\<close>, and their concatenation in order is the object.
\<close>

theorem split_data_roundtrip:
  assumes "length d < 2 ^ 43"
  shows "\<exists>bs. map (\<lambda>i. split_data (Some d) (int i)) [1..<NR_BLKS (length d) + 1] = map (Ret \<circ> Some) bs \<and>
           concat bs = d \<and> (\<forall>b\<in>set bs. length b \<le> BLK_SIZE)"
proof (intro exI conjI)
  let ?n = "NR_BLKS (length d)"
  let ?bs = "map (\<lambda>i. take BLK_SIZE (drop (i * BLK_SIZE) d)) [0..<?n]"
  have "[1..<?n + 1] = map Suc [0..<?n]" by (simp add: map_Suc_upt del: upt_Suc)
  then have "map (\<lambda>i. split_data (Some d) (int i)) [1..<?n + 1] =
      map (\<lambda>i. split_data (Some d) (int (Suc i))) [0..<?n]"
    by (simp only: map_map comp_def)
  also have "\<dots> = map (Ret \<circ> Some) ?bs"
    using split_data_block[OF assms, of "Suc _"] by (auto simp: comp_def)
  finally show "map (\<lambda>i. split_data (Some d) (int i)) [1..<?n + 1] = map (Ret \<circ> Some) ?bs" .
  show "concat ?bs = d"
    using NR_BLKS_bounds[of "length d"] by (intro concat_blocks) (cases d; simp)
qed auto

theorem split_data_roundtrip_witness:
  "NR_BLKS 5000 = 2 \<and>
   (\<exists>bs. map (\<lambda>i. split_data (Some (replicate 5000 CHR ''x'')) (int i)) [1..<NR_BLKS 5000 + 1] =
           map (Ret \<circ> Some) bs \<and>
         concat bs = replicate 5000 CHR ''x'' \<and> (\<forall>b\<in>set bs. length b \<le> BLK_SIZE))"
proof
  show "NR_BLKS 5000 = 2" by (simp add: NR_BLKS_def BLK_SIZE_def)
  have len: "length (replicate 5000 CHR ''x'') = 5000" by (rule length_replicate)
  show "\<exists>bs. map (\<lambda>i. split_data (Some (replicate 5000 CHR ''x'')) (int i)) [1..<NR_BLKS 5000 + 1] =
           map (Ret \<circ> Some) bs \<and>
         concat bs = replicate 5000 CHR ''x'' \<and> (\<forall>b\<in>set bs. length b \<le> BLK_SIZE)"
    by (rule split_data_roundtrip[of "replicate 5000 CHR ''x''", unfolded len]) simp
qed

text \<open>
  The textual key under which anti-entropy stores the parts of an object determines the object's key
  and its full version, so parts of different objects or versions never share an entry.
\<close>

theorem compose_key_unambiguous:
  "blk_path (compose_key_toString k v) i = blk_path (compose_key_toString k' v') i' \<longleftrightarrow>
     k = k' \<and> v = v' \<and> i = i'"
  by (auto simp: compose_key_inject)

text \<open>
  The block number a client writes into a block key is the one the peer reads back: splitting the key
  gives the base path and the decimal text, and \<^verbatim>\<open>stoi\<close> of that text is the number.
\<close>

theorem blk_key_roundtrip:
  assumes "regex_ok rx" "plain base" "i < 2 ^ 31"
  shows "get_base_path rx (blk_path base i) [] = (0, base) \<and>
     stoi (snd (get_blk_num rx (blk_path base i) [])) = Ret (int i)"
  using blk_key_parts[OF assms(1,2)] assms(3) by (simp add: stoi_to_string)

end
