(* ===== verification/Client.thy ===== *)
theory Client
  imports Reply_Handler Peer_View Text_Util
begin

text \<open>
  The client library: \<^verbatim>\<open>df_client/client.cpp\<close> and \<^verbatim>\<open>df_client/clock_vv.h\<close>.

  Every operation gives the request a version or a request id, registers it with the reply handler, and repeats: ask the load
  balancer for peers, send them the request, wait for the replies. What the operation cannot control is an argument: an \<open>io\<close> has the
  answer of the load balancer, the outcome of each \<^verbatim>\<open>sendto\<close>, the replies handled before and during the wait, and whether the
  wait times out. An operation on a single key takes a list of them, one for each turn of its loop; the result \<open>None\<close>
  says that the loop is still running when the list is used up. A batch takes one \<open>io\<close> for each element and pass. The
  datagrams that were sent are part of the result.
\<close>

section \<open>State\<close>

datatype lb_call = N_peers string int | N_random_peers int

record io =
  io_lb :: "lb_call \<Rightarrow> peer_data list res"
  io_sent :: "nat \<Rightarrow> bool"
  io_before :: "kv_body list"
  io_during :: "kv_body list"
  io_timeout :: bool
  io_ord :: "key_map \<Rightarrow> key_map"

record client =
  cl_ip :: string
  cl_kv_port :: int
  cl_id :: long
  request_count :: long
  max_nodes_to_send_get_request :: int
  max_nodes_to_send_put_request :: int
  max_timeouts :: int
  clock :: long
  handler :: reply_handler

text \<open>Increment of a \<^verbatim>\<open>std::atomic<long>\<close>, which wraps around.\<close>

definition increment :: "long \<Rightarrow> long" where
  "increment n = (if n = LONG_MAX then - LONG_MAX - 1 else n + 1)"

text \<open>\<open>inc_and_get_request_count\<close> returns the count before it is incremented.\<close>

definition inc_and_get_request_count :: "client \<Rightarrow> long \<times> client" where
  "inc_and_get_request_count c = (request_count c, c\<lparr>request_count := increment (request_count c)\<rparr>)"

definition req_id_str :: "client \<Rightarrow> long \<Rightarrow> string" where
  "req_id_str c req_id = to_string (cl_id c) @ '':'' @ cl_ip c @ '':'' @ to_string req_id"

definition new_req_id :: "client \<Rightarrow> string \<times> client" where
  "new_req_id c = (case inc_and_get_request_count c of (n, c') \<Rightarrow> (req_id_str c n, c'))"

definition receive_replies :: "io \<Rightarrow> client \<Rightarrow> client" where
  "receive_replies x c = c\<lparr>handler := fold process_reply (io_before x) (handler c)\<rparr>"

section \<open>Sending\<close>

type_synonym datagram = "peer_data \<times> kv_message"

fun send_msg :: "peer_data \<Rightarrow> kv_body \<Rightarrow> bool \<Rightarrow> nat \<times> datagram list" where
  "send_msg target_peer b True = (0, [(target_peer, \<lparr>forwarded_within_group = False, body = b\<rparr>)])"
| "send_msg target_peer b False = (1, [])"

fun send_each :: "kv_body \<Rightarrow> (nat \<Rightarrow> bool) \<Rightarrow> nat \<Rightarrow> peer_data list \<Rightarrow> nat \<times> datagram list" where
  "send_each b sent i [] = (0, [])"
| "send_each b sent i (peer # peers) =
     (case send_msg peer b (sent i) of (n, ds) \<Rightarrow>
        (case send_each b sent (i + 1) peers of (m, ds') \<Rightarrow> (n + m, ds @ ds')))"

definition send_all :: "kv_body \<Rightarrow> io \<Rightarrow> peer_data list \<Rightarrow> nat \<times> datagram list" where
  "send_all b x peers =
     (case send_each b (io_sent x) 0 peers of (nr_send_errors, ds) \<Rightarrow>
        (if nr_send_errors \<ge> length peers then 1 else 0, ds))"

definition send_get :: "client \<Rightarrow> string \<Rightarrow> kv_store_version \<Rightarrow> bool \<Rightarrow> string \<Rightarrow> io \<Rightarrow> peer_data list \<Rightarrow> nat \<times> datagram list" where
  "send_get c k v no_data req_id = send_all (build_get_message (cl_ip c) (cl_kv_port c) (cl_id c) req_id k v no_data)"

definition send_get_latest_version :: "client \<Rightarrow> string \<Rightarrow> bool \<Rightarrow> string \<Rightarrow> io \<Rightarrow> peer_data list \<Rightarrow> nat \<times> datagram list" where
  "send_get_latest_version c k with_data req_id =
     send_all (build_get_latest_version_message (cl_ip c) (cl_kv_port c) (cl_id c) req_id k with_data)"

definition send_put ::
  "client \<Rightarrow> string \<Rightarrow> kv_store_version \<Rightarrow> FileType \<Rightarrow> bytes \<Rightarrow> bool \<Rightarrow> io \<Rightarrow> peer_data list \<Rightarrow> nat \<times> datagram list" where
  "send_put c k v t data extra_reply =
     send_all (build_put_message (cl_ip c) (cl_kv_port c) (cl_id c) k v t data extra_reply)"

definition send_delete ::
  "client \<Rightarrow> string \<Rightarrow> kv_store_version \<Rightarrow> FileType \<Rightarrow> bool \<Rightarrow> io \<Rightarrow> peer_data list \<Rightarrow> nat \<times> datagram list" where
  "send_delete c k v t extra_reply =
     send_all (build_delete_message (cl_ip c) (cl_kv_port c) (cl_id c) k v t extra_reply)"

definition send_put_child ::
  "client \<Rightarrow> string \<Rightarrow> kv_store_version \<Rightarrow> string \<Rightarrow> bool \<Rightarrow> bool \<Rightarrow> bool \<Rightarrow> io \<Rightarrow> peer_data list \<Rightarrow> nat \<times> datagram list" where
  "send_put_child c k v child_path is_create is_dir extra_reply =
     send_all (build_put_child_message (cl_ip c) (cl_kv_port c) (cl_id c) k v child_path is_create is_dir extra_reply)"

definition send_get_latest_metadata_stat :: "client \<Rightarrow> string \<Rightarrow> string \<Rightarrow> io \<Rightarrow> peer_data list \<Rightarrow> nat \<times> datagram list" where
  "send_get_latest_metadata_stat c k req_id =
     send_all (build_get_latest_metadata_stat_message (cl_ip c) (cl_kv_port c) (cl_id c) req_id k)"

definition send_get_latest_metadata_size :: "client \<Rightarrow> string \<Rightarrow> string \<Rightarrow> io \<Rightarrow> peer_data list \<Rightarrow> nat \<times> datagram list" where
  "send_get_latest_metadata_size c k req_id =
     send_all (build_get_latest_metadata_size_message (cl_ip c) (cl_kv_port c) (cl_id c) req_id k)"

definition send_get_metadata :: "client \<Rightarrow> string \<Rightarrow> kv_store_version \<Rightarrow> string \<Rightarrow> io \<Rightarrow> peer_data list \<Rightarrow> nat \<times> datagram list" where
  "send_get_metadata c k v req_id = send_all (build_get_metadata_message (cl_ip c) (cl_kv_port c) (cl_id c) req_id k v)"

text \<open>The first two rounds ask for peers that should hold the key, the later ones for any peers.\<close>

definition choose_peers :: "string \<Rightarrow> int \<Rightarrow> int \<Rightarrow> io \<Rightarrow> peer_data list res" where
  "choose_peers k n curr_timeouts x = io_lb x (if curr_timeouts + 1 \<le> 2 then N_peers k n else N_random_peers n)"

section \<open>Writes\<close>

text \<open>The loop that \<^verbatim>\<open>put\<close>, \<^verbatim>\<open>del\<close> and \<^verbatim>\<open>put_child\<close> have in common: \<open>send\<close> takes the flag \<^verbatim>\<open>extra_reply\<close>.\<close>

type_synonym 'a outcome = "'a res option \<times> client \<times> datagram list"

definition after_sending :: "datagram list \<Rightarrow> 'a outcome \<Rightarrow> 'a outcome" where
  "after_sending ds = (\<lambda>(r, c, ds'). (r, c, ds @ ds'))"

fun write_loop ::
  "(bool \<Rightarrow> io \<Rightarrow> peer_data list \<Rightarrow> nat \<times> datagram list) \<Rightarrow> (io \<Rightarrow> reply_handler \<Rightarrow> bool res \<times> reply_handler) \<Rightarrow> string \<Rightarrow>
     io list \<Rightarrow> int \<Rightarrow> client \<Rightarrow> unit outcome" where
  "write_loop send wait k [] curr_timeouts c =
     (if curr_timeouts < max_timeouts c then None else Some (Throw TimeoutException), c, [])"
| "write_loop send wait k (x # xs) curr_timeouts c0 =
     (if curr_timeouts < max_timeouts c0 then
        (let c = receive_replies x c0 in
         case choose_peers k (max_nodes_to_send_put_request c) curr_timeouts x of
           Throw e \<Rightarrow> (Some (Throw e), c, [])
         | Hang \<Rightarrow> (Some Hang, c, [])
         | Ret peers \<Rightarrow>
             (case send (curr_timeouts > 0) x peers of (status, ds) \<Rightarrow>
                if status = 0 then
                  (case wait x (handler c) of
                     (Ret succeed, h) \<Rightarrow>
                       if succeed then (Some (Ret ()), c\<lparr>handler := h\<rparr>, ds)
                       else after_sending ds (write_loop send wait k xs curr_timeouts (c\<lparr>handler := h\<rparr>))
                   | (Throw e, h) \<Rightarrow>
                       if e = TimeoutException
                       then after_sending ds (write_loop send wait k xs (curr_timeouts + 1) (c\<lparr>handler := h\<rparr>))
                       else (Some (Throw e), c\<lparr>handler := h\<rparr>, ds)
                   | (Hang, h) \<Rightarrow> (Some Hang, c\<lparr>handler := h\<rparr>, ds))
                else after_sending ds (write_loop send wait k xs curr_timeouts c)))
      else (Some (Throw TimeoutException), c0, []))"

definition new_version :: "client \<Rightarrow> kv_store_version \<Rightarrow> kv_store_version" where
  "new_version c v = (add_vv (cl_id c, increment (clock c)) v)\<lparr>client_id := cl_id c\<rparr>"

definition tick :: "client \<Rightarrow> client" where
  "tick c = c\<lparr>clock := increment (clock c)\<rparr>"

definition client_put ::
  "client \<Rightarrow> string \<Rightarrow> kv_store_version \<Rightarrow> FileType \<Rightarrow> bytes \<Rightarrow> nat \<Rightarrow> io list \<Rightarrow> unit outcome" where
  "client_put c k v t data wait_for xs =
     (let nv = new_version c v;
          comp_key = \<lparr>key = k, version = nv, f_type = t, is_deleted = False\<rparr>
      in case register_put comp_key (handler c) of
           (Throw e, h) \<Rightarrow> (Some (Throw e), (tick c)\<lparr>handler := h\<rparr>, [])
         | (Hang, h) \<Rightarrow> (Some Hang, (tick c)\<lparr>handler := h\<rparr>, [])
         | (Ret _, h) \<Rightarrow>
             write_loop (send_put c k nv t data)
               (\<lambda>x. wait_for_put comp_key wait_for (io_during x) (io_timeout x)) k xs 0 ((tick c)\<lparr>handler := h\<rparr>))"

definition client_del :: "client \<Rightarrow> string \<Rightarrow> kv_store_version \<Rightarrow> FileType \<Rightarrow> nat \<Rightarrow> io list \<Rightarrow> unit outcome" where
  "client_del c k v t wait_for xs =
     (let comp_key = \<lparr>key = k, version = v, f_type = t, is_deleted = True\<rparr>
      in case register_delete comp_key (handler c) of
           (Throw e, h) \<Rightarrow> (Some (Throw e), (tick c)\<lparr>handler := h\<rparr>, [])
         | (Hang, h) \<Rightarrow> (Some Hang, (tick c)\<lparr>handler := h\<rparr>, [])
         | (Ret _, h) \<Rightarrow>
             write_loop (send_delete c k v t)
               (\<lambda>x. wait_for_delete comp_key wait_for (io_during x) (io_timeout x)) k xs 0 ((tick c)\<lparr>handler := h\<rparr>))"

definition client_put_child ::
  "client \<Rightarrow> string \<Rightarrow> kv_store_version \<Rightarrow> string \<Rightarrow> bool \<Rightarrow> bool \<Rightarrow> nat \<Rightarrow> io list \<Rightarrow> unit outcome" where
  "client_put_child c k v child_path is_create is_dir wait_for xs =
     (let nv = new_version c v;
          comp_key = \<lparr>key = k, version = nv, f_type = DIRECTORY, is_deleted = False\<rparr>
      in case register_put comp_key (handler c) of
           (Throw e, h) \<Rightarrow> (Some (Throw e), (tick c)\<lparr>handler := h\<rparr>, [])
         | (Hang, h) \<Rightarrow> (Some Hang, (tick c)\<lparr>handler := h\<rparr>, [])
         | (Ret _, h) \<Rightarrow>
             write_loop (send_put_child c k nv child_path is_create is_dir)
               (\<lambda>x. wait_for_put comp_key wait_for (io_during x) (io_timeout x)) k xs 0 ((tick c)\<lparr>handler := h\<rparr>))"

section \<open>Reads\<close>

text \<open>The local variables of a read loop: \<open>rd_last\<close> is \<^verbatim>\<open>*last_version\<close> where the operation has it.\<close>

record ('a, 's) reading =
  rd_timeouts :: int
  rd_req_id :: string
  rd_response :: Response
  rd_last :: 's
  rd_res :: "'a option"

type_synonym ('a, 's) read_outcome = "'a option res option \<times> Response \<times> 's \<times> client \<times> datagram list"

definition after_sending_read :: "datagram list \<Rightarrow> ('a, 's) read_outcome \<Rightarrow> ('a, 's) read_outcome" where
  "after_sending_read ds = (\<lambda>(r, g, l, c, ds'). (r, g, l, c, ds @ ds'))"

text \<open>After a timeout the request gets a new id.\<close>

definition retry_read :: "('a, 's) reading \<Rightarrow> client \<Rightarrow> ('a, 's) reading \<times> client" where
  "retry_read s c =
     (case new_req_id c of (r, c') \<Rightarrow>
        (s\<lparr>rd_timeouts := rd_timeouts s + 1, rd_req_id := r\<rparr>,
         c'\<lparr>handler := change_get_reqid (rd_req_id s) r (handler c')\<rparr>))"

fun read_loop ::
  "(string \<Rightarrow> io \<Rightarrow> peer_data list \<Rightarrow> nat \<times> datagram list) \<Rightarrow>
   (string \<Rightarrow> io \<Rightarrow> Response \<Rightarrow> 's \<Rightarrow> reply_handler \<Rightarrow> 'a option res \<times> Response \<times> 's \<times> reply_handler) \<Rightarrow> string \<Rightarrow>
   io list \<Rightarrow> ('a, 's) reading \<Rightarrow> client \<Rightarrow> ('a, 's) read_outcome" where
  "read_loop send wait k [] s c =
     (if rd_response s = Init \<and> rd_timeouts s < max_timeouts c then None
      else Some (if rd_timeouts s \<ge> max_timeouts c then Throw TimeoutException else Ret (rd_res s)),
      rd_response s, rd_last s, c, [])"
| "read_loop send wait k (x # xs) s c0 =
     (if rd_response s = Init \<and> rd_timeouts s < max_timeouts c0 then
        (let c = receive_replies x c0 in
         case choose_peers k (max_nodes_to_send_get_request c) (rd_timeouts s) x of
           Throw e \<Rightarrow> (Some (Throw e), rd_response s, rd_last s, c, [])
         | Hang \<Rightarrow> (Some Hang, rd_response s, rd_last s, c, [])
         | Ret peers \<Rightarrow>
             (case send (rd_req_id s) x peers of (status, ds) \<Rightarrow>
                if status = 0 then
                  (case wait (rd_req_id s) x (rd_response s) (rd_last s) (handler c) of
                     (r, g, l, h) \<Rightarrow>
                       (let s' = s\<lparr>rd_response := g, rd_last := l\<rparr>; c' = c\<lparr>handler := h\<rparr> in
                        case r of
                          Ret d \<Rightarrow> after_sending_read ds (read_loop send wait k xs (s'\<lparr>rd_res := d\<rparr>) c')
                        | Throw e \<Rightarrow>
                            if e = TimeoutException
                            then (case retry_read s' c' of (s'', c'') \<Rightarrow>
                                    after_sending_read ds (read_loop send wait k xs s'' c''))
                            else (Some (Throw e), g, l, c', ds)
                        | Hang \<Rightarrow> (Some Hang, g, l, c', ds)))
                else after_sending_read ds (read_loop send wait k xs s c)))
      else (Some (if rd_timeouts s \<ge> max_timeouts c0 then Throw TimeoutException else Ret (rd_res s)),
            rd_response s, rd_last s, c0, []))"

text \<open>The beginning of the operations that read one key.\<close>

definition start_read ::
  "(string \<Rightarrow> io \<Rightarrow> peer_data list \<Rightarrow> nat \<times> datagram list) \<Rightarrow>
   (string \<Rightarrow> io \<Rightarrow> Response \<Rightarrow> 's \<Rightarrow> reply_handler \<Rightarrow> 'a option res \<times> Response \<times> 's \<times> reply_handler) \<Rightarrow> string \<Rightarrow>
   Response \<Rightarrow> 's \<Rightarrow> io list \<Rightarrow> client \<Rightarrow> ('a, 's) read_outcome" where
  "start_read send wait k response l xs c =
     (case new_req_id c of (r, c') \<Rightarrow>
        read_loop send wait k xs
          \<lparr>rd_timeouts = 0, rd_req_id = r, rd_response = response, rd_last = l, rd_res = None\<rparr>
          (c'\<lparr>handler := register_get r (handler c')\<rparr>))"

definition plain_wait ::
  "(string \<Rightarrow> io \<Rightarrow> Response \<Rightarrow> reply_handler \<Rightarrow> 'a get_result) \<Rightarrow>
   string \<Rightarrow> io \<Rightarrow> Response \<Rightarrow> unit \<Rightarrow> reply_handler \<Rightarrow> 'a res \<times> Response \<times> unit \<times> reply_handler" where
  "plain_wait w r x g _ h = (case w r x g h of (v, g', h') \<Rightarrow> (v, g', (), h'))"

definition client_get ::
  "client \<Rightarrow> string \<Rightarrow> kv_store_version \<Rightarrow> Response \<Rightarrow> nat \<Rightarrow> bool \<Rightarrow> io list \<Rightarrow> (bytes, unit) read_outcome" where
  "client_get c k v response wait_for no_data xs =
     start_read (send_get c k v no_data)
       (plain_wait (\<lambda>r x. wait_for_get (io_ord x) r wait_for (io_during x) (io_timeout x))) k response () xs c"

definition client_get_latest_version ::
  "client \<Rightarrow> string \<Rightarrow> Response \<Rightarrow> nat \<Rightarrow> io list \<Rightarrow> (kv_store_version, unit) read_outcome" where
  "client_get_latest_version c k response wait_for xs =
     start_read (send_get_latest_version c k False)
       (plain_wait (\<lambda>r x. wait_for_get_latest_version (io_ord x) r wait_for (io_during x) (io_timeout x))) k response () xs c"

definition latest_wait ::
  "string \<Rightarrow> nat \<Rightarrow> string \<Rightarrow> io \<Rightarrow> Response \<Rightarrow> kv_store_version \<Rightarrow> reply_handler \<Rightarrow>
     bytes option res \<times> Response \<times> kv_store_version \<times> reply_handler" where
  "latest_wait k wait_for r x = wait_for_get_latest (io_ord x) k r wait_for (io_during x) (io_timeout x)"

text \<open>\<^verbatim>\<open>get_latest\<close> has a fresh \<^verbatim>\<open>last_version\<close> in every round and does not return it.\<close>

definition client_get_latest :: "client \<Rightarrow> string \<Rightarrow> Response \<Rightarrow> nat \<Rightarrow> io list \<Rightarrow> (bytes, unit) read_outcome" where
  "client_get_latest c k response wait_for xs =
     start_read (send_get_latest_version c k True)
       (plain_wait (\<lambda>r x g h. case latest_wait k wait_for r x g default_version h of (v, g', _, h') \<Rightarrow> (v, g', h')))
       k response () xs c"

definition client_get_latest_metadata_stat ::
  "client \<Rightarrow> string \<Rightarrow> Response \<Rightarrow> kv_store_version \<Rightarrow> nat \<Rightarrow> io list \<Rightarrow> (bytes, kv_store_version) read_outcome" where
  "client_get_latest_metadata_stat c k response last_version wait_for xs =
     start_read (send_get_latest_metadata_stat c k) (latest_wait k wait_for) k response last_version xs c"

definition client_get_latest_metadata_size ::
  "client \<Rightarrow> string \<Rightarrow> Response \<Rightarrow> kv_store_version \<Rightarrow> nat \<Rightarrow> io list \<Rightarrow> (bytes, kv_store_version) read_outcome" where
  "client_get_latest_metadata_size c k response last_version wait_for xs =
     start_read (send_get_latest_metadata_size c k) (latest_wait k wait_for) k response last_version xs c"

section \<open>Sending reaches peers\<close>

lemma send_each_all_fail: "\<forall>j. \<not> sent j \<Longrightarrow> send_each b sent i peers = (length peers, [])"
  by (induction peers arbitrary: i) auto

lemma send_each_errors_le: "fst (send_each b sent i peers) \<le> length peers"
proof (induction peers arbitrary: i)
  case (Cons p ps)
  show ?case using Cons[of "i + 1"] by (cases "sent i") (auto split: prod.splits)
qed simp

lemma send_each_some: "j < length peers \<Longrightarrow> sent (i + j) \<Longrightarrow> fst (send_each b sent i peers) < length peers"
proof (induction peers arbitrary: i j)
  case (Cons p ps)
  show ?case
  proof (cases "sent i")
    case True
    then show ?thesis using send_each_errors_le[of b sent "i + 1" ps] by (auto split: prod.splits)
  next
    case False
    then obtain j' where "j = Suc j'" using Cons.prems by (cases j) auto
    with Cons.IH[of j' "i + 1"] Cons.prems False show ?thesis by (auto split: prod.splits)
  qed
qed simp

lemma send_each_datagrams:
  "set (snd (send_each b sent i peers)) \<subseteq> {(p, \<lparr>forwarded_within_group = False, body = b\<rparr>) | p. p \<in> set peers}"
proof (induction peers arbitrary: i)
  case (Cons p ps)
  show ?case using Cons[of "i + 1"] by (cases "sent i") (auto split: prod.splits)
qed simp

lemma send_all_datagrams: "send_all b x peers = (s, ds) \<Longrightarrow> (p, m) \<in> set ds \<Longrightarrow> p \<in> set peers \<and> m = \<lparr>forwarded_within_group = False, body = b\<rparr>"
  using send_each_datagrams[of b "io_sent x" 0 peers] by (auto simp: send_all_def split: prod.splits)

lemma send_all_ok: "j < length peers \<Longrightarrow> io_sent x j \<Longrightarrow> fst (send_all b x peers) = 0"
  using send_each_some[of j peers "io_sent x" 0 b] by (auto simp: send_all_def split: prod.splits)

lemma send_all_fail: "\<forall>j. \<not> io_sent x j \<Longrightarrow> send_all b x peers = (1, [])"
  by (simp add: send_all_def send_each_all_fail)

section \<open>Loops over a registry\<close>

definition received :: "io list \<Rightarrow> kv_body list" where
  "received xs = concat (map (\<lambda>x. io_before x @ io_during x) xs)"

lemma received_simps [simp]: "received [] = []" "received (x # xs) = io_before x @ io_during x @ received xs"
  by (simp_all add: received_def)

text \<open>What the code does with the registry of a write: replies are recorded, and a wait that succeeds forgets the request.\<close>

locale quorum_wait = quorum_registry replies process_reply acks
  for replies :: "reply_handler \<Rightarrow> kv_store_key \<Rightarrow> long set option" and acks +
  fixes erase :: "kv_store_key \<Rightarrow> reply_handler \<Rightarrow> reply_handler"
  assumes replies_erase: "replies (erase k h) k = None"
begin

lemma wait_quorum_cases:
  assumes "replies h k = Some r" "finite r" "wait_quorum replies erase k n during t h = (res, h')"
  obtains "res = Ret True" "n \<le> card (r \<union> peers k during)" "replies h' k = None"
  | r' where "res = Ret False" "\<not> t" "replies h' k = Some r'" "r' = r \<union> peers k during" "card r' < n"
  | r' where "res = Throw TimeoutException" "t" "replies h' k = Some r'" "r' = r \<union> peers k during" "card r' < n"
proof -
  have "card r \<le> card (r \<union> peers k during)" using assms(2) by (intro card_mono) auto
  with assms that show thesis
    by (auto simp: wait_quorum_def Let_def replies_fold replies_erase not_less not_le split: if_splits)
qed

definition put_outcome :: "kv_store_key \<Rightarrow> nat \<Rightarrow> long set \<Rightarrow> io list \<Rightarrow> unit outcome \<Rightarrow> bool" where
  "put_outcome k n r xs = (\<lambda>(res, c', ds).
     if res = Some (Ret ()) then n \<le> card (r \<union> peers k (received xs)) \<and> replies (handler c') k = None
     else \<exists>r'. replies (handler c') k = Some r' \<and> (res = Some (Throw TimeoutException) \<longrightarrow>
       (\<forall>x\<in>set xs. \<forall>q. io_lb x q \<noteq> Throw TimeoutException) \<longrightarrow> card r' < n))"

lemma put_outcome_mono:
  assumes "put_outcome k n r' xs out" "r' \<subseteq> r \<union> peers k (io_before x @ io_during x)" "finite r"
  shows "put_outcome k n r (x # xs) (after_sending ds out)"
proof -
  have "card (r' \<union> peers k (received xs)) \<le> card (r \<union> peers k (received (x # xs)))"
    using assms(2,3) by (intro card_mono) auto
  with assms(1) show ?thesis by (auto simp: put_outcome_def after_sending_def split: prod.splits if_splits)
qed

lemma write_loop_result:
  assumes "replies (handler c) k = Some r" "finite r" "t < max_timeouts c \<or> card r < n"
  shows "put_outcome k n r xs
    (write_loop send (\<lambda>x. wait_quorum replies erase k n (io_during x) (io_timeout x)) key_s xs t c)"
  using assms
proof (induction xs arbitrary: t c r)
  case Nil
  then show ?case by (auto simp: put_outcome_def)
next
  case (Cons x xs)
  let ?c = "receive_replies x c" and ?r = "r \<union> peers k (io_before x)"
  have r: "replies (handler ?c) k = Some ?r" "finite ?r" "max_timeouts ?c = max_timeouts c"
    using Cons.prems(1,2) by (simp_all add: receive_replies_def replies_fold)
  show ?case
  proof (cases "t < max_timeouts c")
    case True
    note t = True
    show ?thesis
    proof (cases "choose_peers key_s (max_nodes_to_send_put_request ?c) t x")
      case (Ret ps)
      obtain status ds where s: "send (0 < t) x ps = (status, ds)" by fastforce
      show ?thesis
      proof (cases "status = 0")
        case False
        then show ?thesis using put_outcome_mono[OF Cons.IH[OF r(1,2), of t], of r x ds] Cons.prems(2) t Ret s r(3)
          by (simp add: le_supI1 le_supI2)
      next
        case True
        obtain res h where w: "wait_quorum replies erase k n (io_during x) (io_timeout x) (handler ?c) = (res, h)" by fastforce
        note step = t Ret s True w r(3)
        from r(1,2) w show ?thesis
        proof (cases rule: wait_quorum_cases)
          case 1
          have "card (?r \<union> peers k (io_during x)) \<le> card (r \<union> peers k (received (x # xs)))"
            using Cons.prems(2) by (intro card_mono) auto
          with 1 step show ?thesis by (auto simp: put_outcome_def)
        next
          case (2 r')
          then show ?thesis using put_outcome_mono[OF Cons.IH[of "?c\<lparr>handler := h\<rparr>" r' t], of r x ds] Cons.prems(2) r(2) step
            by (simp add: Un_assoc)
        next
          case (3 r')
          then show ?thesis using put_outcome_mono[OF Cons.IH[of "?c\<lparr>handler := h\<rparr>" r' "t + 1"], of r x ds] Cons.prems(2) r(2) step
            by (simp add: Un_assoc)
        qed
      qed
    qed (use r t in \<open>auto simp: put_outcome_def choose_peers_def\<close>)
  next
    case False
    then show ?thesis using Cons.prems by (auto simp: put_outcome_def)
  qed
qed

end

interpretation puts: quorum_wait put_replies put_ack erase_put
  by unfold_locales (simp add: erase_put_def)

interpretation deletes: quorum_wait delete_replies delete_ack erase_delete
  by unfold_locales (simp add: erase_delete_def)

text \<open>One turn of the loop: it ends with the client \<open>c1\<close>, or goes on from there.\<close>

lemma write_loop_turn:
  fixes send wait k x xs t c
  defines "out \<equiv> write_loop send wait k (x # xs) t c" and "c0 \<equiv> receive_replies x c"
  obtains res c1 b ps ds t' where
    "out = (res, c1, ds) \<or> out = after_sending ds (write_loop send wait k xs t' c1)"
    "ds = [] \<or> ds = snd (send b x ps)"
    "c1 \<in> {c, c0, c0\<lparr>handler := snd (wait x (handler c0))\<rparr>}"
proof (cases "t < max_timeouts c")
  case True
  obtain r h where w: "wait x (handler c0) = (r, h)" by fastforce
  show thesis
  proof (cases "choose_peers k (max_nodes_to_send_put_request c0) t x")
    case (Ret ps)
    obtain status ds where s: "send (0 < t) x ps = (status, ds)" by fastforce
    then have ds: "ds = [] \<or> ds = snd (send (0 < t) x ps)" by simp
    note out = out_def[unfolded write_loop.simps Let_def, folded c0_def]
    show thesis
    proof (cases "status = 0")
      case True
      have out': "out = (case wait x (handler c0) of
            (Ret succeed, h) \<Rightarrow>
              if succeed then (Some (Ret ()), c0\<lparr>handler := h\<rparr>, ds)
              else after_sending ds (write_loop send wait k xs t (c0\<lparr>handler := h\<rparr>))
          | (Throw e, h) \<Rightarrow>
              if e = TimeoutException then after_sending ds (write_loop send wait k xs (t + 1) (c0\<lparr>handler := h\<rparr>))
              else (Some (Throw e), c0\<lparr>handler := h\<rparr>, ds)
          | (Hang, h) \<Rightarrow> (Some Hang, c0\<lparr>handler := h\<rparr>, ds))"
        unfolding out using True \<open>t < max_timeouts c\<close> Ret s by simp
      have c1: "c0\<lparr>handler := h\<rparr> \<in> {c, c0, c0\<lparr>handler := snd (wait x (handler c0))\<rparr>}" using w by simp
      show thesis
      proof (cases r)
        case (Ret b)
        then show thesis
          using that[OF disjI1 ds c1, of "Some (Ret ())"] that[OF disjI2 ds c1, of t] w by (cases b) (simp_all add: out')
      next
        case (Throw e)
        then show thesis
          using that[OF disjI1 ds c1, of "Some (Throw e)"] that[OF disjI2 ds c1, of "t + 1"] w
          by (cases "e = TimeoutException") (simp_all add: out')
      next
        case Hang
        then show thesis using that[OF disjI1 ds c1, of "Some Hang"] w by (simp add: out')
      qed
    next
      case False
      then have "out = after_sending ds (write_loop send wait k xs t c0)"
        unfolding out using \<open>t < max_timeouts c\<close> Ret s by simp
      then show thesis using that[OF disjI2 ds] by simp
    qed
  next
    case (Throw e)
    then have "out = (Some (Throw e), c0, [])" using True by (simp add: out_def c0_def Let_def)
    from that[OF disjI1[OF this]] show thesis by simp
  next
    case Hang
    then have "out = (Some Hang, c0, [])" using True by (simp add: out_def c0_def Let_def)
    from that[OF disjI1[OF this]] show thesis by simp
  qed
next
  case False
  then have "out = (Some (Throw TimeoutException), c, [])" by (simp add: out_def)
  from that[OF disjI1[OF this]] show thesis by simp
qed

lemma write_loop_inv:
  assumes "I c" "\<And>x c. I c \<Longrightarrow> I (receive_replies x c)" "\<And>x c. I c \<Longrightarrow> I (c\<lparr>handler := snd (wait x (handler c))\<rparr>)"
    and "\<And>b x ps d. d \<in> set (snd (send b x ps)) \<Longrightarrow> D d"
  shows "case write_loop send wait k xs t c of (res, c', ds) \<Rightarrow> I c' \<and> (\<forall>d\<in>set ds. D d)"
  using assms(1)
proof (induction xs arbitrary: t c)
  case (Cons x xs)
  obtain res c1 b ps ds t' where o: "write_loop send wait k (x # xs) t c = (res, c1, ds) \<or>
     write_loop send wait k (x # xs) t c = after_sending ds (write_loop send wait k xs t' c1)"
    "ds = [] \<or> ds = snd (send b x ps)"
    "c1 \<in> {c, receive_replies x c,
       (receive_replies x c)\<lparr>handler := snd (wait x (handler (receive_replies x c)))\<rparr>}"
    by (rule write_loop_turn)
  have "I c1" using o(3) Cons.prems assms(2,3) by auto
  with Cons.IH[of c1 t'] o(1,2) assms(4) show ?case by (auto simp: after_sending_def split: prod.splits)
qed simp

section \<open>Rounds end, unless nothing can be sent\<close>

text \<open>A round that can make progress: the load balancer returns peers and at least one of them can be sent to.\<close>

definition sendable :: "io \<Rightarrow> bool" where
  "sendable x \<longleftrightarrow> (\<forall>q. \<exists>ps. io_lb x q = Ret ps \<and> (\<exists>i<length ps. io_sent x i))"

definition unsendable :: "io \<Rightarrow> bool" where
  "unsendable x \<longleftrightarrow> (\<forall>q. \<exists>ps. io_lb x q = Ret ps) \<and> (\<forall>i. \<not> io_sent x i)"

lemma write_loop_returns:
  assumes "\<forall>x\<in>set xs. sendable x" "max_timeouts c \<le> t + int (length (filter io_timeout xs))"
    and "\<And>b x ps. (\<exists>i<length ps. io_sent x i) \<Longrightarrow> fst (send b x ps) = 0"
    and "\<And>x h. J h \<Longrightarrow> fst (wait x h) = Ret True \<or>
      fst (wait x h) = (if io_timeout x then Throw TimeoutException else Ret False) \<and> J (snd (wait x h))"
    and "J (handler c)" "\<And>ms h. J h \<Longrightarrow> J (fold process_reply ms h)"
  shows "\<exists>r. fst (write_loop send wait k xs t c) = Some r"
  using assms(1,2,5)
proof (induction xs arbitrary: t c)
  case (Cons x xs)
  let ?c = "receive_replies x c"
  have J: "J (handler ?c)" using Cons.prems(3) assms(6) by (simp add: receive_replies_def)
  have "sendable x" using Cons.prems by auto
  then obtain ps where ps: "choose_peers k (max_nodes_to_send_put_request ?c) t x = Ret ps" "\<exists>i<length ps. io_sent x i"
    unfolding sendable_def choose_peers_def by blast
  obtain ds where ds: "send (0 < t) x ps = (0, ds)" using assms(3)[OF ps(2)] by (metis prod.collapse)
  obtain r h where w: "wait x (handler ?c) = (r, h)" by fastforce
  have "max_timeouts (?c\<lparr>handler := h\<rparr>) \<le> (if io_timeout x then t + 1 else t) + int (length (filter io_timeout xs))"
    using Cons.prems(2) by (cases "io_timeout x") (simp_all add: receive_replies_def)
  with Cons.IH[of "?c\<lparr>handler := h\<rparr>" "if io_timeout x then t + 1 else t"] Cons.prems(1) ps(1) ds w assms(4)[OF J, of x]
  show ?case by (auto simp: after_sending_def split: prod.splits if_splits)
qed simp

lemma write_loop_stuck:
  assumes "\<forall>x\<in>set xs. unsendable x" "t < max_timeouts c"
    and "\<And>b x ps. \<forall>i. \<not> io_sent x i \<Longrightarrow> send b x ps = (1, [])"
  shows "fst (write_loop send wait k xs t c) = None"
  using assms(1,2)
proof (induction xs arbitrary: t c)
  case (Cons x xs)
  let ?c = "receive_replies x c"
  obtain ps where ps: "choose_peers k (max_nodes_to_send_put_request ?c) t x = Ret ps" "\<forall>i. \<not> io_sent x i"
    using Cons.prems(1) unfolding unsendable_def choose_peers_def by fastforce
  have "t < max_timeouts ?c" using Cons.prems(2) by (simp add: receive_replies_def)
  with Cons.IH[of t ?c] Cons.prems ps(1) assms(3)[OF ps(2)] show ?case by (auto simp: after_sending_def split: prod.splits)
qed simp

lemma wait_put_timeout:
  assumes "put_replies h k \<noteq> None"
  shows "fst (wait_for_put k n during t h) = Ret True \<or>
    fst (wait_for_put k n during t h) = (if t then Throw TimeoutException else Ret False) \<and>
      put_replies (snd (wait_for_put k n during t h)) k \<noteq> None"
  using assms by (auto simp: wait_for_put_def wait_quorum_def Let_def puts.replies_fold split: option.splits)

definition put_key_of :: "client \<Rightarrow> string \<Rightarrow> kv_store_version \<Rightarrow> FileType \<Rightarrow> kv_store_key" where
  "put_key_of c k v t = \<lparr>key = k, version = new_version c v, f_type = t, is_deleted = False\<rparr>"

lemma client_put_run:
  assumes "put_replies (handler c) (put_key_of c k v t) = None"
  obtains h where "register_put (put_key_of c k v t) (handler c) = (Ret (), h)" "put_replies h (put_key_of c k v t) = Some {}"
    "client_put c k v t data n xs = write_loop (send_put c k (new_version c v) t data)
       (\<lambda>x. wait_for_put (put_key_of c k v t) n (io_during x) (io_timeout x)) k xs 0 ((tick c)\<lparr>handler := h\<rparr>)"
  using assms that by (auto simp: register_put_def client_put_def put_key_of_def Let_def)

lemma client_put_counts:
  assumes "put_replies (handler c) (put_key_of c k v t) = None" "0 < max_timeouts c"
  shows "puts.put_outcome (put_key_of c k v t) n {} xs (client_put c k v t data n xs)"
proof -
  obtain h where h: "put_replies h (put_key_of c k v t) = Some {}"
    "client_put c k v t data n xs = write_loop (send_put c k (new_version c v) t data)
       (\<lambda>x. wait_for_put (put_key_of c k v t) n (io_during x) (io_timeout x)) k xs 0 ((tick c)\<lparr>handler := h\<rparr>)"
    using client_put_run[OF assms(1)] by blast
  then show ?thesis
    using puts.write_loop_result[of "(tick c)\<lparr>handler := h\<rparr>" "put_key_of c k v t" "{}" 0 n xs
        "send_put c k (new_version c v) t data" k] assms(2)
    by (simp add: wait_for_put_def tick_def)
qed

lemma client_put_frame:
  "clock (fst (snd (client_put c k v t data n xs))) = increment (clock c) \<and> cl_id (fst (snd (client_put c k v t data n xs))) = cl_id c"
proof (cases "put_replies (handler c) (put_key_of c k v t)")
  case None
  from client_put_run[OF this] obtain h where h: "client_put c k v t data n xs = write_loop (send_put c k (new_version c v) t data)
       (\<lambda>x. wait_for_put (put_key_of c k v t) n (io_during x) (io_timeout x)) k xs 0 ((tick c)\<lparr>handler := h\<rparr>)"
    by blast
  have "case client_put c k v t data n xs of (res, c', ds) \<Rightarrow>
      (clock c' = increment (clock c) \<and> cl_id c' = cl_id c) \<and> (\<forall>d\<in>set ds. True)"
    unfolding h by (rule write_loop_inv) (auto simp: tick_def receive_replies_def)
  then show ?thesis by (auto split: prod.splits)
qed (auto simp: client_put_def put_key_of_def register_put_def Let_def tick_def)

section \<open>Properties\<close>

text \<open>
  C3. What a client knows after a write. The clock advances, and every datagram sent is a put request for the new
  version with the data of the caller. If the call returns, at least as many distinct peers as
  required acknowledged exactly this key, version and type, and the request is forgotten. If it throws \<open>TimeoutException\<close>, fewer peers
  did, and the request stays registered.
\<close>

theorem client_put_outcome:
  assumes "client_put c k v t data n xs = (res, c', ds)" "put_replies (handler c) (put_key_of c k v t) = None"
    and "0 < max_timeouts c" "\<forall>x\<in>set xs. \<forall>q. io_lb x q \<noteq> Throw TimeoutException"
  shows "clock c' = increment (clock c) \<and>
    (\<forall>d\<in>set ds. \<exists>extra. snd d = \<lparr>forwarded_within_group = False,
       body = build_put_message (cl_ip c) (cl_kv_port c) (cl_id c) k (new_version c v) t data extra\<rparr>) \<and>
    (res = Some (Ret ()) \<longrightarrow> n \<le> card (puts.peers (put_key_of c k v t) (received xs)) \<and>
       put_replies (handler c') (put_key_of c k v t) = None) \<and>
    (res = Some (Throw TimeoutException) \<longrightarrow> (\<exists>r. put_replies (handler c') (put_key_of c k v t) = Some r \<and> card r < n))"
proof -
  obtain h where h: "put_replies h (put_key_of c k v t) = Some {}"
    "client_put c k v t data n xs = write_loop (send_put c k (new_version c v) t data)
       (\<lambda>x. wait_for_put (put_key_of c k v t) n (io_during x) (io_timeout x)) k xs 0 ((tick c)\<lparr>handler := h\<rparr>)"
    using client_put_run[OF assms(2)] by blast
  have "puts.put_outcome (put_key_of c k v t) n {} xs (res, c', ds)"
    using client_put_counts[OF assms(2,3)] assms(1) by metis
  moreover have "case write_loop (send_put c k (new_version c v) t data)
       (\<lambda>x. wait_for_put (put_key_of c k v t) n (io_during x) (io_timeout x)) k xs 0 ((tick c)\<lparr>handler := h\<rparr>) of
       (res, c', ds) \<Rightarrow> clock c' = increment (clock c) \<and>
         (\<forall>d\<in>set ds. \<exists>extra. snd d = \<lparr>forwarded_within_group = False,
            body = build_put_message (cl_ip c) (cl_kv_port c) (cl_id c) k (new_version c v) t data extra\<rparr>)"
    by (rule write_loop_inv) (auto simp: tick_def receive_replies_def send_put_def dest!: send_all_datagrams[OF surjective_pairing])
  ultimately show ?thesis using h(2) assms(1,4) by (auto simp: puts.put_outcome_def)
qed

definition peer7 :: peer_data where
  "peer7 = \<lparr>pd_ip = ''10.0.0.7'', pd_kv_port = 7, pd_pss_port = 8, pd_recover_port = 9, pd_age = 0, pd_id = 7, pd_nr_slices = 1,
     pd_pos = 0, pd_slice = 1\<rparr>"

definition sample_io :: "bool \<Rightarrow> kv_body list \<Rightarrow> io" where
  "sample_io sent replies = \<lparr>io_lb = \<lambda>_. Ret [peer7], io_sent = \<lambda>_. sent, io_before = [], io_during = replies,
     io_timeout = True, io_ord = \<lambda>m. m\<rparr>"

definition sample_client :: client where
  "sample_client = \<lparr>cl_ip = ''10.0.0.1'', cl_kv_port = 5, cl_id = 1, request_count = 0, max_nodes_to_send_get_request = 2,
     max_nodes_to_send_put_request = 2, max_timeouts = 2, clock = 0, handler = empty_handler\<rparr>"

lemma sample_put_key: "put_key_of sample_client ''/a'' default_version FILE = sample_key"
proof -
  have "vv (add_vv (1, 1) default_version) = smap_of [(1, 1)]"
    by (rule smap_eqI) (simp add: slookup_add_vv smap_of_def default_version_def omax_def)
  then show ?thesis
    by (simp add: put_key_of_def sample_key_def new_version_def sample_client_def increment_def LONG_MAX_def)
qed

lemma sample_unregistered: "put_replies (handler sample_client) k = None"
  by (simp add: sample_client_def empty_handler_def)

lemma sample_put:
  assumes "n \<le> card (puts.peers sample_key rs)"
  obtains c' where "client_put sample_client ''/a'' default_version FILE ''x'' n [sample_io True rs] =
    (Some (Ret ()), c', [(peer7, \<lparr>forwarded_within_group = False,
       body = build_put_message ''10.0.0.1'' 5 1 ''/a'' (new_version sample_client default_version) FILE ''x'' False\<rparr>)])"
proof -
  let ?k = "put_key_of sample_client ''/a'' default_version FILE"
  obtain h where h: "put_replies h ?k = Some {}"
    "\<And>xs. client_put sample_client ''/a'' default_version FILE ''x'' n xs =
       write_loop (send_put sample_client ''/a'' (new_version sample_client default_version) FILE ''x'')
         (\<lambda>x. wait_for_put ?k n (io_during x) (io_timeout x)) ''/a'' xs 0 ((tick sample_client)\<lparr>handler := h\<rparr>)"
    using sample_unregistered by (force simp: register_put_def client_put_def put_key_of_def Let_def)
  have "put_replies (fold process_reply rs h) sample_key = Some (puts.peers sample_key rs)"
    using h(1) by (simp add: puts.replies_fold sample_put_key)
  then obtain h' where "wait_for_put ?k n rs True h = (Ret True, h')"
    using h(1) assms by (cases "n = 0") (auto simp: sample_put_key wait_for_put_def wait_quorum_def Let_def)
  then show thesis using that h(2)
    by (simp add: sample_io_def receive_replies_def choose_peers_def send_put_def send_all_def tick_def sample_client_def)
qed

lemma sample_quorum: "2 \<le> card (puts.peers sample_key (map sample_reply [7, 8]))"
  unfolding sample_peers by simp

theorem client_put_outcome_witness:
  "\<exists>c' ds. client_put sample_client ''/a'' default_version FILE ''x'' 2 [sample_io True (map sample_reply [7, 8])] =
     (Some (Ret ()), c', ds) \<and> clock c' = 1 \<and> put_replies (handler c') sample_key = None"
proof -
  obtain c' ds where r: "client_put sample_client ''/a'' default_version FILE ''x'' 2
      [sample_io True (map sample_reply [7, 8])] = (Some (Ret ()), c', ds)"
    by (rule sample_put[OF sample_quorum]) blast
  have lb: "\<forall>x\<in>set [sample_io True (map sample_reply [7, 8])]. \<forall>q. io_lb x q \<noteq> Throw TimeoutException"
    by (simp add: sample_io_def)
  have m: "0 < max_timeouts sample_client" by (simp add: sample_client_def)
  from client_put_outcome[OF r sample_unregistered m lb]
  have "clock c' = increment (clock sample_client)" "put_replies (handler c') sample_key = None"
    by (auto simp: sample_put_key)
  then show ?thesis using r by (auto simp: sample_client_def increment_def LONG_MAX_def)
qed

text \<open>
  C29. A write ends. Provided that in every round the load balancer names peers and one of them can be sent to, a write has returned or thrown
  once as many of its rounds as \<^verbatim>\<open>max_timeouts\<close> allows could have timed out. Rounds whose wait is woken by an acknowledgement without a quorum
  come in any number between them: they are not counted, so there is no bound on the number of rounds as such.
\<close>

theorem client_put_returns:
  assumes "\<forall>x\<in>set xs. sendable x" "max_timeouts c \<le> int (length (filter io_timeout xs))"
  shows "\<exists>r. fst (client_put c k v t data n xs) = Some r"
proof (cases "put_replies (handler c) (put_key_of c k v t)")
  case None
  from client_put_run[OF this] obtain h where h: "put_replies h (put_key_of c k v t) = Some {}"
    "client_put c k v t data n xs = write_loop (send_put c k (new_version c v) t data)
       (\<lambda>x. wait_for_put (put_key_of c k v t) n (io_during x) (io_timeout x)) k xs 0 ((tick c)\<lparr>handler := h\<rparr>)"
    by blast
  show ?thesis unfolding h(2)
  proof (rule write_loop_returns[where J = "\<lambda>h. put_replies h (put_key_of c k v t) \<noteq> None"])
    show "put_replies (fold process_reply ms h) (put_key_of c k v t) \<noteq> None"
      if "put_replies h (put_key_of c k v t) \<noteq> None" for ms h
      using that by (simp add: puts.replies_fold)
  qed (use assms h(1) wait_put_timeout in \<open>auto simp: tick_def send_put_def intro: send_all_ok\<close>)
qed (auto simp: client_put_def put_key_of_def register_put_def Let_def)

theorem client_put_returns_witness:
  "\<exists>r. fst (client_put sample_client ''/a'' default_version FILE ''x'' 2
     [sample_io True [], (sample_io True [])\<lparr>io_timeout := False\<rparr>, sample_io True []]) = Some r"
  by (rule client_put_returns) (auto simp: sample_io_def sendable_def sample_client_def)

text \<open>
  Rounds in which nothing can be sent are not counted: as long as every send fails, a write neither returns nor throws,
  however many rounds it makes.
\<close>

theorem client_put_never_returns:
  assumes "\<forall>x\<in>set xs. unsendable x" "0 < max_timeouts c" "put_replies (handler c) (put_key_of c k v t) = None"
  shows "fst (client_put c k v t data n xs) = None"
proof -
  obtain h where "client_put c k v t data n xs = write_loop (send_put c k (new_version c v) t data)
       (\<lambda>x. wait_for_put (put_key_of c k v t) n (io_during x) (io_timeout x)) k xs 0 ((tick c)\<lparr>handler := h\<rparr>)"
    using client_put_run[OF assms(3)] by blast
  then show ?thesis using write_loop_stuck[OF assms(1), of 0 "(tick c)\<lparr>handler := h\<rparr>"] assms(2)
    by (simp add: tick_def send_put_def send_all_fail)
qed

theorem client_put_never_returns_witness:
  "fst (client_put sample_client ''/a'' default_version FILE ''x'' 2 (replicate 1000 (sample_io False []))) = None"
  by (rule client_put_never_returns)
    (simp_all add: empty_handler_def unsendable_def sample_io_def sample_client_def)

text \<open>A sequence of writes of one client, each with its own network: the versions they are given and the client after them.\<close>

record write_call =
  wc_key :: string
  wc_version :: kv_store_version
  wc_type :: FileType
  wc_data :: bytes
  wc_wait_for :: nat
  wc_io :: "io list"

definition after_put :: "client \<Rightarrow> write_call \<Rightarrow> client" where
  "after_put c w = fst (snd (client_put c (wc_key w) (wc_version w) (wc_type w) (wc_data w) (wc_wait_for w) (wc_io w)))"

fun put_versions :: "client \<Rightarrow> write_call list \<Rightarrow> kv_store_version list" where
  "put_versions c [] = []"
| "put_versions c (w # ws) = new_version c (wc_version w) # put_versions (after_put c w) ws"

text \<open>No write is based on a version in which the client's own component runs ahead of its clock.\<close>

fun bases_ok :: "client \<Rightarrow> write_call list \<Rightarrow> bool" where
  "bases_ok c [] \<longleftrightarrow> True"
| "bases_ok c (w # ws) \<longleftrightarrow>
     (case slookup (vv (wc_version w)) (cl_id c) of None \<Rightarrow> True | Some m \<Rightarrow> m \<le> clock c) \<and> bases_ok (after_put c w) ws"

lemma after_put_frame [simp]: "clock (after_put c w) = increment (clock c)" "cl_id (after_put c w) = cl_id c"
  using client_put_frame[of c "wc_key w" "wc_version w" "wc_type w" "wc_data w" "wc_wait_for w" "wc_io w"]
  by (simp_all add: after_put_def)

lemma length_put_versions [simp]: "length (put_versions c ws) = length ws"
  by (induction ws arbitrary: c) auto

lemma put_versions_own:
  assumes "bases_ok c ws" "clock c + int (length ws) \<le> LONG_MAX" "i < length ws"
  shows "slookup (vv (put_versions c ws ! i)) (cl_id c) = Some (clock c + int i + 1) \<and>
    comp_version (put_versions c ws ! i) (wc_version (ws ! i)) = Bigger"
  using assms
proof (induction ws arbitrary: c i)
  case (Cons w ws)
  let ?v = "wc_version w"
  have base: "\<forall>m. slookup (vv ?v) (cl_id c) = Some m \<longrightarrow> m \<le> clock c" using Cons.prems(1) by (auto split: option.splits)
  have inc: "increment (clock c) = clock c + 1" using Cons.prems(2) by (simp add: increment_def)
  have "slookup (vv (new_version c ?v)) (cl_id c) = Some (clock c + 1)"
    using base inc by (auto simp: new_version_def slookup_add_vv omax_def max_def split: option.splits)
  moreover have "comp_version (new_version c ?v) ?v = Bigger"
    using base inc add_vv_bigger[of "cl_id c" "increment (clock c)" ?v] by (auto simp: new_version_def comp_version_iffs)
  ultimately show ?case
    using Cons.IH[of "after_put c w" "i - 1"] Cons.prems inc by (cases i) auto
qed simp

text \<open>
  C30. The versions of a client's writes. In every sequence of writes of a client, whatever their outcomes, the version of a write is newer than the one
  it is based on, and is never equal to or older than that of any earlier write of the sequence, so replicas take both. This needs
  that no write is based on a version in which the client's own component is ahead of its clock, and that the clock does not overflow. A client that
  was started again under its old id has a clock of 0 and violates the first condition.
\<close>

theorem client_versions_advance:
  assumes "bases_ok c ws" "clock c + int (length ws) \<le> LONG_MAX" "i < length ws"
  shows "comp_version (put_versions c ws ! i) (wc_version (ws ! i)) = Bigger \<and>
    (\<forall>j<i. \<not> ver_le (put_versions c ws ! i) (put_versions c ws ! j))"
proof -
  have "\<not> ver_le (put_versions c ws ! i) (put_versions c ws ! j)" if "j < i" for j
    using put_versions_own[OF assms] put_versions_own[OF assms(1,2), of j] that assms(3) by (force simp: vv_le_def)
  then show ?thesis using put_versions_own[OF assms] by blast
qed

definition sample_write :: write_call where
  "sample_write = \<lparr>wc_key = ''/a'', wc_version = default_version, wc_type = FILE, wc_data = ''x'', wc_wait_for = 2, wc_io = []\<rparr>"

theorem client_versions_advance_witness:
  "\<not> ver_le (put_versions sample_client [sample_write, sample_write, sample_write] ! 2)
     (put_versions sample_client [sample_write, sample_write, sample_write] ! 0)"
proof -
  have ok: "bases_ok sample_client [sample_write, sample_write, sample_write]"
    by (simp add: sample_write_def default_version_def)
  have "clock sample_client + int (length [sample_write, sample_write, sample_write]) \<le> LONG_MAX"
    by (simp add: sample_client_def LONG_MAX_def)
  from conjunct2[OF client_versions_advance[OF ok this, of 2]] show ?thesis by (simp del: put_versions.simps)
qed

text \<open>A write of a client whose clock is behind its own component of the version it read repeats that version.\<close>

lemma restarted_client_repeats:
  assumes "slookup (vv v) (cl_id c) = Some m" "increment (clock c) \<le> m"
  shows "comp_version (new_version c v) v = Equal"
proof -
  have "slookup (vv (new_version c v)) = slookup (vv v)"
    using assms by (intro ext) (auto simp: new_version_def slookup_add_vv omax_def max_def)
  then show ?thesis by (simp add: comp_version_iffs smap_eq_iff)
qed

end
