(* ===== verification/Metadata.thy ===== *)
theory Metadata
  imports Text_Util
begin

text \<open>
  Directory and file metadata: \<^verbatim>\<open>lsfs/fuse_lsfs/metadata/\<close>, the merge function of
  \<^verbatim>\<open>lsfs/fuse_lsfs/storage_specific.cpp\<close> and the time comparison of \<^verbatim>\<open>lsfs/fuse_lsfs/util.cpp\<close>.

  A directory keeps its children with a status (\<open>ADDED\<close>, \<open>REMOVED\<close>, \<open>NONE\<close>). Two directories written
  concurrently are merged by \<open>merge_metadata\<close>; \<open>merge_childs_lookup\<close> says, path by path, what the
  merged directory contains. The padding words of \<^verbatim>\<open>struct stat\<close> are left out.
\<close>

section \<open>Data\<close>

datatype Status = ADDED | REMOVED | NONE

record timespec =
  tv_sec :: long
  tv_nsec :: long

record stat =
  st_dev :: int
  st_ino :: int
  st_nlink :: int
  st_mode :: "32 word"
  st_uid :: int
  st_gid :: int
  st_rdev :: int
  st_size :: int
  st_blksize :: int
  st_blocks :: int
  st_atim :: timespec
  st_mtim :: timespec
  st_ctim :: timespec

type_synonym metadata_childs = "(string, FileType \<times> Status) smap"

record metadata =
  attr :: stat
  childs :: metadata_childs

section \<open>Operations\<close>

definition timespec_less :: "timespec \<Rightarrow> timespec \<Rightarrow> bool" where
  "timespec_less lhs rhs =
     (if tv_sec lhs = tv_sec rhs then tv_nsec lhs < tv_nsec rhs else tv_sec lhs < tv_sec rhs)"

definition zero_stat :: stat where
  "zero_stat =
     \<lparr>st_dev = 0, st_ino = 0, st_nlink = 0, st_mode = 0, st_uid = 0, st_gid = 0, st_rdev = 0,
      st_size = 0, st_blksize = 0, st_blocks = 0,
      st_atim = \<lparr>tv_sec = 0, tv_nsec = 0\<rparr>, st_mtim = \<lparr>tv_sec = 0, tv_nsec = 0\<rparr>,
      st_ctim = \<lparr>tv_sec = 0, tv_nsec = 0\<rparr>\<rparr>"

text \<open>\<open>ts\<close> is what \<^verbatim>\<open>clock_gettime(CLOCK_REALTIME)\<close> returned.\<close>

definition initialize_metadata :: "timespec \<Rightarrow> 32 word \<Rightarrow> int \<Rightarrow> int \<Rightarrow> int \<Rightarrow> stat" where
  "initialize_metadata ts mode nlink gid uid =
     zero_stat\<lparr>st_mode := mode, st_gid := gid, st_uid := uid, st_nlink := nlink,
       st_atim := ts, st_ctim := ts, st_mtim := ts, st_blksize := int BLK_SIZE\<rparr>"

definition metadata_of_attr :: "stat \<Rightarrow> metadata" where
  "metadata_of_attr a = \<lparr>attr = a, childs = sempty\<rparr>"

definition add_child :: "string \<Rightarrow> bool \<Rightarrow> metadata_childs \<Rightarrow> metadata_childs" where
  "add_child path is_dir m =
     (let obj = (if is_dir then DIRECTORY else FILE, ADDED) in
      case slookup m path of Some _ \<Rightarrow> sput path obj m | None \<Rightarrow> semplace path obj m)"

definition remove_child :: "string \<Rightarrow> bool \<Rightarrow> metadata_childs \<Rightarrow> metadata_childs" where
  "remove_child path is_dir m =
     (case slookup m path of Some (t, _) \<Rightarrow> sput path (t, REMOVED) m | None \<Rightarrow> m)"

definition reset_add_remove_log :: "metadata_childs \<Rightarrow> metadata_childs" where
  "reset_add_remove_log m =
     (let to_erase = map fst (filter (\<lambda>(k, v). snd v = REMOVED) (entries m));
          m' = smap_value (\<lambda>k v. if snd v = ADDED then (fst v, NONE) else v) m
      in fold sdel to_erase m')"

definition reset_status :: "metadata_childs \<Rightarrow> metadata_childs" where
  "reset_status m = smap_value (\<lambda>k v. (fst v, NONE)) m"

definition childs_is_empty :: "metadata_childs \<Rightarrow> bool" where
  "childs_is_empty m \<longleftrightarrow> \<not> list_ex (\<lambda>(k, v). snd v = ADDED \<or> snd v = NONE) (entries m)"

text \<open>The three time updates that \<^verbatim>\<open>merge_attr\<close> and \<^verbatim>\<open>merge_metadata\<close> end with.\<close>

definition merge_times :: "stat \<Rightarrow> stat \<Rightarrow> stat" where
  "merge_times a b =
     (let a1 = (if timespec_less (st_atim a) (st_atim b) then a\<lparr>st_atim := st_atim b\<rparr> else a);
          a2 = (if timespec_less (st_mtim a1) (st_mtim b) then a1\<lparr>st_mtim := st_mtim b\<rparr> else a1)
      in if timespec_less (st_ctim a2) (st_ctim b) then a2\<lparr>st_ctim := st_ctim b\<rparr> else a2)"

definition merge_attr :: "metadata \<Rightarrow> metadata \<Rightarrow> metadata" where
  "merge_attr met1 met2 = met1\<lparr>attr := merge_times (attr met1) (attr met2)\<rparr>"

text \<open>First loop of \<^verbatim>\<open>merge_metadata\<close>: the children of the metadata with priority.\<close>

fun merge_first :: "(string \<times> FileType \<times> Status) list \<Rightarrow> metadata_childs \<Rightarrow> (string, unit) smap \<Rightarrow>
    metadata_childs \<times> (string, unit) smap" where
  "merge_first [] temp priority_remove = (temp, priority_remove)"
| "merge_first ((path, t, s) # xs) temp priority_remove =
     (if s = NONE \<or> s = ADDED then merge_first xs (semplace path (t, s) temp) priority_remove
      else if s = REMOVED then merge_first xs temp (semplace path () priority_remove)
      else merge_first xs temp priority_remove)"

text \<open>Second loop: the children of the other metadata.\<close>

definition merge_second_step ::
  "(string, unit) smap \<Rightarrow> string \<Rightarrow> FileType \<times> Status \<Rightarrow> metadata_childs \<Rightarrow> metadata_childs" where
  "merge_second_step priority_remove path v temp =
     (case snd v of
        NONE \<Rightarrow> semplace path v temp
      | ADDED \<Rightarrow> (case slookup priority_remove path of
            None \<Rightarrow> semplace path v temp | Some _ \<Rightarrow> temp)
      | REMOVED \<Rightarrow> (case slookup temp path of
            None \<Rightarrow> temp
          | Some w \<Rightarrow> if snd w = NONE then sdel path temp else temp))"

fun merge_second ::
  "(string, unit) smap \<Rightarrow> (string \<times> FileType \<times> Status) list \<Rightarrow> metadata_childs \<Rightarrow> metadata_childs" where
  "merge_second priority_remove [] temp = temp"
| "merge_second priority_remove ((path, v) # xs) temp =
     merge_second priority_remove xs (merge_second_step priority_remove path v temp)"

definition merge_childs :: "metadata_childs \<Rightarrow> metadata_childs \<Rightarrow> metadata_childs" where
  "merge_childs m1 m2 =
     (case merge_first (entries m1) sempty sempty of (temp, priority_remove) \<Rightarrow>
        reset_add_remove_log (merge_second priority_remove (entries m2) temp))"

text \<open>\<^verbatim>\<open>merge_metadata\<close> between the two deserialisations and the final serialisation.\<close>

definition merge_metadata :: "metadata \<Rightarrow> metadata \<Rightarrow> metadata" where
  "merge_metadata met1 met2 =
     (let met = met1\<lparr>childs := merge_childs (childs met1) (childs met2)\<rparr>
      in met\<lparr>attr := merge_times (attr met) (attr met2)\<rparr>)"

section \<open>Lemmas\<close>

lemma slookup_add_child [lsfs_simps]:
  "slookup (add_child path is_dir m) =
     (slookup m)(path \<mapsto> (if is_dir then DIRECTORY else FILE, ADDED))"
  by (rule ext) (simp add: add_child_def Let_def slookup_semplace split: option.splits)

lemma slookup_remove_child [lsfs_simps]:
  "slookup (remove_child path is_dir m) q =
     (if q = path then map_option (\<lambda>(t, _). (t, REMOVED)) (slookup m q) else slookup m q)"
  by (auto simp: remove_child_def split: option.splits)

lemma slookup_fold_sdel:
  "slookup (fold sdel ks m) k = (if k \<in> set ks then None else slookup m k)"
  by (induction ks arbitrary: m) auto

lemma slookup_reset_log [lsfs_simps]:
  "slookup (reset_add_remove_log m) k =
     (case slookup m k of
        None \<Rightarrow> None
      | Some (t, s) \<Rightarrow> if s = REMOVED then None else Some (t, NONE))"
proof -
  have "k \<in> set (map fst (filter (\<lambda>(k, v). snd v = REMOVED) (entries m))) \<longleftrightarrow>
      (\<exists>t. slookup m k = Some (t, REMOVED))"
    by (force simp: in_entries_iff)
  then show ?thesis
    unfolding reset_add_remove_log_def Let_def slookup_fold_sdel slookup_smap_value
    by (cases "slookup m k") (auto, metis Status.exhaust)
qed

lemma Status_live: "s = ADDED \<or> s = NONE \<longleftrightarrow> s \<noteq> REMOVED"
  by (cases s) auto

lemma childs_is_empty_iff:
  "childs_is_empty m \<longleftrightarrow> (\<forall>k t s. slookup m k = Some (t, s) \<longrightarrow> s = REMOVED)"
proof -
  have "childs_is_empty m \<longleftrightarrow> (\<forall>(k, v) \<in> set (entries m). snd v = REMOVED)"
    unfolding childs_is_empty_def Status_live list_ex_iff by fastforce
  then show ?thesis unfolding ball_entries by auto
qed

lemma merge_first_fst:
  "distinct (map fst xs) \<Longrightarrow> slookup (fst (merge_first xs temp pr)) k =
     (case slookup temp k of
        Some v \<Rightarrow> Some v
      | None \<Rightarrow> (case map_of xs k of
            Some (t, s) \<Rightarrow> if s = REMOVED then None else Some (t, s) | None \<Rightarrow> None))"
proof (induction xs temp pr rule: merge_first.induct)
  case (2 path t s xs temp pr)
  then have "map_of xs path = None" by (simp add: map_of_eq_None_iff)
  with 2 show ?case
    by (cases s; cases "k = path") (auto simp: slookup_semplace split: option.splits)
qed (simp split: option.splits)

lemma merge_first_snd:
  "distinct (map fst xs) \<Longrightarrow> slookup (snd (merge_first xs temp pr)) k =
     (case map_of xs k of
        Some (t, s) \<Rightarrow> if s = REMOVED then Some () else slookup pr k | None \<Rightarrow> slookup pr k)"
proof (induction xs temp pr rule: merge_first.induct)
  case (2 path t s xs temp pr)
  then have "map_of xs path = None" by (simp add: map_of_eq_None_iff)
  with 2 show ?case
    by (cases s; cases "k = path") (auto simp: slookup_semplace split: option.splits)
qed simp

lemma merge_second_step_other:
  "k \<noteq> path \<Longrightarrow> slookup (merge_second_step pr path v temp) k = slookup temp k"
  by (auto simp: merge_second_step_def slookup_semplace split: Status.splits option.splits)

lemma merge_second_lookup:
  "distinct (map fst xs) \<Longrightarrow> slookup (merge_second pr xs temp) k =
     (case map_of xs k of
        None \<Rightarrow> slookup temp k
      | Some v \<Rightarrow> slookup (merge_second_step pr k v temp) k)"
proof (induction pr xs temp rule: merge_second.induct)
  case (2 pr path v xs temp)
  have cong: "slookup a k = slookup b k \<Longrightarrow>
      slookup (merge_second_step pr k w a) k = slookup (merge_second_step pr k w b) k" for a b w
    by (auto simp: merge_second_step_def slookup_semplace split: Status.splits option.splits)
  from 2 have n: "map_of xs path = None" by (simp add: map_of_eq_None_iff)
  show ?case
  proof (cases "k = path")
    case True
    with 2 n show ?thesis by simp
  next
    case False
    then have "slookup (merge_second_step pr path v temp) k = slookup temp k"
      by (rule merge_second_step_other)
    with 2 False cong[OF this] show ?thesis by (simp split: option.splits)
  qed
qed simp

text \<open>The merged directory, path by path.\<close>

lemma merge_childs_lookup:
  "slookup (merge_childs m1 m2) p =
     (case slookup m1 p of
        Some (t, s) \<Rightarrow>
          (if s = REMOVED then
             (case slookup m2 p of Some (t', NONE) \<Rightarrow> Some (t', NONE) | _ \<Rightarrow> None)
           else if s = NONE \<and> (\<exists>t'. slookup m2 p = Some (t', REMOVED)) then None
           else Some (t, NONE))
      | None \<Rightarrow>
          (case slookup m2 p of
             Some (t', s') \<Rightarrow> if s' = REMOVED then None else Some (t', NONE)
           | None \<Rightarrow> None))"
proof -
  obtain temp pr where f: "merge_first (entries m1) sempty sempty = (temp, pr)" by fastforce
  have temp: "slookup temp p = (case slookup m1 p of
      Some (t, s) \<Rightarrow> if s = REMOVED then None else Some (t, s) | None \<Rightarrow> None)"
    using merge_first_fst[of "entries m1" sempty sempty p] f by (simp flip: slookup_entries)
  have pr: "slookup pr p = (case slookup m1 p of
      Some (t, s) \<Rightarrow> if s = REMOVED then Some () else None | None \<Rightarrow> None)"
    using merge_first_snd[of "entries m1" sempty sempty p] f
    by (simp flip: slookup_entries split: option.splits prod.splits)
  have "slookup (merge_second pr (entries m2) temp) p =
      (case slookup m2 p of None \<Rightarrow> slookup temp p
       | Some v \<Rightarrow> slookup (merge_second_step pr p v temp) p)"
    using merge_second_lookup[of "entries m2" pr temp p] by (simp flip: slookup_entries)
  then show ?thesis
    unfolding merge_childs_def f prod.case slookup_reset_log
    by (cases "slookup m1 p"; cases "slookup m2 p")
      (auto simp: temp pr merge_second_step_def slookup_semplace split: Status.splits if_splits)
qed

lemma timespec_less_irrefl [simp]: "\<not> timespec_less t t"
  by (simp add: timespec_less_def)

lemma timespec_less_linear: "timespec_less a b \<or> a = b \<or> timespec_less b a"
  by (cases a; cases b) (auto simp: timespec_less_def)

lemma timespec_less_trans: "timespec_less a b \<Longrightarrow> timespec_less b c \<Longrightarrow> timespec_less a c"
  by (auto simp: timespec_less_def split: if_splits)

definition later :: "timespec \<Rightarrow> timespec \<Rightarrow> timespec" where
  "later a b = (if timespec_less a b then b else a)"

lemma merge_times_fields [simp]:
  "st_atim (merge_times a b) = later (st_atim a) (st_atim b)"
  "st_mtim (merge_times a b) = later (st_mtim a) (st_mtim b)"
  "st_ctim (merge_times a b) = later (st_ctim a) (st_ctim b)"
  "st_mode (merge_times a b) = st_mode a" "st_size (merge_times a b) = st_size a"
  "st_nlink (merge_times a b) = st_nlink a" "st_uid (merge_times a b) = st_uid a"
  "st_gid (merge_times a b) = st_gid a" "st_blocks (merge_times a b) = st_blocks a"
  by (simp_all add: merge_times_def later_def Let_def)

lemma merge_times_eq:
  "merge_times a b = a\<lparr>st_atim := later (st_atim a) (st_atim b), st_mtim := later (st_mtim a) (st_mtim b), st_ctim := later (st_ctim a) (st_ctim b)\<rparr>"
  by (simp add: merge_times_def later_def Let_def)

lemma later_commute: "later a b = later b a"
  using timespec_less_linear[of a b] timespec_less_trans[of a b a]
  by (auto simp: later_def)

section \<open>Properties\<close>

text \<open>
  C39. What the merge of two concurrently written directories contains, path by path. A child live in the
  directory with priority stays unless the other one removed it and it was not freshly added; a child the
  first one does not know is taken from the second unless removed there. A child that the first one
  removed is gone unless the second one still has it unchanged. Every surviving child has status \<open>NONE\<close>,
  the three times of the result are the later ones, and its other attributes are those of the first.
\<close>

theorem merge_metadata_children:
  "slookup (childs (merge_metadata met1 met2)) p =
     (case slookup (childs met1) p of
        Some (t, s) \<Rightarrow>
          (if s = REMOVED then
             (case slookup (childs met2) p of Some (t', NONE) \<Rightarrow> Some (t', NONE) | _ \<Rightarrow> None)
           else if s = NONE \<and> (\<exists>t'. slookup (childs met2) p = Some (t', REMOVED)) then None
           else Some (t, NONE))
      | None \<Rightarrow>
          (case slookup (childs met2) p of
             Some (t', s') \<Rightarrow> if s' = REMOVED then None else Some (t', NONE)
           | None \<Rightarrow> None)) \<and>
   attr (merge_metadata met1 met2) = (attr met1)\<lparr>st_atim := later (st_atim (attr met1)) (st_atim (attr met2)),
     st_mtim := later (st_mtim (attr met1)) (st_mtim (attr met2)), st_ctim := later (st_ctim (attr met1)) (st_ctim (attr met2))\<rparr>"
  by (simp add: merge_metadata_def merge_childs_lookup merge_times_eq)

text \<open>
  A removal is lost when it is merged with priority: if the directory with priority has removed a child
  that the other directory still lists unchanged, the merged directory lists the child again, while merging
  the same two directories with the opposite priority drops it.
\<close>

theorem merge_loses_priority_removal:
  assumes "slookup (childs met1) p = Some (t, REMOVED)" "slookup (childs met2) p = Some (t, NONE)"
  shows "slookup (childs (merge_metadata met1 met2)) p = Some (t, NONE) \<and>
     slookup (childs (merge_metadata met2 met1)) p = None"
  using assms by (simp add: merge_metadata_def merge_childs_lookup)

theorem merge_loses_priority_removal_witness:
  "let d1 = \<lparr>attr = zero_stat, childs = remove_child ''f'' False (smap_of [(''f'', (FILE, NONE))])\<rparr>;
       d2 = \<lparr>attr = zero_stat, childs = smap_of [(''f'', (FILE, NONE))]\<rparr>
   in slookup (childs (merge_metadata d1 d2)) ''f'' = Some (FILE, NONE) \<and>
      slookup (childs (merge_metadata d2 d1)) ''f'' = None"
proof -
  let ?d1 = "\<lparr>attr = zero_stat, childs = remove_child ''f'' False (smap_of [(''f'', (FILE, NONE))])\<rparr>"
  let ?d2 = "\<lparr>attr = zero_stat, childs = smap_of [(''f'', (FILE, NONE))]\<rparr>"
  have "slookup (childs ?d1) ''f'' = Some (FILE, REMOVED)" "slookup (childs ?d2) ''f'' = Some (FILE, NONE)"
    by (simp_all add: slookup_remove_child smap_of_def)
  from merge_loses_priority_removal[OF this] show ?thesis by (simp add: Let_def)
qed

text \<open>
  A directory answers that it has no children exactly when every child it records is removed; adding a
  child makes it non-empty and removing the only live child makes it empty.
\<close>

theorem childs_empty_after_add_remove:
  "\<not> childs_is_empty (add_child path is_dir m) \<and>
   (childs_is_empty m \<longrightarrow> childs_is_empty (remove_child path is_dir (add_child path is_dir' m)))"
  by (auto simp: childs_is_empty_iff slookup_add_child slookup_remove_child split: if_splits)

theorem childs_empty_after_add_remove_witness:
  "childs_is_empty (sempty :: metadata_childs) \<and>
   childs_is_empty (remove_child ''a'' False (add_child ''a'' False sempty))"
  using childs_empty_after_add_remove[of "''a''" False sempty False] by (simp add: childs_is_empty_def)

end
