(* ===== verification/Kv_Store.thy ===== *)
theory Kv_Store
  imports Metadata
begin

text \<open>
  The part of a storage node that does not depend on the database: \<^verbatim>\<open>df_store/kv_store.h\<close>, the value
  types of \<^verbatim>\<open>df_store/kv_store_value/\<close>, and \<^verbatim>\<open>update_partition\<close> and \<^verbatim>\<open>is_key_is_for_me\<close> of
  \<^verbatim>\<open>df_store/kv_store_leveldb.h\<close>.

  \<open>env\<close> gathers what the code calls but the repository does not contain: the hash of strings, the
  regular-expression engine, the binary archive of the serialisation library, and LevelDB. A
  database handle has the type parameter \<open>'d\<close>. \<open>env_ok\<close> states what the code relies on of them: what
  was serialised is read back, and a database call that reports success did what its documentation says.

  The locale \<open>dedup_log\<close> is the contract of the four duplicate filters (writes seen, deletes seen,
  requests answered, anti-entropy requests answered); it is interpreted on each of them.
\<close>

section \<open>Values and environment\<close>

record kv_store_version_data =
  vd_version :: kv_store_version
  vd_data :: bytes

record kv_store_value =
  v_type :: FileType
  vdata :: "kv_store_version_data list"

text \<open>
  The outcome of \<^verbatim>\<open>leveldb::DB::Get\<close>: a value, \<^verbatim>\<open>NotFound\<close>, or another status that is not \<^verbatim>\<open>ok\<close>. It is a function of the state of the
  database: a read that fails keeps failing until the database changes. A read that fails once and then succeeds is outside the model. The store
  treats a failed read as an absent key (\<^verbatim>\<open>get_db\<close>), and so does \<open>stored\<close>, the versions counted as stored in the theorems.
\<close>

datatype ldb_result = Found bytes | NotFound | Failed

record 'd env =
  std_hash :: "string \<Rightarrow> 64 word"
  regex_search :: regex
  enc_value :: "kv_store_value \<Rightarrow> bytes"
  dec_value :: "bytes \<Rightarrow> kv_store_value option"
  enc_metadata :: "metadata \<Rightarrow> bytes"
  dec_metadata :: "bytes \<Rightarrow> metadata option"
  enc_attr :: "stat \<Rightarrow> bytes"
  dec_attr :: "bytes \<Rightarrow> stat option"
  ldb_get :: "'d \<Rightarrow> string \<Rightarrow> ldb_result"
  ldb_put :: "'d \<Rightarrow> string \<Rightarrow> bytes \<Rightarrow> bool \<times> 'd"
  ldb_delete :: "'d \<Rightarrow> string \<Rightarrow> bool \<times> 'd"
  ldb_scan :: "'d \<Rightarrow> (string \<times> bytes) list \<times> bool"

text \<open>\<^verbatim>\<open>deserialize_from_string\<close> throws an archive exception on bytes that are no archive of the type.\<close>

definition archive_ok :: "'d env \<Rightarrow> bool" where
  "archive_ok E \<longleftrightarrow>
     (\<forall>v. dec_value E (enc_value E v) = Some v) \<and>
     (\<forall>m. dec_metadata E (enc_metadata E m) = Some m) \<and>
     (\<forall>a. dec_attr E (enc_attr E a) = Some a)"

text \<open>
  LevelDB updates are atomic: a call that succeeds did the update, one that fails did it or left the database
  as it was. A scan whose final status is \<^verbatim>\<open>ok\<close> lists exactly the present keys, in key order.
\<close>

definition leveldb_ok :: "'d env \<Rightarrow> bool" where
  "leveldb_ok E \<longleftrightarrow>
     (\<forall>d k v ok d'. ldb_put E d k v = (ok, d') \<longrightarrow>
        ldb_get E d' = (ldb_get E d)(k := Found v) \<or> \<not> ok \<and> ldb_get E d' = ldb_get E d) \<and>
     (\<forall>d k ok d'. ldb_delete E d k = (ok, d') \<longrightarrow>
        ldb_get E d' = (ldb_get E d)(k := NotFound) \<or> \<not> ok \<and> ldb_get E d' = ldb_get E d) \<and>
     (\<forall>d xs. ldb_scan E d = (xs, True) \<longrightarrow>
        sorted_keys xs \<and> (\<forall>k v. map_of xs k = Some v \<longleftrightarrow> ldb_get E d k = Found v))"

definition env_ok :: "'d env \<Rightarrow> bool" where
  "env_ok E \<longleftrightarrow> archive_ok E \<and> leveldb_ok E"

section \<open>State\<close>

record 'd kv_store =
  slice :: int
  nr_slices :: int
  seen :: "kv_store_key \<rightharpoonup> bool"
  seen_deleted :: "kv_store_key \<rightharpoonup> bool"
  request_log :: "string \<rightharpoonup> bool"
  anti_entropy_log :: "string \<rightharpoonup> bool"
  merge_function :: "bytes \<Rightarrow> bytes \<Rightarrow> bytes res"
  seen_count :: long
  seen_deleted_count :: long
  req_count :: long
  anti_entropy_count :: long
  seen_log_garbage_at :: long
  request_log_garbage_at :: long
  anti_entropy_log_garbage_at :: long
  db :: 'd
  db_deleted :: 'd
  db_tmp_anti_entropy :: 'd
  record_count :: long
  record_count_cycle :: long
  deleted_record_count :: long
  deleted_record_count_cycle :: long
  anti_entropy_max_keys_to_send_percentage :: int

section \<open>Slices\<close>

text \<open>The loop of \<^verbatim>\<open>get_slice_for_key\<close> in \<^verbatim>\<open>size_t\<close> arithmetic. The test \<^verbatim>\<open>next_current < 0\<close> is on an unsigned
  value. The counter is an \<^verbatim>\<open>int\<close> in the source; it is unbounded here.\<close>

partial_function (option) slice_loop :: "64 word \<Rightarrow> 64 word \<Rightarrow> 64 word \<Rightarrow> int \<Rightarrow> int option" where
  "slice_loop target step next_current s =
     (if target > next_current then
        (let current = next_current; next_current' = current + step in
         if current > 0 \<and> next_current' < 0 then Some s
         else slice_loop target step next_current' (s + 1))
      else Some s)"

text \<open>\<open>Hang\<close> stands for a call that does not come back: the loop runs forever, or the division by zero
  traps.\<close>

definition get_slice_for_key :: "'d env \<Rightarrow> 'd kv_store \<Rightarrow> string \<Rightarrow> int res" where
  "get_slice_for_key E st k =
     (if nr_slices st = 1 then Ret 1
      else if nr_slices st = 0 then Hang
      else
        (let target = std_hash E k;
             step = (- 1 :: 64 word) div word_of_int (nr_slices st)
         in case slice_loop target step (0 + step) 1 of
              None \<Rightarrow> Hang
            | Some s \<Rightarrow> Ret (if s > nr_slices st then nr_slices st - 1 else s)))"

section \<open>Duplicate filters\<close>

definition clear_seen_log :: "'d kv_store \<Rightarrow> 'd kv_store" where
  "clear_seen_log st = st\<lparr>seen := Map.empty, seen_count := 0\<rparr>"

definition have_seen :: "'d kv_store \<Rightarrow> kv_store_key \<Rightarrow> bool" where
  "have_seen st k = (case seen st k of None \<Rightarrow> False | Some b \<Rightarrow> b)"

definition seen_it :: "kv_store_key \<Rightarrow> 'd kv_store \<Rightarrow> 'd kv_store" where
  "seen_it k st0 =
     (let st1 = st0\<lparr>seen_count := seen_count st0 + 1\<rparr>;
          st2 = (if seen_count st1 mod seen_log_garbage_at st1 = 0 then clear_seen_log st1 else st1)
      in st2\<lparr>seen := (seen st2)(k \<mapsto> True)\<rparr>)"

definition clear_seen_deleted_log :: "'d kv_store \<Rightarrow> 'd kv_store" where
  "clear_seen_deleted_log st = st\<lparr>seen_deleted := Map.empty, seen_deleted_count := 0\<rparr>"

definition have_seen_deleted :: "'d kv_store \<Rightarrow> kv_store_key \<Rightarrow> bool" where
  "have_seen_deleted st k = (case seen_deleted st k of None \<Rightarrow> False | Some b \<Rightarrow> b)"

definition seen_it_deleted :: "kv_store_key \<Rightarrow> 'd kv_store \<Rightarrow> 'd kv_store" where
  "seen_it_deleted k st0 =
     (let st1 = st0\<lparr>seen_deleted_count := seen_deleted_count st0 + 1\<rparr>;
          st2 = (if seen_deleted_count st1 mod seen_log_garbage_at st1 = 0
                 then clear_seen_deleted_log st1 else st1)
      in st2\<lparr>seen_deleted := (seen_deleted st2)(k \<mapsto> True)\<rparr>)"

definition clear_request_log :: "'d kv_store \<Rightarrow> 'd kv_store" where
  "clear_request_log st = st\<lparr>request_log := Map.empty, req_count := 0\<rparr>"

definition in_log :: "'d kv_store \<Rightarrow> string \<Rightarrow> bool" where
  "in_log st req_id \<longleftrightarrow> \<not> request_log st req_id = None"

definition log_req :: "string \<Rightarrow> 'd kv_store \<Rightarrow> 'd kv_store" where
  "log_req req_id st0 =
     (let st1 = st0\<lparr>req_count := req_count st0 + 1\<rparr>;
          st2 = (if req_count st1 mod request_log_garbage_at st1 = 0 then clear_request_log st1 else st1)
      in st2\<lparr>request_log := (request_log st2)(req_id \<mapsto> True)\<rparr>)"

definition clear_anti_entropy_log :: "'d kv_store \<Rightarrow> 'd kv_store" where
  "clear_anti_entropy_log st = st\<lparr>anti_entropy_log := Map.empty, anti_entropy_count := 0\<rparr>"

definition in_anti_entropy_log :: "'d kv_store \<Rightarrow> string \<Rightarrow> bool" where
  "in_anti_entropy_log st req_id \<longleftrightarrow> \<not> anti_entropy_log st req_id = None"

definition log_anti_entropy_req :: "string \<Rightarrow> 'd kv_store \<Rightarrow> 'd kv_store" where
  "log_anti_entropy_req req_id st0 =
     (let st1 = st0\<lparr>anti_entropy_count := anti_entropy_count st0 + 1\<rparr>;
          st2 = (if anti_entropy_count st1 mod anti_entropy_log_garbage_at st1 = 0
                 then clear_anti_entropy_log st1 else st1)
      in st2\<lparr>anti_entropy_log := (anti_entropy_log st2)(req_id \<mapsto> True)\<rparr>)"

section \<open>Partition\<close>

definition update_partition :: "int \<Rightarrow> int \<Rightarrow> 'd kv_store \<Rightarrow> 'd kv_store" where
  "update_partition p np st =
     (if np \<noteq> nr_slices st
      then clear_seen_deleted_log (clear_seen_log (st\<lparr>nr_slices := np, slice := p\<rparr>))
      else st)"

definition is_key_is_for_me :: "'d env \<Rightarrow> 'd kv_store \<Rightarrow> kv_store_key \<Rightarrow> bool res" where
  "is_key_is_for_me E st k = rbind (get_slice_for_key E st (key k)) (\<lambda>k_slice. Ret (slice st = k_slice))"

section \<open>Contract of the duplicate filters\<close>

locale dedup_log =
  fixes logged :: "'s \<Rightarrow> 'k \<Rightarrow> bool"
    and log_it :: "'k \<Rightarrow> 's \<Rightarrow> 's"
    and clear_it :: "'s \<Rightarrow> 's"
  assumes log_same: "logged (log_it k s) k"
    and log_other: "logged (log_it k s) k' \<Longrightarrow> k' = k \<or> logged s k'"
    and clear_none: "\<not> logged (clear_it s) k"
begin

text \<open>No false positive: what the filter reports as seen was logged at some point since it was empty.\<close>

lemma logged_only_if_logged: "logged (fold log_it ks s) k \<Longrightarrow> k \<in> set ks \<or> logged s k"
  by (induction ks arbitrary: s) (auto dest: log_other)

lemma logged_after_clear: "logged (fold log_it ks (clear_it s)) k \<Longrightarrow> k \<in> set ks"
  using logged_only_if_logged clear_none by blast

text \<open>The most recent entry is always in the filter, garbage collection included.\<close>

lemma last_is_logged: "ks \<noteq> [] \<Longrightarrow> logged (fold log_it ks s) (last ks)"
  by (cases ks rule: rev_cases) (auto simp: log_same)

end

lemmas log_defs =
  have_seen_def seen_it_def clear_seen_log_def have_seen_deleted_def seen_it_deleted_def
  clear_seen_deleted_log_def in_log_def log_req_def clear_request_log_def in_anti_entropy_log_def
  log_anti_entropy_req_def clear_anti_entropy_log_def

interpretation seen: dedup_log have_seen seen_it clear_seen_log
  by unfold_locales (auto simp: log_defs Let_def split: if_splits)

interpretation seen_del: dedup_log have_seen_deleted seen_it_deleted clear_seen_deleted_log
  by unfold_locales (auto simp: log_defs Let_def split: if_splits)

interpretation req: dedup_log in_log log_req clear_request_log
  by unfold_locales (auto simp: log_defs Let_def split: if_splits)

interpretation ae: dedup_log in_anti_entropy_log log_anti_entropy_req clear_anti_entropy_log
  by unfold_locales (auto simp: log_defs Let_def split: if_splits)

text \<open>The filters leave the databases and the partition alone.\<close>

lemma log_frame [simp]:
  "db (seen_it k st) = db st" "db_deleted (seen_it k st) = db_deleted st"
  "db_tmp_anti_entropy (seen_it k st) = db_tmp_anti_entropy st"
  "slice (seen_it k st) = slice st" "nr_slices (seen_it k st) = nr_slices st"
  "merge_function (seen_it k st) = merge_function st"
  "db (seen_it_deleted k st) = db st" "db_deleted (seen_it_deleted k st) = db_deleted st"
  "db_tmp_anti_entropy (seen_it_deleted k st) = db_tmp_anti_entropy st"
  "slice (seen_it_deleted k st) = slice st" "nr_slices (seen_it_deleted k st) = nr_slices st"
  "merge_function (seen_it_deleted k st) = merge_function st"
  "db (log_req r st) = db st" "db_deleted (log_req r st) = db_deleted st"
  "db_tmp_anti_entropy (log_req r st) = db_tmp_anti_entropy st"
  "slice (log_req r st) = slice st" "nr_slices (log_req r st) = nr_slices st"
  "merge_function (log_req r st) = merge_function st"
  "db (log_anti_entropy_req r st) = db st" "db_deleted (log_anti_entropy_req r st) = db_deleted st"
  "db_tmp_anti_entropy (log_anti_entropy_req r st) = db_tmp_anti_entropy st"
  "slice (log_anti_entropy_req r st) = slice st"
  "nr_slices (log_anti_entropy_req r st) = nr_slices st"
  "merge_function (log_anti_entropy_req r st) = merge_function st"
  by (simp_all add: log_defs Let_def)

lemma get_slice_cong:
  "nr_slices st = nr_slices st' \<Longrightarrow> get_slice_for_key E st = get_slice_for_key E st'"
  unfolding get_slice_for_key_def by (rule ext) (simp only:)

lemma get_slice_frame [simp]:
  "get_slice_for_key E (seen_it k st) = get_slice_for_key E st"
  "get_slice_for_key E (seen_it_deleted k st) = get_slice_for_key E st"
  "get_slice_for_key E (log_req r st) = get_slice_for_key E st"
  "get_slice_for_key E (log_anti_entropy_req r st) = get_slice_for_key E st"
  by (rule get_slice_cong, simp)+

section \<open>The slice of a key\<close>

definition slice_step :: "nat \<Rightarrow> nat" where
  "slice_step n = (2 ^ 64 - 1) div n"

lemma slice_step_bound: "n * slice_step n \<le> 2 ^ 64 - 1"
  unfolding slice_step_def by (rule times_div_less_eq_dividend)

lemma unat_max_word: "unat (- 1 :: 64 word) = 2 ^ 64 - 1"
  by (simp add: unsigned_minus_1_eq_mask mask_eq_exp_minus_1)

lemma word_step:
  assumes "1 \<le> n" "n < 2 ^ 31"
  shows "(- 1 :: 64 word) div word_of_int (int n) = of_nat (slice_step n)"
proof -
  have n: "unat (of_nat n :: 64 word) = n" using assms by (simp add: unat_of_nat)
  have "unat ((- 1 :: 64 word) div of_nat n) = (2 ^ 64 - 1) div n"
    by (simp add: unat_div n unat_max_word)
  moreover have "unat (of_nat (slice_step n) :: 64 word) = slice_step n"
  proof -
    have "slice_step n < 2 ^ 64"
      using slice_step_bound[of n] assms(1) by (cases n) (auto simp: slice_step_def)
    then show ?thesis by (simp add: unat_of_nat)
  qed
  ultimately show ?thesis by (simp add: word_unat_eq_iff slice_step_def)
qed

lemma unat_slice_bound:
  assumes "j \<le> n"
  shows "unat (of_nat (j * slice_step n) :: 64 word) = j * slice_step n"
proof -
  have "j * slice_step n < 2 ^ 64"
    by (rule le_less_trans[OF order_trans[OF mult_le_mono1[OF assms] slice_step_bound]]) simp
  then show ?thesis by (simp only: unat_of_nat) simp
qed

lemma slice_loop_finds:
  assumes "unat target \<le> n * slice_step n" "1 \<le> j" "j \<le> n"
  shows "\<exists>s. slice_loop target (of_nat (slice_step n)) (of_nat (j * slice_step n)) (int j) = Some (int s) \<and>
     j \<le> s \<and> s \<le> n \<and> unat target \<le> s * slice_step n \<and> (s = j \<or> (s - 1) * slice_step n < unat target)"
  using assms(2,3)
proof (induction "n - j" arbitrary: j)
  case (0 j)
  from 0 have "j = n" by simp
  then show ?case
    using assms(1) 0 by (subst slice_loop.simps) (simp add: word_less_nat_alt unat_slice_bound del: of_nat_mult)
next
  case (Suc d j)
  show ?case
  proof (cases "unat target \<le> j * slice_step n")
    case True
    then show ?thesis
      using Suc.prems by (subst slice_loop.simps) (simp add: word_less_nat_alt unat_slice_bound del: of_nat_mult)
  next
    case False
    have next': "of_nat (j * slice_step n) + of_nat (slice_step n) =
        (of_nat ((j + 1) * slice_step n) :: 64 word)" by (simp add: algebra_simps)
    obtain s where s: "slice_loop target (of_nat (slice_step n)) (of_nat ((j + 1) * slice_step n))
          (int (j + 1)) = Some (int s)"
        "j + 1 \<le> s" "s \<le> n" "unat target \<le> s * slice_step n"
        "s = j + 1 \<or> (s - 1) * slice_step n < unat target"
    proof -
      have "d = n - (j + 1)" "j + 1 \<le> n" using Suc.hyps(2) by simp_all
      with Suc.hyps(1)[of "j + 1"] show thesis using that by fastforce
    qed
    have "slice_loop target (of_nat (slice_step n)) (of_nat (j * slice_step n)) (int j) =
        slice_loop target (of_nat (slice_step n)) (of_nat ((j + 1) * slice_step n)) (int j + 1)"
      using False Suc.prems
      by (subst slice_loop.simps)
        (simp add: word_less_nat_alt unat_slice_bound next' Let_def del: of_nat_mult of_nat_add of_nat_Suc)
    moreover have "int (j + 1) = int j + 1" by simp
    ultimately have "slice_loop target (of_nat (slice_step n)) (of_nat (j * slice_step n)) (int j) =
        Some (int s)" using s(1) by (simp only:)
    with s False show ?thesis by (intro exI[of _ s]) auto
  qed
qed

lemma get_slice_for_key_range:
  assumes "nr_slices st = int n" "2 \<le> n" "n < 2 ^ 31" "unat (std_hash E k) \<le> n * slice_step n"
  shows "\<exists>s. get_slice_for_key E st k = Ret (int s) \<and> 1 \<le> s \<and> s \<le> n \<and>
     unat (std_hash E k) \<le> s * slice_step n \<and> (s = 1 \<or> (s - 1) * slice_step n < unat (std_hash E k))"
proof -
  have step: "(- 1 :: 64 word) div word_of_int (nr_slices st) = of_nat (slice_step n)"
    using word_step[of n] assms(1-3) by simp
  from slice_loop_finds[OF assms(4), of 1] assms(2) show ?thesis
    unfolding get_slice_for_key_def step Let_def using assms(1,2) by auto
qed

lemma slice_loop_never:
  assumes "slice_loop target step nx s = Some r"
  shows "target = - 1 \<longrightarrow> even (unat step) \<longrightarrow> odd (unat nx)"
proof (rule slice_loop.raw_induct[where P = "\<lambda>t st n s r. t = - 1 \<longrightarrow> even (unat st) \<longrightarrow> odd (unat n)",
        OF _ assms], intro impI)
  fix f :: "64 word \<Rightarrow> 64 word \<Rightarrow> 64 word \<Rightarrow> int \<Rightarrow> int option" and t st n :: "64 word" and s r
  assume IH: "\<And>t st n s r. f t st n s = Some r \<Longrightarrow> t = - 1 \<longrightarrow> even (unat st) \<longrightarrow> odd (unat n)"
    and eq: "(if n < t then let current = n; n' = current + st in
                if 0 < current \<and> n' < 0 then Some s else f t st n' (s + 1) else Some s) = Some r"
    and t: "t = - 1" and st: "even (unat st)"
  have par: "even (unat (n + st)) \<longleftrightarrow> even (unat n)"
    using st by (simp add: unat_word_ariths dvd_mod_iff)
  show "odd (unat n)"
  proof (cases "n < t")
    case True
    with eq t have "f t st (n + st) (s + 1) = Some r" by (simp add: Let_def)
    from IH[OF this] t st par show ?thesis by simp
  next
    case False
    then have "n = - 1" using t by (simp flip: word_order.not_eq_extremum)
    then show ?thesis by (simp add: unat_max_word)
  qed
qed

section \<open>Properties\<close>

text \<open>
  C40. Placement of keys: with \<open>n\<close> slices (at least two), every key whose hash does not exceed \<open>n\<close> steps gets
  a slice between 1 and \<open>n\<close>, namely the one whose half-open hash interval contains the hash. The loop
  returns for these keys, and no addition in it wraps around.
\<close>

theorem slice_of_key_is_its_interval:
  assumes "nr_slices st = int n" "2 \<le> n" "n < 2 ^ 31" "unat (std_hash E k) \<le> n * ((2 ^ 64 - 1) div n)"
  shows "\<exists>s. get_slice_for_key E st k = Ret (int s) \<and> 1 \<le> s \<and> s \<le> n \<and>
     unat (std_hash E k) \<le> s * ((2 ^ 64 - 1) div n) \<and>
     (s = 1 \<or> (s - 1) * ((2 ^ 64 - 1) div n) < unat (std_hash E k))"
  using get_slice_for_key_range[of st n E k] assms unfolding slice_step_def by blast

text \<open>
  The guard against overflow in the loop never fires: with six slices and the largest hash value the
  function does not return. The comparison \<^verbatim>\<open>next_current < 0\<close> is made on an unsigned value.
\<close>

theorem slice_of_key_may_not_return:
  assumes "nr_slices st = 6" "std_hash E k = - 1"
  shows "get_slice_for_key E st k = Hang"
proof -
  have step: "(- 1 :: 64 word) div word_of_int (nr_slices st) = of_nat (slice_step 6)"
    using word_step[of 6] assms(1) by simp
  have ev: "even (unat (of_nat (slice_step 6) :: 64 word))"
    by (simp add: slice_step_def)
  have "slice_loop (- 1) (of_nat (slice_step 6)) (of_nat (slice_step 6)) 1 = None"
    using slice_loop_never[of "- 1" "of_nat (slice_step 6)" "of_nat (slice_step 6)" 1] ev
    by (metis not_Some_eq)
  then show ?thesis
    unfolding get_slice_for_key_def step Let_def using assms by simp
qed

text \<open>
  The duplicate filter for writes has no false positives: a key reported as seen was given to
  \<^verbatim>\<open>seen_it\<close> after the filter was last cleared; and the most recent key is always reported, also when
  logging it triggered the periodic clean-up.
\<close>

theorem seen_filter_sound:
  "(have_seen (fold seen_it ks (clear_seen_log st)) k \<longrightarrow> k \<in> set ks) \<and>
   have_seen (seen_it k (fold seen_it ks st)) k"
  using seen.logged_after_clear seen.log_same by blast

text \<open>
  A change of the number of slices forgets every write and delete seen so far, so that keys that now
  belong to this node are accepted; the call changes nothing when the number of slices stays the same.
\<close>

theorem update_partition_effect:
  "np \<noteq> nr_slices st \<Longrightarrow> slice (update_partition p np st) = p \<and> nr_slices (update_partition p np st) = np \<and>
     \<not> have_seen (update_partition p np st) k \<and> \<not> have_seen_deleted (update_partition p np st) k \<and>
     db (update_partition p np st) = db st \<and> update_partition p' (nr_slices st) st = st"
  by (simp add: update_partition_def log_defs)

end
