(* ===== verification/Kv_Leveldb.thy ===== *)
theory Kv_Leveldb
  imports Kv_Store
begin

text \<open>
  The versioned store of a node, \<^verbatim>\<open>df_store/kv_store_leveldb.h\<close>: writing, removing and reading objects.

  A call takes the environment and the store and returns its outcome together with the store it left
  behind; on an exception the changes made before it stay. A file keeps one entry per surviving version,
  a directory a single entry into which concurrent writes are merged. Deleted versions are kept in a second
  database. \<open>main_value\<close> and \<open>deleted_value\<close> read the two databases through the archive: they are the
  abstraction that the lemmas about the operations are stated with.
\<close>

section \<open>Database access\<close>

definition get_db :: "'d env \<Rightarrow> string \<Rightarrow> 'd \<Rightarrow> bytes option" where
  "get_db E k database = (case ldb_get E database k of Found v \<Rightarrow> Some v | _ \<Rightarrow> None)"

definition kv_get :: "'d env \<Rightarrow> 'd kv_store \<Rightarrow> string \<Rightarrow> bytes option" where
  "kv_get E st k = get_db E k (db st)"

definition kv_get_deleted :: "'d env \<Rightarrow> 'd kv_store \<Rightarrow> string \<Rightarrow> bytes option" where
  "kv_get_deleted E st k = get_db E k (db_deleted st)"

definition deserialize_value :: "'d env \<Rightarrow> bytes \<Rightarrow> kv_store_value res" where
  "deserialize_value E b = of_option Archive_exception (dec_value E b)"

definition deserialize_metadata :: "'d env \<Rightarrow> bytes \<Rightarrow> metadata res" where
  "deserialize_metadata E b = of_option Archive_exception (dec_metadata E b)"

definition deserialize_attr :: "'d env \<Rightarrow> bytes \<Rightarrow> stat res" where
  "deserialize_attr E b = of_option Archive_exception (dec_attr E b)"

text \<open>Serialise and \<^verbatim>\<open>Put\<close>; \<open>n\<close> is what is added to the record count on success.\<close>

definition put_main :: "'d env \<Rightarrow> string \<Rightarrow> kv_store_value \<Rightarrow> long \<Rightarrow> 'd kv_store \<Rightarrow> bool res \<times> 'd kv_store" where
  "put_main E k value n st =
     (case ldb_put E (db st) k (enc_value E value) of (ok, d) \<Rightarrow>
        if ok then (Ret True, st\<lparr>db := d, record_count := record_count st + n\<rparr>)
        else (Ret False, st\<lparr>db := d\<rparr>))"

definition put_deleted :: "'d env \<Rightarrow> string \<Rightarrow> kv_store_value \<Rightarrow> 'd kv_store \<Rightarrow> bool res \<times> 'd kv_store" where
  "put_deleted E k value st =
     (case ldb_put E (db_deleted st) k (enc_value E value) of (ok, d) \<Rightarrow>
        if ok then (Ret True, st\<lparr>db_deleted := d, deleted_record_count := deleted_record_count st + 1\<rparr>)
        else (Ret False, st\<lparr>db_deleted := d\<rparr>))"

section \<open>Writing\<close>

definition put_with_merge ::
  "'d env \<Rightarrow> kv_store_key \<Rightarrow> bytes \<Rightarrow> 'd kv_store \<Rightarrow> bool res \<times> 'd kv_store" where
  "put_with_merge E k bytes st =
     on_ret st (get_slice_for_key E st (key k)) (\<lambda>k_slice.
       if slice st = k_slice then
         (let vd = \<lparr>vd_version = version k, vd_data = bytes\<rparr> in
          case kv_get E st (key k) of
            None \<Rightarrow> put_main E (key k) \<lparr>v_type = f_type k, vdata = [vd]\<rparr> 1 st
          | Some value_obj \<Rightarrow>
              on_ret st (deserialize_value E value_obj) (\<lambda>value.
                if v_type value = DIRECTORY then
                  on_ret st (vec_at (vdata value) 0) (\<lambda>old.
                    case comp_version (version k) (vd_version old) of
                      Concurrent \<Rightarrow>
                        on_ret st
                          (if client_id (version k) \<le> client_id (vd_version old)
                           then merge_function st bytes (vd_data old)
                           else merge_function st (vd_data old) bytes)
                          (\<lambda>merged_data.
                            put_main E (key k)
                              \<lparr>v_type = f_type k,
                               vdata = (vdata value)[0 :=
                                 \<lparr>vd_version = merge_kv (vd_version old) (version k),
                                  vd_data = merged_data\<rparr>]\<rparr> 1 st)
                    | Bigger \<Rightarrow>
                        put_main E (key k) \<lparr>v_type = f_type k, vdata = (vdata value)[0 := vd]\<rparr> 1 st
                    | _ \<Rightarrow> (Ret True, st))
                else (Ret False, st)))
       else (Ret False, st))"

definition put ::
  "'d env \<Rightarrow> kv_store_key \<Rightarrow> bytes \<Rightarrow> 'd kv_store \<Rightarrow> bool res \<times> 'd kv_store" where
  "put E k bytes st0 =
     (let st = seen_it k st0 in
      on_ret st (get_slice_for_key E st (key k)) (\<lambda>k_slice.
        if slice st = k_slice then
          if f_type k = DIRECTORY then put_with_merge E k bytes st
          else
            (let vd = \<lparr>vd_version = version k, vd_data = bytes\<rparr> in
             case kv_get E st (key k) of
               None \<Rightarrow> put_main E (key k) \<lparr>v_type = f_type k, vdata = [vd]\<rparr> 1 st
             | Some value_obj \<Rightarrow>
                 on_ret st (deserialize_value E value_obj) (\<lambda>value.
                   if v_type value = FILE then
                     put_main E (key k)
                       \<lparr>v_type = f_type k,
                        vdata = vinsert comp_version vd_version (version k) vd (vdata value)\<rparr> 1 st
                   else (Ret False, st)))
        else (Ret False, st)))"

section \<open>Removing\<close>

definition delete_main :: "'d env \<Rightarrow> string \<Rightarrow> 'd kv_store \<Rightarrow> bool res \<times> 'd kv_store" where
  "delete_main E k st =
     (case ldb_delete E (db st) k of (ok, d) \<Rightarrow>
        if ok then (Ret True, st\<lparr>db := d, record_count := record_count st - 1\<rparr>)
        else (Ret False, st\<lparr>db := d\<rparr>))"

definition remove_from_main_db ::
  "'d env \<Rightarrow> kv_store_key \<Rightarrow> 'd kv_store \<Rightarrow> bool res \<times> 'd kv_store" where
  "remove_from_main_db E k st =
     on_ret st (get_slice_for_key E st (key k)) (\<lambda>k_slice.
       if slice st = k_slice then
         (case kv_get E st (key k) of
            None \<Rightarrow> (Ret False, st)
          | Some data \<Rightarrow>
              on_ret st (deserialize_value E data) (\<lambda>value.
                if f_type k = DIRECTORY then
                  on_ret st (vec_at (vdata value) 0) (\<lambda>old.
                    if comp_version (version k) (vd_version old) \<in> {Lower, Equal}
                    then delete_main E (key k) st
                    else (Ret True, st))
                else
                  (let rest = filter (\<lambda>vd. comp_version (version k) (vd_version vd) \<notin> {Lower, Equal})
                                (vdata value)
                   in if rest = [] then delete_main E (key k) st
                      else put_main E (key k) (value\<lparr>vdata := rest\<rparr>) 0 st)))
       else (Ret False, st))"

text \<open>The value stored in the database of deleted keys after a removal.\<close>

definition deleted_after ::
  "'d env \<Rightarrow> kv_store_key \<Rightarrow> bytes option \<Rightarrow> kv_store_value res" where
  "deleted_after E k value_obj =
     (let vd = \<lparr>vd_version = version k, vd_data = []\<rparr> in
      case value_obj of
        None \<Rightarrow> Ret \<lparr>v_type = f_type k, vdata = [vd]\<rparr>
      | Some b \<Rightarrow>
          rbind (deserialize_value E b) (\<lambda>value.
            if f_type k = DIRECTORY then
              rbind (vec_at (vdata value) 0) (\<lambda>old.
                Ret \<lparr>v_type = f_type k,
                     vdata = (vdata value)[0 :=
                       (case comp_version (version k) (vd_version old) of
                          Bigger \<Rightarrow> old\<lparr>vd_version := version k\<rparr>
                        | Concurrent \<Rightarrow> old\<lparr>vd_version := merge_kv (vd_version old) (version k)\<rparr>
                        | _ \<Rightarrow> old)]\<rparr>)
            else
              Ret \<lparr>v_type = f_type k,
                   vdata = vinsert comp_version vd_version (version k) vd (vdata value)\<rparr>))"

definition kv_remove ::
  "'d env \<Rightarrow> kv_store_key \<Rightarrow> 'd kv_store \<Rightarrow> bool res \<times> 'd kv_store" where
  "kv_remove E k st0 =
     (let st = seen_it_deleted k st0 in
      on_ret st (get_slice_for_key E st (key k)) (\<lambda>k_slice.
        if slice st = k_slice then
          (case remove_from_main_db E k st of (r, st1) \<Rightarrow>
             on_ret st1 r (\<lambda>_.
               on_ret st1 (deleted_after E k (kv_get_deleted E st1 (key k))) (\<lambda>value.
                 put_deleted E (key k) value st1)))
        else (Ret False, st)))"

section \<open>Reading\<close>

fun any_version :: "(kVersionComp \<Rightarrow> bool) \<Rightarrow> kv_store_version \<Rightarrow> kv_store_version_data list \<Rightarrow> bool" where
  "any_version P v [] = False"
| "any_version P v (vd # vds) = (if P (comp_version v (vd_version vd)) then True else any_version P v vds)"

definition verify_if_version_exists_db :: "'d env \<Rightarrow> kv_store_key \<Rightarrow> 'd \<Rightarrow> bool res" where
  "verify_if_version_exists_db E k database =
     (case get_db E (key k) database of
        None \<Rightarrow> Ret False
      | Some b \<Rightarrow>
          rbind (deserialize_value E b) (\<lambda>value.
            if v_type value = DIRECTORY then
              rbind (vec_at (vdata value) 0) (\<lambda>old.
                Ret (comp_version (version k) (vd_version old) = Equal \<or>
                     comp_version (version k) (vd_version old) = Bigger))
            else Ret (any_version (\<lambda>c. c = Equal \<or> c = Bigger) (version k) (vdata value))))"

definition verify_if_version_exists :: "'d env \<Rightarrow> 'd kv_store \<Rightarrow> kv_store_key \<Rightarrow> bool res" where
  "verify_if_version_exists E st k = verify_if_version_exists_db E k (db st)"

definition verify_if_version_exists_in_deleted :: "'d env \<Rightarrow> 'd kv_store \<Rightarrow> kv_store_key \<Rightarrow> bool res" where
  "verify_if_version_exists_in_deleted E st k = verify_if_version_exists_db E k (db_deleted st)"

fun find_version :: "kv_store_version \<Rightarrow> kv_store_version_data list \<Rightarrow> bytes option" where
  "find_version v [] = None"
| "find_version v (vd # vds) = (if version_eq (vd_version vd) v then Some (vd_data vd) else find_version v vds)"

definition get_data :: "'d env \<Rightarrow> 'd kv_store \<Rightarrow> kv_store_key \<Rightarrow> bytes option res" where
  "get_data E st k =
     (case kv_get E st (key k) of
        None \<Rightarrow> Ret None
      | Some b \<Rightarrow>
          rbind (deserialize_value E b) (\<lambda>value.
            if v_type value = DIRECTORY then
              rbind (vec_at (vdata value) 0) (\<lambda>old.
                Ret (if version_eq (vd_version old) (version k) then Some (vd_data old) else None))
            else Ret (find_version (version k) (vdata value))))"

text \<open>The entries that \<^verbatim>\<open>get_latest_data_version\<close> and \<^verbatim>\<open>get_latest_version_db\<close> append to their output vectors;
  \<open>None\<close> when they return false.\<close>

definition latest_entries :: "'d env \<Rightarrow> string \<Rightarrow> 'd \<Rightarrow> kv_store_version_data list option res" where
  "latest_entries E k database =
     (case get_db E k database of
        None \<Rightarrow> Ret None
      | Some b \<Rightarrow>
          rbind (deserialize_value E b) (\<lambda>value.
            if v_type value = DIRECTORY then
              rbind (vec_at (vdata value) 0) (\<lambda>old. Ret (Some [old]))
            else Ret (Some (vdata value))))"

definition get_latest_data_version ::
  "'d env \<Rightarrow> 'd kv_store \<Rightarrow> string \<Rightarrow> (kv_store_version \<times> bytes) list option res" where
  "get_latest_data_version E st k =
     rbind (latest_entries E k (db st)) (\<lambda>r.
       Ret (map_option (map (\<lambda>vd. (vd_version vd, vd_data vd))) r))"

definition get_latest_version_db ::
  "'d env \<Rightarrow> string \<Rightarrow> 'd \<Rightarrow> kv_store_version list option res" where
  "get_latest_version_db E k database =
     rbind (latest_entries E k database) (\<lambda>r. Ret (map_option (map vd_version) r))"

definition get_latest_version :: "'d env \<Rightarrow> 'd kv_store \<Rightarrow> string \<Rightarrow> kv_store_version list option res" where
  "get_latest_version E st k = get_latest_version_db E k (db st)"

definition get_latest_deleted_version ::
  "'d env \<Rightarrow> 'd kv_store \<Rightarrow> string \<Rightarrow> kv_store_version list option res" where
  "get_latest_deleted_version E st k = get_latest_version_db E k (db_deleted st)"

section \<open>The abstraction: decoded databases\<close>

definition value_in :: "'d env \<Rightarrow> 'd \<Rightarrow> string \<Rightarrow> kv_store_value option" where
  "value_in E d k = (case get_db E k d of None \<Rightarrow> None | Some b \<Rightarrow> dec_value E b)"

abbreviation main_value :: "'d env \<Rightarrow> 'd kv_store \<Rightarrow> string \<Rightarrow> kv_store_value option" where
  "main_value E st \<equiv> value_in E (db st)"

abbreviation deleted_value :: "'d env \<Rightarrow> 'd kv_store \<Rightarrow> string \<Rightarrow> kv_store_value option" where
  "deleted_value E st \<equiv> value_in E (db_deleted st)"

text \<open>Every stored byte string is an archive of a value that has at least one version.\<close>

definition db_wf :: "'d env \<Rightarrow> 'd \<Rightarrow> bool" where
  "db_wf E d \<longleftrightarrow> (\<forall>k b. get_db E k d = Some b \<longrightarrow> (\<exists>v. dec_value E b = Some v \<and> vdata v \<noteq> []))"

definition store_wf :: "'d env \<Rightarrow> 'd kv_store \<Rightarrow> bool" where
  "store_wf E st \<longleftrightarrow> db_wf E (db st) \<and> db_wf E (db_deleted st)"

section \<open>Single database calls through the abstraction\<close>

lemma env_ok_dec [simp]: "env_ok E \<Longrightarrow> dec_value E (enc_value E v) = Some v"
  by (simp add: env_ok_def archive_ok_def)

lemma ldb_put_True:
  "env_ok E \<Longrightarrow> ldb_put E d k v = (True, d') \<Longrightarrow> ldb_get E d' = (ldb_get E d)(k := Found v)"
  unfolding env_ok_def leveldb_ok_def by blast

lemma get_db_put:
  assumes "env_ok E" "ldb_put E d k b = (ok, d')"
  shows "(\<forall>k'. get_db E k' d' = (if k' = k then Some b else get_db E k' d)) \<or>
     \<not> ok \<and> (\<forall>k'. get_db E k' d' = get_db E k' d)"
proof -
  have "ldb_get E d' = (ldb_get E d)(k := Found b) \<or> \<not> ok \<and> ldb_get E d' = ldb_get E d"
    using assms by (simp add: env_ok_def leveldb_ok_def)
  then show ?thesis by (auto simp: get_db_def)
qed

lemma get_db_delete:
  assumes "env_ok E" "ldb_delete E d k = (ok, d')"
  shows "(\<forall>k'. get_db E k' d' = (if k' = k then None else get_db E k' d)) \<or>
     \<not> ok \<and> (\<forall>k'. get_db E k' d' = get_db E k' d)"
proof -
  have "ldb_get E d' = (ldb_get E d)(k := NotFound) \<or> \<not> ok \<and> ldb_get E d' = ldb_get E d"
    using assms by (simp add: env_ok_def leveldb_ok_def)
  then show ?thesis by (auto simp: get_db_def)
qed

lemma value_in_put:
  "env_ok E \<Longrightarrow> ldb_put E d k (enc_value E v) = (True, d') \<Longrightarrow> value_in E d' = (value_in E d)(k \<mapsto> v)"
  using get_db_put[of E d k "enc_value E v" True d'] by (auto simp: value_in_def)

lemma value_in_delete:
  "env_ok E \<Longrightarrow> ldb_delete E d k = (True, d') \<Longrightarrow> value_in E d' = (value_in E d)(k := None)"
  using get_db_delete[of E d k True d'] by (auto simp: value_in_def)

lemma db_wf_put:
  "env_ok E \<Longrightarrow> ldb_put E d k (enc_value E v) = (ok, d') \<Longrightarrow> vdata v \<noteq> [] \<Longrightarrow> db_wf E d \<Longrightarrow> db_wf E d'"
  using get_db_put[of E d k "enc_value E v" ok d'] unfolding db_wf_def by (metis env_ok_dec option.inject)

lemma db_wf_delete:
  "env_ok E \<Longrightarrow> ldb_delete E d k = (ok, d') \<Longrightarrow> db_wf E d \<Longrightarrow> db_wf E d'"
  using get_db_delete[of E d k ok d'] unfolding db_wf_def by (metis option.distinct(1))

text \<open>In a well-formed database a lookup either finds nothing or an archive with a first version.\<close>

lemma db_wf_cases:
  assumes "db_wf E d"
  obtains "get_db E k d = None" "value_in E d k = None"
  | b v x xs where "get_db E k d = Some b" "dec_value E b = Some v" "value_in E d k = Some v" "vdata v = x # xs"
proof (cases "get_db E k d")
  case None
  then show thesis using that(1) by (simp add: value_in_def)
next
  case (Some b)
  with assms obtain v where "dec_value E b = Some v" "vdata v \<noteq> []" unfolding db_wf_def by blast
  with Some show thesis using that(2) by (cases "vdata v") (auto simp: value_in_def)
qed

lemma put_main_True:
  assumes "env_ok E" "put_main E k v n st = (Ret True, st')"
  shows "main_value E st' = (main_value E st)(k \<mapsto> v)" "db_deleted st' = db_deleted st"
    "db_wf E (db st) \<Longrightarrow> vdata v \<noteq> [] \<Longrightarrow> db_wf E (db st')"
    "nr_slices st' = nr_slices st" "slice st' = slice st"
    "record_count st' = record_count st + n"
  using assms by (auto simp: put_main_def value_in_put db_wf_put split: prod.splits if_splits)

lemma delete_main_True:
  assumes "env_ok E" "delete_main E k st = (Ret True, st')"
  shows "main_value E st' = (main_value E st)(k := None)" "db_deleted st' = db_deleted st"
    "db_wf E (db st) \<Longrightarrow> db_wf E (db st')"
  using assms by (auto simp: delete_main_def value_in_delete db_wf_delete split: prod.splits if_splits)

lemma put_deleted_True:
  assumes "env_ok E" "put_deleted E k v st = (Ret True, st')"
  shows "deleted_value E st' = (deleted_value E st)(k \<mapsto> v)" "db st' = db st"
    "db_wf E (db_deleted st) \<Longrightarrow> vdata v \<noteq> [] \<Longrightarrow> db_wf E (db_deleted st')"
  using assms by (auto simp: put_deleted_def value_in_put db_wf_put split: prod.splits if_splits)

text \<open>Whatever status a call reports, it leaves a well-formed store behind.\<close>

lemma put_main_wf:
  "env_ok E \<Longrightarrow> store_wf E st \<Longrightarrow> vdata v \<noteq> [] \<Longrightarrow> store_wf E (snd (put_main E k v n st))"
  by (auto simp: put_main_def store_wf_def intro: db_wf_put split: prod.splits)

lemma delete_main_wf: "env_ok E \<Longrightarrow> store_wf E st \<Longrightarrow> store_wf E (snd (delete_main E k st))"
  by (auto simp: delete_main_def store_wf_def intro: db_wf_delete split: prod.splits)

lemma put_deleted_wf:
  "env_ok E \<Longrightarrow> store_wf E st \<Longrightarrow> vdata v \<noteq> [] \<Longrightarrow> store_wf E (snd (put_deleted E k v st))"
  by (auto simp: put_deleted_def store_wf_def intro: db_wf_put split: prod.splits)

lemma store_wf_logs [simp]:
  "store_wf E (seen_it k st) = store_wf E st" "store_wf E (seen_it_deleted k st) = store_wf E st"
  "store_wf E (log_req r st) = store_wf E st" "store_wf E (log_anti_entropy_req r st) = store_wf E st"
  by (simp_all add: store_wf_def)

lemma on_ret_wf:
  assumes "store_wf E st" "\<And>a. m = Ret a \<Longrightarrow> store_wf E (snd (f a))"
  shows "store_wf E (snd (on_ret st m f))"
  using assms by (cases m) auto

lemmas db_call_True = put_main_True delete_main_True put_deleted_True

text \<open>The database calls themselves never throw, and a call that returns false leaves the logs alone.\<close>

lemma db_call_returns:
  "\<exists>b. fst (put_main E k v n st) = Ret b" "\<exists>b. fst (delete_main E k st) = Ret b"
  "\<exists>b. fst (put_deleted E k v st) = Ret b"
  by (auto simp: put_main_def delete_main_def put_deleted_def split: prod.splits)

lemma vinsert_not_Nil [simp]: "vinsert comp_version f v x xs \<noteq> []"
  by (rule cv.vinsert_cases[of xs v f x]) auto

section \<open>What a write does to the decoded database\<close>

text \<open>The abstract specification: the value a key has after an accepted write.\<close>

definition after_write :: "(bytes \<Rightarrow> bytes \<Rightarrow> bytes res) \<Rightarrow> kv_store_key \<Rightarrow> bytes \<Rightarrow>
    kv_store_value option \<Rightarrow> kv_store_value option" where
  "after_write merge k bytes cur =
     (let vd = \<lparr>vd_version = version k, vd_data = bytes\<rparr> in
      case (f_type k, cur) of
        (_, None) \<Rightarrow> Some \<lparr>v_type = f_type k, vdata = [vd]\<rparr>
      | (FILE, Some value) \<Rightarrow>
          if v_type value = FILE
          then Some \<lparr>v_type = FILE, vdata = vinsert comp_version vd_version (version k) vd (vdata value)\<rparr>
          else None
      | (DIRECTORY, Some value) \<Rightarrow>
          if v_type value = FILE then None
          else (case vdata value of [] \<Rightarrow> None | old # rest \<Rightarrow>
            (if ver_le (version k) (vd_version old) then Some value
             else if ver_le (vd_version old) (version k) then Some \<lparr>v_type = DIRECTORY, vdata = vd # rest\<rparr>
             else (case (if client_id (version k) \<le> client_id (vd_version old)
                         then merge bytes (vd_data old) else merge (vd_data old) bytes) of
                     Ret m \<Rightarrow> Some \<lparr>v_type = DIRECTORY, vdata =
                        \<lparr>vd_version = merge_kv (vd_version old) (version k), vd_data = m\<rparr> # rest\<rparr>
                   | _ \<Rightarrow> None))))"

lemma comp_version_le_split:
  "(case comp_version v w of Concurrent \<Rightarrow> c | Bigger \<Rightarrow> b | Lower \<Rightarrow> l | Equal \<Rightarrow> l) =
     (if ver_le v w then l else if ver_le w v then b else c)"
  by (auto simp: comp_version_cases split: if_splits)

lemma put_with_merge_True:
  assumes "env_ok E" "store_wf E st" "put_with_merge E k bytes st = (Ret True, st')" "f_type k = DIRECTORY"
  shows "\<exists>v. after_write (merge_function st) k bytes (main_value E st (key k)) = Some v \<and>
     main_value E st' = (main_value E st)(key k \<mapsto> v) \<and> vdata v \<noteq> [] \<and>
     db_deleted st' = db_deleted st \<and> (db_wf E (db st) \<longrightarrow> db_wf E (db st'))"
proof -
  have wf: "db_wf E (db st)" using assms(2) by (simp add: store_wf_def)
  from db_wf_cases[OF wf, of "key k"] show ?thesis
  proof cases
    case 1
    then show ?thesis using assms(1,3,4) put_main_True[OF assms(1)]
      by (auto simp: put_with_merge_def after_write_def kv_get_def split: if_splits)
  next
    case (2 b v x xs)
    have same: "main_value E st = (main_value E st)(key k \<mapsto> v)" using 2 by auto
    consider "ver_le (version k) (vd_version x)" | "\<not> ver_le (version k) (vd_version x)" "ver_le (vd_version x) (version k)"
      | "\<not> ver_le (version k) (vd_version x)" "\<not> ver_le (vd_version x) (version k)" by blast
    then show ?thesis
    proof cases
      case 1
      then show ?thesis
        using 2 assms(3,4) same
        by (auto simp: put_with_merge_def after_write_def kv_get_def deserialize_value_def
            comp_version_le_split split: if_splits FileType.splits)
    next
      case c: 2
      then show ?thesis
        using 2 assms(3,4) put_main_True[OF assms(1)]
        by (auto simp: put_with_merge_def after_write_def kv_get_def deserialize_value_def
            comp_version_le_split split: if_splits FileType.splits)
    next
      case 3
      then show ?thesis
        using 2 assms(3,4) put_main_True[OF assms(1)]
        by (auto simp: put_with_merge_def after_write_def kv_get_def deserialize_value_def
            comp_version_le_split split: if_splits FileType.splits)
    qed
  qed
qed

lemma put_True:
  assumes "env_ok E" "store_wf E st" "put E k bytes st = (Ret True, st')"
  shows "\<exists>v. after_write (merge_function st) k bytes (main_value E st (key k)) = Some v \<and>
     main_value E st' = (main_value E st)(key k \<mapsto> v) \<and> vdata v \<noteq> [] \<and>
     db_deleted st' = db_deleted st \<and> store_wf E st'"
proof (cases "f_type k")
  case DIRECTORY
  have "store_wf E (seen_it k st)" using assms(2) by (simp add: store_wf_def)
  moreover have "put_with_merge E k bytes (seen_it k st) = (Ret True, st')"
    using assms(3) DIRECTORY by (auto simp: put_def Let_def split: if_splits)
  ultimately show ?thesis
    using put_with_merge_True[OF assms(1), of "seen_it k st" k bytes st'] DIRECTORY assms(2)
    by (auto simp: store_wf_def)
next
  case FILE
  have wf: "db_wf E (db st)" using assms(2) by (simp add: store_wf_def)
  from db_wf_cases[OF wf, of "key k"] show ?thesis
  proof cases
    case 1
    then show ?thesis using assms FILE put_main_True[OF assms(1)]
      by (fastforce simp: put_def Let_def after_write_def kv_get_def store_wf_def split: if_splits)
  next
    case (2 b v x xs)
    then show ?thesis using assms FILE put_main_True[OF assms(1)]
      by (fastforce simp: put_def Let_def after_write_def kv_get_def deserialize_value_def store_wf_def
          split: if_splits)
  qed
qed

section \<open>What a removal does to the decoded databases\<close>

text \<open>The entries of a file that a removal keeps: those the removed version is newer than or concurrent with.\<close>

abbreviation survivors :: "kv_store_version \<Rightarrow> kv_store_version_data list \<Rightarrow> kv_store_version_data list" where
  "survivors v \<equiv> filter (\<lambda>vd. \<not> ver_le v (vd_version vd))"

lemma comp_version_le: "comp_version v w \<in> {Lower, Equal} \<longleftrightarrow> ver_le v w"
  by (auto simp: comp_version_cases split: if_splits)

lemma survivors_filter:
  "filter (\<lambda>vd. comp_version v (vd_version vd) \<notin> {Lower, Equal}) xs = survivors v xs"
  by (simp only: comp_version_le)

definition after_remove :: "kv_store_key \<Rightarrow> kv_store_value \<Rightarrow> kv_store_value option" where
  "after_remove k value =
     (if f_type k = DIRECTORY
      then (if ver_le (version k) (vd_version (hd (vdata value))) then None else Some value)
      else (if survivors (version k) (vdata value) = [] then None
            else Some (value\<lparr>vdata := survivors (version k) (vdata value)\<rparr>)))"

lemma remove_from_main_db_True:
  assumes "env_ok E" "store_wf E st" "remove_from_main_db E k st = (Ret True, st')"
  shows "\<exists>value. main_value E st (key k) = Some value \<and>
     main_value E st' = (main_value E st)(key k := after_remove k value) \<and> db_deleted st' = db_deleted st"
proof -
  have wf: "db_wf E (db st)" using assms(2) by (simp add: store_wf_def)
  from db_wf_cases[OF wf, of "key k"] show ?thesis
  proof cases
    case 1
    then show ?thesis using assms(3) by (auto simp: remove_from_main_db_def kv_get_def split: if_splits)
  next
    case (2 b v x xs)
    have same: "main_value E st = (main_value E st)(key k \<mapsto> v)" using 2 by auto
    show ?thesis
    proof (cases "f_type k")
      case DIRECTORY
      then show ?thesis using 2 assms(3) delete_main_True[OF assms(1)] same
        by (auto simp: remove_from_main_db_def kv_get_def deserialize_value_def after_remove_def
            comp_version_le simp del: insert_iff split: if_splits)
    next
      case FILE
      then show ?thesis using 2 assms(3) delete_main_True[OF assms(1)] put_main_True[OF assms(1)]
        by (auto simp: remove_from_main_db_def kv_get_def deserialize_value_def after_remove_def Let_def
            survivors_filter simp del: insert_iff filter.simps split: if_splits)
    qed
  qed
qed

lemma remove_from_main_db_wf:
  assumes "env_ok E" "store_wf E st"
  shows "store_wf E (snd (remove_from_main_db E k st))"
  unfolding remove_from_main_db_def Let_def using assms
  by (auto intro!: on_ret_wf delete_main_wf put_main_wf split: option.splits)

lemma deleted_after_not_Nil: "deleted_after E k b = Ret v \<Longrightarrow> vdata v \<noteq> []"
  by (auto simp: deleted_after_def Let_def vec_at_def split: option.splits if_splits)

lemma remove_from_main_db_deleted [simp]: "db_deleted (snd (remove_from_main_db E k st)) = db_deleted st"
proof -
  have *: "(\<And>a. db_deleted (snd (f a)) = db_deleted st) \<Longrightarrow> db_deleted (snd (on_ret st m f)) = db_deleted st"
    for m :: "'x res" and f :: "'x \<Rightarrow> bool res \<times> 'a kv_store" by (cases m) auto
  show ?thesis
    unfolding remove_from_main_db_def Let_def
    by (auto intro!: * simp: delete_main_def put_main_def split: option.splits prod.splits)
qed

text \<open>\<open>covers vds w\<close>: an entry of the list is at least as new as \<open>w\<close>.\<close>

abbreviation covers :: "kv_store_version_data list \<Rightarrow> kv_store_version \<Rightarrow> bool" where
  "covers vds w \<equiv> (\<exists>vd\<in>set vds. ver_le w (vd_version vd))"

lemma covered_covers: "cv.covered vd_version vds w \<longleftrightarrow> covers vds w"
  unfolding cv.covered_def comp_version_le ..

lemma vinsert_covers:
  assumes "vd_version x = v"
  shows "covers (vinsert comp_version vd_version v x vds) v"
    "covers vds w \<Longrightarrow> covers (vinsert comp_version vd_version v x vds) w"
  using cv.vinsert_covers_new[of vd_version x v vds] cv.vinsert_covers_old[of vd_version vds w x v] assms
  unfolding covered_covers by blast+

lemma deleted_after_covers:
  assumes "deleted_after E k b = Ret v"
  shows "covers (vdata v) (version k)" "v_type v = f_type k"
    "b = Some bs \<Longrightarrow> dec_value E bs = Some old \<Longrightarrow> covers (vdata old) w \<Longrightarrow> covers (vdata v) w"
proof -
  let ?vd = "\<lparr>vd_version = version k, vd_data = []\<rparr>"
  show "v_type v = f_type k"
    using assms by (auto simp: deleted_after_def Let_def deserialize_value_def split: option.splits if_splits)
  consider "b = None" | bs old where "b = Some bs" "dec_value E bs = Some old" "f_type k = FILE"
    | bs old x xs where "b = Some bs" "dec_value E bs = Some old" "f_type k = DIRECTORY" "vdata old = x # xs"
    using assms by (cases "f_type k")
      (auto simp: deleted_after_def Let_def deserialize_value_def vec_at_def neq_Nil_conv split: option.splits if_splits)
  note cs = this
  show "covers (vdata v) (version k)"
    by (rule cs) (use assms vinsert_covers(1)[of ?vd] merge_kv_upper in
      \<open>auto simp: deleted_after_def Let_def deserialize_value_def comp_version_cases split: if_splits\<close>)
  show "b = Some bs \<Longrightarrow> dec_value E bs = Some old \<Longrightarrow> covers (vdata old) w \<Longrightarrow> covers (vdata v) w"
    by (rule cs) (use assms vinsert_covers(2)[of ?vd "version k" "vdata old" w] in
      \<open>auto simp: deleted_after_def Let_def deserialize_value_def comp_version_cases
         intro: vv_le_trans vv_le_trans[OF _ merge_kv_upper(1)] split: if_splits\<close>)
qed

lemma kv_remove_True:
  assumes "env_ok E" "kv_remove E k st = (Ret True, st')"
  shows "\<exists>v. deleted_after E k (get_db E (key k) (db_deleted st)) = Ret v \<and>
     deleted_value E st' = (deleted_value E st)(key k \<mapsto> v)"
proof -
  obtain r st1 where r: "remove_from_main_db E k (seen_it_deleted k st) = (r, st1)" by fastforce
  have "db_deleted st1 = db_deleted st"
    using remove_from_main_db_deleted[of E k "seen_it_deleted k st"] r by simp
  with assms r put_deleted_True(1)[OF assms(1)] show ?thesis
    by (auto simp: kv_remove_def Let_def kv_get_deleted_def split: if_splits)
qed

lemma kv_remove_wf: "env_ok E \<Longrightarrow> store_wf E st \<Longrightarrow> store_wf E (snd (kv_remove E k st))"
  using remove_from_main_db_wf[of E "seen_it_deleted k st" k]
  by (auto simp: kv_remove_def Let_def
      intro!: on_ret_wf put_deleted_wf dest: deleted_after_not_Nil split: prod.splits)

lemma put_with_merge_wf: "env_ok E \<Longrightarrow> store_wf E st \<Longrightarrow> store_wf E (snd (put_with_merge E k bytes st))"
  unfolding put_with_merge_def Let_def
  by (auto intro!: on_ret_wf put_main_wf simp: vec_at_def split: option.splits kVersionComp.splits if_splits)

lemma put_wf: "env_ok E \<Longrightarrow> store_wf E st \<Longrightarrow> store_wf E (snd (put E k bytes st))"
  unfolding put_def Let_def
  by (auto intro!: on_ret_wf put_main_wf put_with_merge_wf split: option.splits)

section \<open>What the reads return\<close>

lemma find_version_Some:
  "vd \<in> set vds \<Longrightarrow> distinct (map vd_version vds) \<Longrightarrow> find_version (vd_version vd) vds = Some (vd_data vd)"
  by (induction vds) auto

lemma find_version_None: "v \<notin> vd_version ` set vds \<Longrightarrow> find_version v vds = None"
  by (induction vds) auto

lemma find_version_mid:
  "v \<notin> vd_version ` set ys \<Longrightarrow> find_version v (ys @ vd # zs) = (if vd_version vd = v then Some (vd_data vd) else find_version v zs)"
  by (induction ys) auto

lemma any_version_iff: "any_version P v vds \<longleftrightarrow> (\<exists>vd\<in>set vds. P (comp_version v (vd_version vd)))"
  by (induction vds) auto

lemma comp_version_ge: "comp_version v w = Equal \<or> comp_version v w = Bigger \<longleftrightarrow> ver_le w v"
  by (auto simp: comp_version_cases dest: vv_le_antisym split: if_splits)

lemma get_data_value:
  assumes "store_wf E st"
  shows "get_data E st k =
    Ret (case main_value E st (key k) of None \<Rightarrow> None
         | Some v \<Rightarrow> if v_type v = DIRECTORY then find_version (version k) [hd (vdata v)]
                     else find_version (version k) (vdata v))"
proof -
  have "db_wf E (db st)" using assms by (simp add: store_wf_def)
  from db_wf_cases[OF this, of "key k"] show ?thesis
    by cases (auto simp: get_data_def kv_get_def deserialize_value_def)
qed

text \<open>The entries a read of the latest version reports: all of a file's, the single one of a directory.\<close>

definition entries_of :: "kv_store_value option \<Rightarrow> kv_store_version_data list" where
  "entries_of v = (case v of None \<Rightarrow> [] | Some v \<Rightarrow> if v_type v = DIRECTORY then [hd (vdata v)] else vdata v)"

lemma entries_of_simps [simp]:
  "entries_of None = []" "v_type v = FILE \<Longrightarrow> entries_of (Some v) = vdata v"
  "v_type v = DIRECTORY \<Longrightarrow> entries_of (Some v) = [hd (vdata v)]"
  by (simp_all add: entries_of_def)

lemma latest_entries_value:
  assumes "db_wf E d"
  shows "latest_entries E k d = Ret (if value_in E d k = None then None else Some (entries_of (value_in E d k)))"
  using assms by (rule db_wf_cases[of E d k])
    (auto simp: latest_entries_def entries_of_def deserialize_value_def)

lemma verify_value:
  assumes "db_wf E d"
  shows "verify_if_version_exists_db E k d =
    Ret (\<exists>vd \<in> set (entries_of (value_in E d (key k))). ver_le (vd_version vd) (version k))"
  using assms by (rule db_wf_cases[of E d "key k"])
    (auto simp: verify_if_version_exists_db_def entries_of_def deserialize_value_def any_version_iff
      comp_version_ge split: FileType.splits)

abbreviation stored :: "'d env \<Rightarrow> 'd kv_store \<Rightarrow> string \<Rightarrow> kv_store_version_data list" where
  "stored E st k \<equiv> entries_of (main_value E st k)"

abbreviation stored_deleted :: "'d env \<Rightarrow> 'd kv_store \<Rightarrow> string \<Rightarrow> kv_store_version_data list" where
  "stored_deleted E st k \<equiv> entries_of (deleted_value E st k)"

lemma vinsert_Nil [simp]: "vinsert cmp f v x [] = [x]"
  by (simp add: vinsert_def)

lemma after_write_file:
  assumes "after_write m k bytes cur = Some v" "f_type k = FILE"
  shows "v = \<lparr>v_type = FILE, vdata = vinsert comp_version vd_version (version k)
           \<lparr>vd_version = version k, vd_data = bytes\<rparr> (entries_of cur)\<rparr>"
  using assms by (cases cur) (auto simp: after_write_def Let_def split: if_splits)

lemma vv_merge_absorb:
  assumes "ver_le a b"
  shows "vv (merge_kv a b) = vv b" "vv (merge_kv b a) = vv b"
  using merge_kv_upper(2)[of b a] merge_kv_least[OF assms, of b] by (simp_all add: vv_le_antisym mk.commute)

lemma after_write_dir:
  assumes "after_write m k bytes cur = Some v" "f_type k = DIRECTORY"
  shows "cur = None \<and> v = \<lparr>v_type = DIRECTORY, vdata = [\<lparr>vd_version = version k, vd_data = bytes\<rparr>]\<rparr> \<or>
    (\<exists>old new. entries_of cur = [old] \<and> entries_of (Some v) = [new] \<and>
       vv (vd_version new) = vv (merge_kv (vd_version old) (version k)) \<and>
       client_id (vd_version new) \<in> {client_id (vd_version old), client_id (version k)})"
proof (cases cur)
  case (Some val)
  with assms obtain old rest where t: "v_type val = DIRECTORY" "vdata val = old # rest"
    by (auto simp: after_write_def Let_def split: if_splits list.splits)
  show ?thesis
  proof (cases "ver_le (version k) (vd_version old) \<or> ver_le (vd_version old) (version k)")
    case True
    then show ?thesis using assms Some t vv_merge_absorb
      by (auto simp: after_write_def Let_def split: if_splits)
  next
    case False
    then show ?thesis using assms Some t
      by (auto simp: after_write_def Let_def min_def split: if_splits res.splits)
  qed
qed (use assms in \<open>auto simp: after_write_def Let_def\<close>)

lemma put_file_stored:
  assumes "env_ok E" "store_wf E st" "f_type k = FILE" "put E k bytes st = (Ret True, st')"
  shows "stored E st' (key k) =
      vinsert comp_version vd_version (version k) \<lparr>vd_version = version k, vd_data = bytes\<rparr> (stored E st (key k))"
    "k' \<noteq> key k \<Longrightarrow> main_value E st' k' = main_value E st k'"
    "db_deleted st' = db_deleted st" "store_wf E st'"
    "main_value E st' (key k) = Some \<lparr>v_type = FILE, vdata = stored E st' (key k)\<rparr>"
proof -
  obtain v where v: "after_write (merge_function st) k bytes (main_value E st (key k)) = Some v"
    "main_value E st' = (main_value E st)(key k \<mapsto> v)" "db_deleted st' = db_deleted st" "store_wf E st'"
    using put_True[OF assms(1,2,4)] by blast
  note v(2-4) [simp] after_write_file[OF v(1) assms(3), simp]
  show "stored E st' (key k) =
      vinsert comp_version vd_version (version k) \<lparr>vd_version = version k, vd_data = bytes\<rparr> (stored E st (key k))"
    "k' \<noteq> key k \<Longrightarrow> main_value E st' k' = main_value E st k'" "db_deleted st' = db_deleted st" "store_wf E st'"
    "main_value E st' (key k) = Some \<lparr>v_type = FILE, vdata = stored E st' (key k)\<rparr>"
    by simp_all
qed

lemma put_dir_stored:
  assumes "env_ok E" "store_wf E st" "f_type k = DIRECTORY" "put E k bytes st = (Ret True, st')"
  shows "stored E st (key k) = [] \<and> stored E st' (key k) = [\<lparr>vd_version = version k, vd_data = bytes\<rparr>] \<or>
      (\<exists>old new. stored E st (key k) = [old] \<and> stored E st' (key k) = [new] \<and>
         vv (vd_version new) = vv (merge_kv (vd_version old) (version k)))"
    "store_wf E st'"
proof -
  obtain v where v: "after_write (merge_function st) k bytes (main_value E st (key k)) = Some v"
    "main_value E st' = (main_value E st)(key k \<mapsto> v)" "store_wf E st'"
    using put_True[OF assms(1,2,4)] by blast
  show "store_wf E st'" by fact
  show "stored E st (key k) = [] \<and> stored E st' (key k) = [\<lparr>vd_version = version k, vd_data = bytes\<rparr>] \<or>
      (\<exists>old new. stored E st (key k) = [old] \<and> stored E st' (key k) = [new] \<and>
         vv (vd_version new) = vv (merge_kv (vd_version old) (version k)))"
    using after_write_dir[OF v(1) assms(3)] v(2) by fastforce
qed

section \<open>Properties\<close>

text \<open>
  C6. No write is lost: when a write of a file returns true, the written version is covered by the
  versions stored for the key (it is stored, or a version at least as new is), every version that was covered before
  still is, and neither the other keys nor the deleted keys change.
\<close>

theorem put_keeps_every_version:
  assumes "env_ok E" "store_wf E st" "f_type k = FILE" "put E k bytes st = (Ret True, st')"
  shows "covers (stored E st' (key k)) (version k) \<and>
     (\<forall>w. covers (stored E st (key k)) w \<longrightarrow> covers (stored E st' (key k)) w) \<and>
     (\<forall>k'. k' \<noteq> key k \<longrightarrow> main_value E st' k' = main_value E st k') \<and> db_deleted st' = db_deleted st"
  using put_file_stored[OF assms] vinsert_covers[of "\<lparr>vd_version = version k, vd_data = bytes\<rparr>" "version k"] by simp

text \<open>
  C9. Read your write: after an accepted write of a file whose version is not older than or equal to a stored one,
  \<^verbatim>\<open>get_data\<close> for exactly that version returns the written bytes.
\<close>

theorem put_then_get_data:
  assumes "env_ok E" "store_wf E st" "f_type k = FILE" "put E k bytes st = (Ret True, st')"
    and "\<forall>vd\<in>set (stored E st (key k)). \<not> ver_le (version k) (vd_version vd)"
  shows "get_data E st' k = Ret (Some bytes)"
proof -
  let ?x = "\<lparr>vd_version = version k, vd_data = bytes\<rparr>"
  have new: "version k \<notin> vd_version ` set (stored E st (key k))" using assms(5) by auto
  have "find_version (version k) (vinsert comp_version vd_version (version k) ?x (stored E st (key k))) = Some bytes"
  proof (rule cv.vinsert_cases[of "stored E st (key k)" "version k" vd_version ?x])
    assume "\<exists>y\<in>set (stored E st (key k)). comp_version (version k) (vd_version y) \<in> {Lower, Equal}"
    with assms(5) show ?thesis by (auto simp: comp_version_le simp del: insert_iff)
  qed (use new in \<open>auto simp: find_version_mid image_Un\<close>)
  then show ?thesis
    using put_file_stored(1,4,5)[OF assms(1-4)] by (simp add: get_data_value)
qed

text \<open>
  C10. Directories converge: the version vector stored for a directory after an accepted write is the least upper
  bound of the stored vector and the written one, whichever way the two compare.
\<close>

theorem put_directory_joins_versions:
  assumes "env_ok E" "store_wf E st" "f_type k = DIRECTORY" "put E k bytes st = (Ret True, st')"
  shows "\<exists>new. stored E st' (key k) = [new] \<and>
     (\<forall>c. slookup (vv (vd_version new)) c =
        (case stored E st (key k) of [] \<Rightarrow> slookup (vv (version k)) c
         | old # _ \<Rightarrow> omax (slookup (vv (vd_version old)) c) (slookup (vv (version k)) c)))"
  using put_dir_stored(1)[OF assms] by (auto simp: slookup_merge_kv)

text \<open>
  Errors of a write: a key of another slice, and a file written over a directory or the reverse, are refused with
  false; the databases stay as they were, but the key is marked as seen.
\<close>

theorem put_refused:
  assumes "store_wf E st" "get_slice_for_key E st (key k) = Ret s"
    and "s \<noteq> slice st \<or> (\<exists>v. main_value E st (key k) = Some v \<and> v_type v \<noteq> f_type k)"
  shows "put E k bytes st = (Ret False, seen_it k st)"
proof -
  have "db_wf E (db st)" using assms(1) by (simp add: store_wf_def)
  from db_wf_cases[OF this, of "key k"] show ?thesis
    by cases (use assms(2,3) in \<open>auto simp: put_def put_with_merge_def Let_def kv_get_def deserialize_value_def\<close>)
qed

text \<open>
  C26. Invariant of the databases: every stored byte string stays an archive of a value with at least one version, whatever
  the outcome of a write or a removal (an exception or a database error included); on such a store no read
  throws.
\<close>

theorem store_wf_invariant:
  assumes "env_ok E" "store_wf E st"
  shows "store_wf E (snd (put E k bytes st)) \<and> store_wf E (snd (kv_remove E k st)) \<and>
     (\<exists>r. get_data E st k = Ret r) \<and> (\<exists>r. get_latest_data_version E st (key k) = Ret r) \<and>
     (\<exists>r. get_latest_version E st (key k) = Ret r) \<and> (\<exists>r. verify_if_version_exists E st k = Ret r)"
  using assms(2) put_wf[OF assms] kv_remove_wf[OF assms]
  by (simp add: get_data_value get_latest_data_version_def get_latest_version_def get_latest_version_db_def
      verify_if_version_exists_def latest_entries_value verify_value store_wf_def)

text \<open>
  What a removal erases: a successful removal of a file from the main database keeps exactly the entries whose
  version is not at least as new as the removed version. Entries newer than the removed version are erased with it,
  older ones stay.
\<close>

theorem remove_keeps_only_older_or_concurrent:
  assumes "env_ok E" "store_wf E st" "f_type k = FILE" "v_type v = FILE" "main_value E st (key k) = Some v"
    and "remove_from_main_db E k st = (Ret True, st')"
  shows "stored E st' (key k) = filter (\<lambda>vd. \<not> ver_le (version k) (vd_version vd)) (vdata v) \<and>
     (\<forall>k'. k' \<noteq> key k \<longrightarrow> main_value E st' k' = main_value E st k') \<and> db_deleted st' = db_deleted st"
  using remove_from_main_db_True[OF assms(1,2,6)] assms(3-5) by (auto simp: after_remove_def)

text \<open>
  C25. Deletions are remembered: when a removal returns true, the database of deleted keys covers the removed version under
  the type of the request, every deletion it covered before is still covered, and no other deleted key changed.
\<close>

theorem remove_records_deletion:
  assumes "env_ok E" "store_wf E st" "kv_remove E k st = (Ret True, st')"
  shows "\<exists>v. deleted_value E st' (key k) = Some v \<and> v_type v = f_type k \<and> covers (vdata v) (version k) \<and>
     (\<forall>old w. deleted_value E st (key k) = Some old \<and> covers (vdata old) w \<longrightarrow> covers (vdata v) w) \<and>
     (\<forall>k'. k' \<noteq> key k \<longrightarrow> deleted_value E st' k' = deleted_value E st k')"
proof -
  obtain v where v: "deleted_after E k (get_db E (key k) (db_deleted st)) = Ret v"
    "deleted_value E st' = (deleted_value E st)(key k \<mapsto> v)"
    using kv_remove_True[OF assms(1,3)] by blast
  have "covers (vdata old) w \<Longrightarrow> covers (vdata v) w" if "deleted_value E st (key k) = Some old" for old w
    using that deleted_after_covers(3)[OF v(1)] by (auto simp: value_in_def split: option.splits)
  with v deleted_after_covers(1,2)[OF v(1)] show ?thesis by auto
qed

text \<open>
  \<^verbatim>\<open>verify_if_version_exists\<close> answers whether the store holds a version of the key that is equal to or older than
  the one asked for.
\<close>

theorem verify_if_version_exists_meaning:
  assumes "store_wf E st"
  shows "verify_if_version_exists E st k =
     Ret (\<exists>vd \<in> set (stored E st (key k)). ver_le (vd_version vd) (version k))"
  using assms by (simp add: verify_if_version_exists_def verify_value store_wf_def)

text \<open>
  A write that supersedes two concurrent versions replaces only the first: the other stays and is
  still reported as a latest version although the written version is newer.
\<close>

theorem put_leaves_superseded_sibling:
  assumes "env_ok E" "store_wf E st" "f_type k = FILE" "put E k bytes st = (Ret True, st')"
    and "stored E st (key k) = [a, b]"
    and "comp_version (version k) (vd_version a) = Bigger" "comp_version (version k) (vd_version b) = Bigger"
  shows "get_latest_version E st' (key k) = Ret (Some [version k, vd_version b])"
proof -
  have "stored E st' (key k) = [\<lparr>vd_version = version k, vd_data = bytes\<rparr>, b]"
    using put_file_stored(1)[OF assms(1-4)] assms(5,6) by (simp add: vinsert_def)
  with put_file_stored(4,5)[OF assms(1-4)] show ?thesis
    by (simp add: get_latest_version_def get_latest_version_db_def latest_entries_value store_wf_def)
qed

end
