(* ===== verification/Kv_Transfer.thy ===== *)
theory Kv_Transfer
  imports Kv_Leveldb
begin

text \<open>
  The rest of \<^verbatim>\<open>df_store/kv_store_leveldb.h\<close>: partial updates of directory metadata, the key samples and filters
  of the anti-entropy protocol, the temporary database in which the blocks of a large directory are collected, the
  state transfer to a recovering node, and cleaning.

  \<^verbatim>\<open>std::unordered_map\<close> and \<^verbatim>\<open>std::unordered_set\<close> of keys are lists without duplicates, in insertion order. The
  random start of a sample is the argument \<open>pick\<close>: applied to the upper bound of the distribution it gives the number
  drawn. A throw in the middle of a filter loses the partly filtered container, as in the callers.
\<close>

section \<open>Partial updates of a directory\<close>

text \<open>\<^verbatim>\<open>merge_metadata\<close> on serialised metadata, the merge function every node is started with.\<close>

definition merge_metadata_bytes :: "'d env \<Rightarrow> bytes \<Rightarrow> bytes \<Rightarrow> bytes res" where
  "merge_metadata_bytes E b new_b =
     rbind (deserialize_metadata E b) (\<lambda>met1.
       rbind (deserialize_metadata E new_b) (\<lambda>met2. Ret (enc_metadata E (merge_metadata met1 met2))))"

definition put_metadata_child ::
  "'d env \<Rightarrow> kv_store_key \<Rightarrow> string \<Rightarrow> bool \<Rightarrow> bool \<Rightarrow> 'd kv_store \<Rightarrow> bool res \<times> 'd kv_store" where
  "put_metadata_child E k child_path is_create is_dir st0 =
     (let st = seen_it k st0 in
      on_ret st (get_slice_for_key E st (key k)) (\<lambda>k_slice.
        if slice st = k_slice then
          (case kv_get E st (key k) of
             None \<Rightarrow> (Ret False, st)
           | Some value_obj \<Rightarrow>
               on_ret st (deserialize_value E value_obj) (\<lambda>value.
                 if v_type value = DIRECTORY then
                   on_ret st (vec_at (vdata value) 0) (\<lambda>old.
                     if comp_version (version k) (vd_version old) \<in> {Lower, Equal} then (Ret True, st)
                     else
                       on_ret st (deserialize_metadata E (vd_data old)) (\<lambda>met.
                         (let met' = met\<lparr>childs := (if is_create then add_child child_path is_dir (childs met)
                                                    else remove_child child_path is_dir (childs met))\<rparr>
                          in put_main E (key k)
                               (value\<lparr>vdata := (vdata value)[0 :=
                                  \<lparr>vd_version = merge_kv (vd_version old) (version k),
                                   vd_data = enc_metadata E met'\<rparr>]\<rparr>) 0 st)))
                 else (Ret False, st)))
        else (Ret False, st)))"

definition put_metadata_stat ::
  "'d env \<Rightarrow> kv_store_key \<Rightarrow> bytes \<Rightarrow> 'd kv_store \<Rightarrow> bool res \<times> 'd kv_store" where
  "put_metadata_stat E k bytes st0 =
     (let st = seen_it k st0 in
      on_ret st (get_slice_for_key E st (key k)) (\<lambda>k_slice.
        if slice st = k_slice then
          on_ret st (deserialize_attr E bytes) (\<lambda>met_attr.
            (let new_met = metadata_of_attr met_attr in
             case kv_get E st (key k) of
               None \<Rightarrow>
                 put_main E (key k)
                   \<lparr>v_type = DIRECTORY,
                    vdata = [\<lparr>vd_version = version k, vd_data = enc_metadata E new_met\<rparr>]\<rparr> 1 st
             | Some value_obj \<Rightarrow>
                 on_ret st (deserialize_value E value_obj) (\<lambda>value.
                   on_ret st (vec_at (vdata value) 0) (\<lambda>old.
                     if comp_version (version k) (vd_version old) \<in> {Lower, Equal} then (Ret True, st)
                     else
                       on_ret st (deserialize_metadata E (vd_data old)) (\<lambda>met.
                         put_main E (key k)
                           (value\<lparr>vdata := (vdata value)[0 :=
                              \<lparr>vd_version = merge_kv (vd_version old) (version k),
                               vd_data = enc_metadata E (merge_attr new_met met)\<rparr>]\<rparr>) 0 st)))))
        else (Ret False, st)))"

definition get_metadata_size ::
  "'d env \<Rightarrow> 'd kv_store \<Rightarrow> string \<Rightarrow> (kv_store_version \<times> bytes) list option res" where
  "get_metadata_size E st k =
     rbind (get_latest_data_version E st k) (\<lambda>r.
       Ret (map_option (map (\<lambda>(v, d). (v, to_string (int (length d))))) r))"

fun stat_entries :: "'d env \<Rightarrow> (kv_store_version \<times> bytes) list \<Rightarrow> (kv_store_version \<times> bytes) list res" where
  "stat_entries E [] = Ret []"
| "stat_entries E ((v, d) # xs) =
     rbind (deserialize_metadata E d) (\<lambda>met.
       rbind (stat_entries E xs) (\<lambda>ys. Ret ((v, enc_attr E (attr met)) # ys)))"

definition get_metadata_stat ::
  "'d env \<Rightarrow> 'd kv_store \<Rightarrow> string \<Rightarrow> (kv_store_version \<times> bytes) list option res" where
  "get_metadata_stat E st k =
     rbind (get_latest_data_version E st k) (\<lambda>r.
       case r of None \<Rightarrow> Ret None | Some xs \<Rightarrow> rbind (stat_entries E xs) (\<lambda>ys. Ret (Some ys)))"

section \<open>Counting the keys\<close>

definition nr_entries :: "kv_store_value \<Rightarrow> long" where
  "nr_entries value = (if v_type value = DIRECTORY then 1 else int (length (vdata value)))"

fun count_loop :: "'d env \<Rightarrow> (string \<times> bytes) list \<Rightarrow> long \<Rightarrow> long res" where
  "count_loop E [] n = Ret n"
| "count_loop E ((k, b) # xs) n =
     rbind (deserialize_value E b) (\<lambda>value. count_loop E xs (n + nr_entries value))"

definition refresh_nr_keys_count :: "'d env \<Rightarrow> 'd \<Rightarrow> long res" where
  "refresh_nr_keys_count E database =
     (case ldb_scan E database of (xs, ok) \<Rightarrow>
        rbind (count_loop E xs 0) (\<lambda>n. Ret (if ok then n else - 1)))"

definition refresh_nr_main_keys_count :: "'d env \<Rightarrow> 'd kv_store \<Rightarrow> unit res \<times> 'd kv_store" where
  "refresh_nr_main_keys_count E st =
     on_ret st (refresh_nr_keys_count E (db st)) (\<lambda>n.
       (Ret (), if n \<ge> 0 then st\<lparr>record_count := n\<rparr> else st))"

definition refresh_nr_deleted_keys_count :: "'d env \<Rightarrow> 'd kv_store \<Rightarrow> unit res \<times> 'd kv_store" where
  "refresh_nr_deleted_keys_count E st =
     on_ret st (refresh_nr_keys_count E (db_deleted st)) (\<lambda>n.
       (Ret (), if n \<ge> 0 then st\<lparr>deleted_record_count := n\<rparr> else st))"

section \<open>Key samples for anti-entropy\<close>

definition record_refresh_rate :: long where "record_refresh_rate = 10"
definition anti_entropy_num_keys_percentage :: int where "anti_entropy_num_keys_percentage = 80"
definition anti_entropy_num_deleted_keys_percentage :: int where "anti_entropy_num_deleted_keys_percentage = 20"

text \<open>Division of signed integers truncates towards zero.\<close>

definition cdiv :: "int \<Rightarrow> int \<Rightarrow> int" where
  "cdiv a b = sgn a * sgn b * (\<bar>a\<bar> div \<bar>b\<bar>)"

text \<open>Moving the iterator to the start of the sample: \<open>extra\<close> is what the loop header subtracts at each step (nothing
  in \<^verbatim>\<open>get_keys\<close>, one in \<^verbatim>\<open>get_deleted_keys\<close>).\<close>

fun skip_keys :: "'d env \<Rightarrow> long \<Rightarrow> (string \<times> bytes) list \<Rightarrow> long \<Rightarrow> (string \<times> bytes) list res" where
  "skip_keys E extra [] key_start = Ret []"
| "skip_keys E extra ((k, b) # xs) key_start =
     (if key_start > 0 then
        rbind (deserialize_value E b) (\<lambda>value. skip_keys E extra xs (key_start - nr_entries value - extra))
      else Ret ((k, b) # xs))"

definition insert_new :: "kv_store_key \<Rightarrow> nat \<Rightarrow> (kv_store_key \<times> nat) list \<Rightarrow> (kv_store_key \<times> nat) list" where
  "insert_new k n m = (if k \<in> fst ` set m then m else m @ [(k, n)])"

fun collect_versions ::
  "string \<Rightarrow> FileType \<Rightarrow> long \<Rightarrow> kv_store_version_data list \<Rightarrow> long \<Rightarrow> (kv_store_key \<times> nat) list \<Rightarrow>
     long \<times> (kv_store_key \<times> nat) list" where
  "collect_versions k t lim [] i keys = (i, keys)"
| "collect_versions k t lim (dv # dvs) i keys =
     (if i < lim then
        collect_versions k t lim dvs (i + 1)
          (insert_new \<lparr>key = k, version = vd_version dv, f_type = t, is_deleted = False\<rparr> (length (vd_data dv)) keys)
      else (i, keys))"

fun collect_keys ::
  "'d env \<Rightarrow> long \<Rightarrow> (string \<times> bytes) list \<Rightarrow> long \<Rightarrow> (kv_store_key \<times> nat) list \<Rightarrow>
     (kv_store_key \<times> nat) list res" where
  "collect_keys E lim [] i keys = Ret keys"
| "collect_keys E lim ((k, b) # xs) i keys =
     (if i < lim then
        rbind (deserialize_value E b) (\<lambda>value.
          if v_type value = DIRECTORY then
            rbind (vec_at (vdata value) 0) (\<lambda>dv.
              collect_keys E lim xs (i + 1)
                (insert_new \<lparr>key = k, version = vd_version dv, f_type = v_type value, is_deleted = False\<rparr>
                   (length (vd_data dv)) keys))
          else
            (case collect_versions k (v_type value) lim (vdata value) i keys of (i', keys') \<Rightarrow>
               collect_keys E lim xs i' keys'))
      else Ret keys)"

definition sample_keys :: "'d env \<Rightarrow> long \<Rightarrow> (long \<Rightarrow> long) \<Rightarrow> long \<Rightarrow> int \<Rightarrow> int \<Rightarrow> 'd \<Rightarrow>
    (kv_store_key \<times> nat) list res" where
  "sample_keys E extra pick count max_percentage percentage database =
     (let num_keys = cdiv (count * cdiv (max_percentage * percentage) 100) 100;
          key_start = pick (count - num_keys)
      in case ldb_scan E database of (xs, ok) \<Rightarrow>
           rbind (skip_keys E extra xs key_start) (\<lambda>rest.
             rbind (collect_keys E num_keys rest 0 []) (\<lambda>keys.
               if ok then Ret keys else Throw LevelDBException)))"

definition get_keys :: "'d env \<Rightarrow> (long \<Rightarrow> long) \<Rightarrow> 'd kv_store \<Rightarrow> (kv_store_key \<times> nat) list res \<times> 'd kv_store" where
  "get_keys E pick st0 =
     (let cycle = record_count_cycle st0;
          st1 = st0\<lparr>record_count_cycle := cycle + 1\<rparr>
      in case (if cycle mod record_refresh_rate = 0 then refresh_nr_main_keys_count E st1 else (Ret (), st1)) of
           (r, st) \<Rightarrow> on_ret st r (\<lambda>_.
             (sample_keys E 0 pick (record_count st) (anti_entropy_max_keys_to_send_percentage st)
                anti_entropy_num_keys_percentage (db st), st)))"

definition get_deleted_keys :: "'d env \<Rightarrow> (long \<Rightarrow> long) \<Rightarrow> 'd kv_store \<Rightarrow> kv_store_key list res \<times> 'd kv_store" where
  "get_deleted_keys E pick st0 =
     (let cycle = deleted_record_count_cycle st0;
          st1 = st0\<lparr>deleted_record_count_cycle := cycle + 1\<rparr>
      in case (if cycle mod record_refresh_rate = 0 then refresh_nr_deleted_keys_count E st1 else (Ret (), st1)) of
           (r, st) \<Rightarrow> on_ret st r (\<lambda>_.
             (rbind (sample_keys E 1 pick (deleted_record_count st) (anti_entropy_max_keys_to_send_percentage st)
                anti_entropy_num_deleted_keys_percentage (db_deleted st)) (\<lambda>keys. Ret (map fst keys)), st)))"

section \<open>Filtering the keys another node offers\<close>

text \<open>The test both filters make on a key: true when the entry stays.\<close>

definition wanted :: "'d env \<Rightarrow> 'd kv_store \<Rightarrow> kv_store_key \<Rightarrow> bool res" where
  "wanted E st k =
     rbind (get_slice_for_key E st (key k)) (\<lambda>s.
       if s = slice st then
         rbind (verify_if_version_exists E st k) (\<lambda>exists_main.
           if exists_main then Ret False
           else rbind (verify_if_version_exists_in_deleted E st k) (\<lambda>exists_in_deleted.
                  Ret (\<not> exists_in_deleted)))
       else Ret False)"

fun remove_from_map_existent_keys ::
  "'d env \<Rightarrow> 'd kv_store \<Rightarrow> (kv_store_key \<times> nat) list \<Rightarrow> (kv_store_key \<times> nat) list res" where
  "remove_from_map_existent_keys E st [] = Ret []"
| "remove_from_map_existent_keys E st ((k, n) # keys) =
     rbind (wanted E st k) (\<lambda>w.
       rbind (remove_from_map_existent_keys E st keys) (\<lambda>rest. Ret (if w then (k, n) # rest else rest)))"

fun remove_from_set_existent_deleted_keys ::
  "'d env \<Rightarrow> 'd kv_store \<Rightarrow> kv_store_key list \<Rightarrow> kv_store_key list res" where
  "remove_from_set_existent_deleted_keys E st [] = Ret []"
| "remove_from_set_existent_deleted_keys E st (k # keys) =
     rbind (wanted E st k) (\<lambda>w.
       rbind (remove_from_set_existent_deleted_keys E st keys) (\<lambda>rest. Ret (if w then k # rest else rest)))"

section \<open>The temporary database of directory blocks\<close>

definition tmp_put :: "'d env \<Rightarrow> string \<Rightarrow> bytes \<Rightarrow> 'd kv_store \<Rightarrow> bool res \<times> 'd kv_store" where
  "tmp_put E k b st =
     (case ldb_put E (db_tmp_anti_entropy st) k b of (ok, d) \<Rightarrow> (Ret ok, st\<lparr>db_tmp_anti_entropy := d\<rparr>))"

definition put_tmp_anti_entropy ::
  "'d env \<Rightarrow> string \<Rightarrow> kv_store_key \<Rightarrow> bytes \<Rightarrow> 'd kv_store \<Rightarrow> bool res \<times> 'd kv_store" where
  "put_tmp_anti_entropy E base_path k bytes st =
     on_ret st (get_slice_for_key E st base_path) (\<lambda>k_slice.
       if slice st = k_slice then
         (let comp_key = compose_key_toString base_path (version k)
          in case get_blk_num (regex_search E) (key k) [] of (res_2, blk_num_str) \<Rightarrow>
               if res_2 = 0 then tmp_put E (comp_key @ '':'' @ blk_num_str) bytes st else (Ret False, st))
       else (Ret False, st))"

definition put_tmp_key_entry_size :: "'d env \<Rightarrow> kv_store_key \<Rightarrow> nat \<Rightarrow> 'd kv_store \<Rightarrow> bool res \<times> 'd kv_store" where
  "put_tmp_key_entry_size E k n st =
     on_ret st (get_slice_for_key E st (key k)) (\<lambda>k_slice.
       if slice st = k_slice
       then tmp_put E (compose_key_toString (key k) (version k) @ ''#size'') (to_string (int n)) st
       else (Ret False, st))"

definition get_tmp_key_entry_size :: "'d env \<Rightarrow> 'd kv_store \<Rightarrow> string \<Rightarrow> kv_store_key \<Rightarrow> bytes option res" where
  "get_tmp_key_entry_size E st base_path k =
     rbind (get_slice_for_key E st base_path) (\<lambda>k_slice.
       Ret (if slice st = k_slice
            then get_db E (compose_key_toString base_path (version k) @ ''#size'') (db_tmp_anti_entropy st)
            else None))"

text \<open>The loop over the blocks: \<open>None\<close> when a block is missing, otherwise their concatenation; a read that fails for
  another reason adds nothing.\<close>

fun gather_blks :: "'d env \<Rightarrow> 'd \<Rightarrow> string \<Rightarrow> nat list \<Rightarrow> bytes \<Rightarrow> bytes option" where
  "gather_blks E d comp_key [] met = Some met"
| "gather_blks E d comp_key (i # is) met =
     (case ldb_get E d (blk_path comp_key i) of
        NotFound \<Rightarrow> None
      | Found v \<Rightarrow> gather_blks E d comp_key is (met @ v)
      | Failed \<Rightarrow> gather_blks E d comp_key is met)"

definition check_if_have_all_blks_and_put_metadata ::
  "'d env \<Rightarrow> string \<Rightarrow> kv_store_key \<Rightarrow> nat \<Rightarrow> 'd kv_store \<Rightarrow> bool res \<times> 'd kv_store" where
  "check_if_have_all_blks_and_put_metadata E base_path k nr_blks st =
     on_ret st (get_slice_for_key E st base_path) (\<lambda>k_slice.
       if slice st = k_slice then
         (case gather_blks E (db_tmp_anti_entropy st) (compose_key_toString base_path (version k)) [1..<nr_blks + 1] [] of
            None \<Rightarrow> (Ret False, st)
          | Some met \<Rightarrow>
              (let k_merge = k\<lparr>key := base_path\<rparr> in
               case (if \<not> is_deleted k then put E k_merge met st else kv_remove E k_merge st) of
                 (r, st') \<Rightarrow> on_ret st' r (\<lambda>_. (Ret True, st'))))
       else (Ret False, st))"

fun tmp_delete_blks :: "'d env \<Rightarrow> string \<Rightarrow> nat list \<Rightarrow> 'd \<Rightarrow> 'd" where
  "tmp_delete_blks E comp_key [] d = d"
| "tmp_delete_blks E comp_key (i # is) d = tmp_delete_blks E comp_key is (snd (ldb_delete E d (blk_path comp_key i)))"

definition delete_metadata_from_tmp_anti_entropy ::
  "'d env \<Rightarrow> string \<Rightarrow> kv_store_key \<Rightarrow> nat \<Rightarrow> 'd kv_store \<Rightarrow> unit res \<times> 'd kv_store" where
  "delete_metadata_from_tmp_anti_entropy E base_path k nr_blks st =
     (let comp_key = compose_key_toString base_path (version k) in
      case ldb_delete E (db_tmp_anti_entropy st) (comp_key @ ''#size'') of (ok, d) \<Rightarrow>
        if \<not> ok then (Throw LevelDBException, st\<lparr>db_tmp_anti_entropy := d\<rparr>)
        else (Ret (), st\<lparr>db_tmp_anti_entropy := tmp_delete_blks E comp_key [1..<nr_blks + 1] d\<rparr>))"

text \<open>Both reads of \<^verbatim>\<open>get_incomplete_blks\<close> are of \<^verbatim>\<open>key_s\<close>, as in the source. \<open>size_t\<close> values are taken modulo \<open>2 ^ 64\<close>.
  The result is the return value with the vector of block numbers to request.\<close>

fun missing_blks :: "'d env \<Rightarrow> 'd \<Rightarrow> string \<Rightarrow> nat list \<Rightarrow> nat list res" where
  "missing_blks E d key_s [] = Ret []"
| "missing_blks E d key_s (i # is) =
     (case ldb_get E d key_s of
        NotFound \<Rightarrow> rbind (missing_blks E d key_s is) (\<lambda>r. Ret (i # r))
      | Found _ \<Rightarrow> missing_blks E d key_s is
      | Failed \<Rightarrow> Throw LevelDBException)"

definition get_incomplete_blks ::
  "'d env \<Rightarrow> kv_store_key \<Rightarrow> nat \<Rightarrow> 'd kv_store \<Rightarrow> (bool \<times> nat list) res \<times> 'd kv_store" where
  "get_incomplete_blks E k new_size st =
     (let key_s = compose_key_toString (key k) (version k) in
      case ldb_get E (db_tmp_anti_entropy st) key_s of
        NotFound \<Rightarrow> (Ret (False, []), st)
      | Failed \<Rightarrow> (Throw LevelDBException, st)
      | Found val \<Rightarrow>
          on_ret st (if val \<noteq> [] then rbind (stol val) (\<lambda>i. Ret (nat (i mod 2 ^ 64))) else Ret 0) (\<lambda>sz.
            if sz \<noteq> new_size then
              (case delete_metadata_from_tmp_anti_entropy E (key k) k (NR_BLKS sz) st of
                 (r, st') \<Rightarrow> on_ret st' r (\<lambda>_. (Ret (False, []), st')))
            else (rbind (missing_blks E (db_tmp_anti_entropy st) key_s [1..<NR_BLKS sz + 1]) (\<lambda>is. Ret (True, is)), st)))"

section \<open>State transfer and cleaning\<close>

text \<open>The entries of one database given to \<^verbatim>\<open>send\<close>, in order, and how the loop ended; an exception of \<^verbatim>\<open>send\<close> itself is
  caught and the loop goes on.\<close>

definition versions_to_send :: "kv_store_value \<Rightarrow> kv_store_version_data list res" where
  "versions_to_send value =
     (if v_type value = DIRECTORY then rbind (vec_at (vdata value) 0) (\<lambda>dv. Ret [dv]) else Ret (vdata value))"

fun send_loop :: "'d env \<Rightarrow> bool \<Rightarrow> (string \<times> bytes) list \<Rightarrow> (kv_store_key \<times> bytes) list \<times> unit res" where
  "send_loop E del [] = ([], Ret ())"
| "send_loop E del ((k, b) # xs) =
     (case rbind (deserialize_value E b) (\<lambda>value. rbind (versions_to_send value) (\<lambda>dvs. Ret (value, dvs))) of
        Throw e \<Rightarrow> ([], Throw e)
      | Hang \<Rightarrow> ([], Hang)
      | Ret (value, dvs) \<Rightarrow>
          (case send_loop E del xs of (rest, r) \<Rightarrow>
             (map (\<lambda>dv. (\<lparr>key = k, version = vd_version dv, f_type = v_type value, is_deleted = del\<rparr>, vd_data dv)) dvs
                @ rest, r)))"

text \<open>After the second loop the code asks the first iterator, which it has deleted, for its status and deletes it a second time. This is
  undefined behaviour; \<open>ub\<close> is what comes of it: the call may return, throw, or never come back (\<open>Hang\<close>: the process dies). By then
  everything has been sent.\<close>

definition send_keys_gt :: "'d env \<Rightarrow> unit res \<Rightarrow> 'd kv_store \<Rightarrow> (kv_store_key \<times> bytes) list \<times> unit res" where
  "send_keys_gt E ub st =
     (case ldb_scan E (db st) of (xs, ok) \<Rightarrow>
      case send_loop E False xs of (sent, r) \<Rightarrow>
        (case rbind r (\<lambda>_. if ok then Ret () else Throw LevelDBException) of
           Ret _ \<Rightarrow>
             (case ldb_scan E (db_deleted st) of (ys, _) \<Rightarrow>
              case send_loop E True ys of (sent_del, r') \<Rightarrow>
                (sent @ sent_del, rbind r' (\<lambda>_. ub)))
         | Throw e \<Rightarrow> (sent, Throw e)
         | Hang \<Rightarrow> (sent, Hang)))"

fun delete_all :: "'d env \<Rightarrow> string list \<Rightarrow> bool \<times> 'd \<Rightarrow> bool \<times> 'd" where
  "delete_all E [] (res, d) = (res, d)"
| "delete_all E (k # ks) (res, d) =
     (case ldb_delete E d k of (ok, d') \<Rightarrow> delete_all E ks (if \<not> ok then False else res, d'))"

definition clean_db :: "'d env \<Rightarrow> 'd kv_store \<Rightarrow> bool \<times> 'd kv_store" where
  "clean_db E st =
     (case delete_all E (map fst (fst (ldb_scan E (db st)))) (True, db st) of (r1, d1) \<Rightarrow>
      case delete_all E (map fst (fst (ldb_scan E (db_deleted st)))) (r1, db_deleted st) of (r2, d2) \<Rightarrow>
      case delete_all E (map fst (fst (ldb_scan E (db_tmp_anti_entropy st)))) (r2, db_tmp_anti_entropy st) of (r3, d3) \<Rightarrow>
        (r3, st\<lparr>db := d1, db_deleted := d2, db_tmp_anti_entropy := d3\<rparr>))"

definition put_dummy :: "'d env \<Rightarrow> string \<Rightarrow> bytes \<Rightarrow> 'd kv_store \<Rightarrow> bool \<times> 'd kv_store" where
  "put_dummy E k bytes st =
     (case ldb_put E (db st) k bytes of (ok, d) \<Rightarrow>
        if ok then (True, st\<lparr>db := d, record_count := record_count st + 1\<rparr>) else (False, st\<lparr>db := d\<rparr>))"

section \<open>Lemmas\<close>

lemma env_ok_scan:
  assumes "env_ok E" "ldb_scan E d = (xs, True)"
  shows "map_of xs k = get_db E k d" "(k, b) \<in> set xs \<longleftrightarrow> get_db E k d = Some b" "distinct (map fst xs)"
proof -
  have *: "sorted_keys xs" "\<And>k v. map_of xs k = Some v \<longleftrightarrow> ldb_get E d k = Found v"
    using assms by (auto simp: env_ok_def leveldb_ok_def)
  show d: "distinct (map fst xs)" using *(1) by (rule sorted_keys_distinct)
  show m: "map_of xs k = get_db E k d" for k
  proof (cases "ldb_get E d k")
    case (Found v)
    then show ?thesis using *(2)[of k v] by (simp add: get_db_def)
  next
    case NotFound
    then have "map_of xs k = None" using *(2) by (metis ldb_result.distinct(1) not_Some_eq)
    with NotFound show ?thesis by (simp add: get_db_def)
  next
    case Failed
    then have "map_of xs k = None" using *(2) by (metis ldb_result.distinct(3) not_Some_eq)
    with Failed show ?thesis by (simp add: get_db_def)
  qed
  show "(k, b) \<in> set xs \<longleftrightarrow> get_db E k d = Some b"
    using map_of_eq_Some_iff[OF d, of k b] by (simp add: m)
qed

text \<open>The scan of a well-formed database never meets an archive it cannot read.\<close>

definition scan_wf :: "'d env \<Rightarrow> (string \<times> bytes) list \<Rightarrow> bool" where
  "scan_wf E xs \<longleftrightarrow> (\<forall>(k, b) \<in> set xs. \<exists>v. dec_value E b = Some v \<and> vdata v \<noteq> [])"

lemma scan_wf_simps [simp]:
  "scan_wf E []" "scan_wf E ((k, b) # xs) \<longleftrightarrow> (\<exists>v. dec_value E b = Some v \<and> vdata v \<noteq> []) \<and> scan_wf E xs"
  by (auto simp: scan_wf_def)

lemma db_wf_scan: "env_ok E \<Longrightarrow> db_wf E d \<Longrightarrow> ldb_scan E d = (xs, True) \<Longrightarrow> scan_wf E xs"
  using env_ok_scan(2) by (fastforce simp: scan_wf_def db_wf_def)

lemma send_loop_result:
  "scan_wf E xs \<Longrightarrow> snd (send_loop E del xs) = Ret () \<and>
     set (fst (send_loop E del xs)) =
       {(\<lparr>key = k, version = vd_version dv, f_type = v_type v, is_deleted = del\<rparr>, vd_data dv) | k b v dv.
          (k, b) \<in> set xs \<and> dec_value E b = Some v \<and> dv \<in> set (entries_of (Some v))}"
proof (induction xs)
  case (Cons p xs)
  obtain k b where p [simp]: "p = (k, b)" by (cases p)
  from Cons.prems obtain v x ys where v: "dec_value E b = Some v" "vdata v = x # ys"
    by (auto simp: neq_Nil_conv)
  have h: "rbind (deserialize_value E b) (\<lambda>value. rbind (versions_to_send value) (\<lambda>dvs. Ret (value, dvs))) =
      Ret (v, entries_of (Some v))"
    using v by (simp add: deserialize_value_def versions_to_send_def entries_of_def)
  from Cons have IH: "snd (send_loop E del xs) = Ret ()"
    "set (fst (send_loop E del xs)) =
       {(\<lparr>key = k, version = vd_version dv, f_type = v_type v, is_deleted = del\<rparr>, vd_data dv) | k b v dv.
          (k, b) \<in> set xs \<and> dec_value E b = Some v \<and> dv \<in> set (entries_of (Some v))}" by auto
  show ?case unfolding p send_loop.simps h using IH v(1) by (cases "send_loop E del xs") auto
qed simp

lemma scan_values:
  assumes "env_ok E" "ldb_scan E d = (zs, True)"
  shows "{f k v dv | k b v dv. (k, b) \<in> set zs \<and> dec_value E b = Some v \<and> dv \<in> set (entries_of (Some v))} =
    {f k v dv | k v dv. value_in E d k = Some v \<and> dv \<in> set (entries_of (Some v))}"
proof -
  have "(\<exists>b. (k, b) \<in> set zs \<and> dec_value E b = Some v) \<longleftrightarrow> value_in E d k = Some v" for k v
    using env_ok_scan(2)[OF assms, of k] by (auto simp: value_in_def split: option.splits)
  then show ?thesis by (metis (no_types, lifting))
qed

lemma missing_scan_entry: "env_ok E \<Longrightarrow> ldb_delete E d k = (True, d') \<Longrightarrow>
    get_db E k' d' = (if k' = k then None else get_db E k' d)"
  using get_db_delete[of E d k True d'] by simp

lemma delete_all_True:
  assumes "env_ok E" "delete_all E ks (r, d) = (True, d')"
  shows "r \<and> (\<forall>k. get_db E k d' = (if k \<in> set ks then None else get_db E k d))"
  using assms(2)
proof (induction ks arbitrary: r d)
  case (Cons k ks)
  obtain ok d1 where d1: "ldb_delete E d k = (ok, d1)" by fastforce
  with Cons.prems have "delete_all E ks (if \<not> ok then False else r, d1) = (True, d')" by simp
  from Cons.IH[OF this] d1 missing_scan_entry[OF assms(1), of d k d1] show ?case by (cases ok) auto
qed simp

lemma delete_all_clean:
  assumes "env_ok E" "ldb_scan E d = (xs, True)" "delete_all E (map fst xs) (r, d) = (True, d')"
  shows "r \<and> get_db E k d' = None"
  using delete_all_True[OF assms(1,3)] env_ok_scan(1)[OF assms(1,2), of k]
  by (cases "k \<in> fst ` set xs") (auto simp flip: map_of_eq_None_iff)

lemma wanted_value:
  assumes "store_wf E st" "get_slice_for_key E st (key k) = Ret s"
  shows "wanted E st k =
    Ret (s = slice st \<and> (\<forall>vd \<in> set (stored E st (key k) @ stored_deleted E st (key k)).
           \<not> ver_le (vd_version vd) (version k)))"
  using assms by (auto simp: wanted_def verify_if_version_exists_def verify_if_version_exists_in_deleted_def
      verify_value store_wf_def)

text \<open>The keys and sizes that the entries of a scan stand for.\<close>

definition offered :: "'d env \<Rightarrow> (string \<times> bytes) list \<Rightarrow> (kv_store_key \<times> nat) set" where
  "offered E xs =
     {(\<lparr>key = k, version = vd_version dv, f_type = v_type v, is_deleted = False\<rparr>, length (vd_data dv)) | k b v dv.
        (k, b) \<in> set xs \<and> dec_value E b = Some v \<and> dv \<in> set (entries_of (Some v))}"

lemma offered_Cons:
  "dec_value E b = Some v \<Longrightarrow> offered E ((k, b) # xs) =
     {(\<lparr>key = k, version = vd_version dv, f_type = v_type v, is_deleted = False\<rparr>, length (vd_data dv)) | dv.
        dv \<in> set (entries_of (Some v))} \<union> offered E xs"
  unfolding offered_def by auto

lemma offered_mono: "set xs \<subseteq> set ys \<Longrightarrow> offered E xs \<subseteq> offered E ys"
  unfolding offered_def by blast

lemma insert_new_facts:
  "set (insert_new k n m) \<subseteq> insert (k, n) (set m)" "length (insert_new k n m) \<le> length m + 1"
  "distinct (map fst m) \<Longrightarrow> distinct (map fst (insert_new k n m))"
  by (auto simp: insert_new_def)

lemma collect_versions_result:
  assumes "collect_versions k t lim dvs i keys = (i', keys')" "int (length keys) \<le> i" "distinct (map fst keys)"
  shows "int (length keys') \<le> i' \<and> i' \<le> max i lim \<and> distinct (map fst keys') \<and>
    set keys' \<subseteq> set keys \<union> {(\<lparr>key = k, version = vd_version dv, f_type = t, is_deleted = False\<rparr>, length (vd_data dv)) | dv.
      dv \<in> set dvs}"
  using assms
proof (induction dvs arbitrary: i keys)
  case (Cons dv dvs)
  let ?x = "\<lparr>key = k, version = vd_version dv, f_type = t, is_deleted = False\<rparr>"
  show ?case
  proof (cases "i < lim")
    case True
    have "int (length (insert_new ?x (length (vd_data dv)) keys)) \<le> i + 1"
      using Cons.prems(2) insert_new_facts(2)[of ?x "length (vd_data dv)" keys] by linarith
    moreover have "collect_versions k t lim dvs (i + 1) (insert_new ?x (length (vd_data dv)) keys) = (i', keys')"
      using Cons.prems(1) True by simp
    moreover note insert_new_facts(3)[OF Cons.prems(3), of ?x "length (vd_data dv)"]
    ultimately have "int (length keys') \<le> i' \<and> i' \<le> max (i + 1) lim \<and> distinct (map fst keys') \<and>
        set keys' \<subseteq> set (insert_new ?x (length (vd_data dv)) keys) \<union>
          {(\<lparr>key = k, version = vd_version dv, f_type = t, is_deleted = False\<rparr>, length (vd_data dv)) | dv. dv \<in> set dvs}"
      using Cons.IH by blast
    then show ?thesis using True insert_new_facts(1)[of ?x "length (vd_data dv)" keys] by fastforce
  qed (use Cons.prems in auto)
qed auto

lemma collect_keys_result:
  assumes "scan_wf E xs" "int (length keys) \<le> i" "distinct (map fst keys)" "i \<le> max 0 lim"
  shows "\<exists>keys'. collect_keys E lim xs i keys = Ret keys' \<and> int (length keys') \<le> max 0 lim \<and> distinct (map fst keys') \<and>
    set keys' \<subseteq> set keys \<union> offered E xs"
  using assms
proof (induction xs arbitrary: i keys)
  case (Cons p xs)
  obtain k b where p [simp]: "p = (k, b)" by (cases p)
  from Cons.prems(1) obtain v x ys where v: "dec_value E b = Some v" "vdata v = x # ys" and wf: "scan_wf E xs"
    by (auto simp: neq_Nil_conv)
  show ?case
  proof (cases "i < lim")
    case True
    obtain i' keys1 where step: "collect_versions k (v_type v) lim (entries_of (Some v)) i keys = (i', keys1)" by fastforce
    note r = collect_versions_result[OF step Cons.prems(2,3)]
    have eq: "collect_keys E lim (p # xs) i keys = collect_keys E lim xs i' keys1"
      using True v step by (auto simp: deserialize_value_def entries_of_def split: prod.splits if_splits)
    have "i' \<le> max 0 lim" using r True by auto
    with Cons.IH[OF wf, of keys1 i'] r obtain keys' where "collect_keys E lim xs i' keys1 = Ret keys'"
      "int (length keys') \<le> max 0 lim" "distinct (map fst keys')"
      "set keys' \<subseteq> set keys1 \<union> offered E xs"
      by blast
    with eq r show ?thesis unfolding p offered_Cons[OF v(1)] by (intro exI[of _ keys']) (simp, blast)
  qed (use Cons.prems in auto)
qed auto

lemma skip_keys_result:
  "scan_wf E xs \<Longrightarrow> \<exists>ys. skip_keys E extra xs n = Ret ys \<and> scan_wf E ys \<and> set ys \<subseteq> set xs"
proof (induction xs arbitrary: n)
  case (Cons p xs)
  obtain k b where p [simp]: "p = (k, b)" by (cases p)
  from Cons.prems obtain v where v: "dec_value E b = Some v" and wf: "scan_wf E xs" by auto
  show ?case
  proof (cases "n > 0")
    case True
    with Cons.IH[OF wf, of "n - nr_entries v - extra"] v show ?thesis
      by (auto simp: deserialize_value_def)
  qed (use Cons.prems in auto)
qed simp

section \<open>Directory updates through the abstraction\<close>

lemma env_ok_dec_metadata [simp]: "env_ok E \<Longrightarrow> dec_metadata E (enc_metadata E m) = Some m"
  unfolding env_ok_def archive_ok_def by blast

lemma env_ok_dec_attr [simp]: "env_ok E \<Longrightarrow> dec_attr E (enc_attr E a) = Some a"
  unfolding env_ok_def archive_ok_def by blast

lemma value_in_get_db: "value_in E d k = Some v \<Longrightarrow> \<exists>b. get_db E k d = Some b \<and> dec_value E b = Some v"
  by (auto simp: value_in_def split: option.splits)

lemma put_metadata_child_True:
  assumes "env_ok E" "put_metadata_child E k child_path is_create is_dir st = (Ret True, st')"
    and "main_value E st (key k) = Some v" "vdata v = old # rest" "dec_metadata E (vd_data old) = Some met"
    and "\<not> ver_le (version k) (vd_version old)"
  shows "main_value E st' = (main_value E st)(key k \<mapsto>
       v\<lparr>vdata := \<lparr>vd_version = merge_kv (vd_version old) (version k),
          vd_data = enc_metadata E (met\<lparr>childs := (if is_create then add_child child_path is_dir (childs met)
            else remove_child child_path is_dir (childs met))\<rparr>)\<rparr> # rest\<rparr>)"
proof -
  obtain b where b: "get_db E (key k) (db st) = Some b" "dec_value E b = Some v"
    using value_in_get_db[OF assms(3)] by blast
  have "put_main E (key k) (v\<lparr>vdata := \<lparr>vd_version = merge_kv (vd_version old) (version k),
      vd_data = enc_metadata E (met\<lparr>childs := (if is_create then add_child child_path is_dir (childs met)
        else remove_child child_path is_dir (childs met))\<rparr>)\<rparr> # rest\<rparr>) 0 (seen_it k st) = (Ret True, st')"
    using assms(2,4-6) b
    unfolding put_metadata_child_def Let_def kv_get_def comp_version_le
    by (cases is_create) (auto simp: deserialize_value_def deserialize_metadata_def split: if_split_asm)
  from put_main_True(1)[OF assms(1) this] show ?thesis by simp
qed

lemma put_metadata_stat_True:
  assumes "env_ok E" "put_metadata_stat E k (enc_attr E a) st = (Ret True, st')"
    and "main_value E st (key k) = Some v" "vdata v = old # rest" "dec_metadata E (vd_data old) = Some met"
    and "\<not> ver_le (version k) (vd_version old)"
  shows "main_value E st' = (main_value E st)(key k \<mapsto>
       v\<lparr>vdata := \<lparr>vd_version = merge_kv (vd_version old) (version k),
          vd_data = enc_metadata E (merge_attr (metadata_of_attr a) met)\<rparr> # rest\<rparr>)"
proof -
  obtain b where b: "get_db E (key k) (db st) = Some b" "dec_value E b = Some v"
    using value_in_get_db[OF assms(3)] by blast
  have "put_main E (key k) (v\<lparr>vdata := \<lparr>vd_version = merge_kv (vd_version old) (version k),
      vd_data = enc_metadata E (merge_attr (metadata_of_attr a) met)\<rparr> # rest\<rparr>) 0 (seen_it k st) = (Ret True, st')"
    using assms(1,2,4-6) b
    unfolding put_metadata_stat_def Let_def kv_get_def comp_version_le
    by (auto simp: deserialize_value_def deserialize_metadata_def deserialize_attr_def split: if_split_asm)
  from put_main_True(1)[OF assms(1) this] show ?thesis by simp
qed

section \<open>Blocks in the temporary database\<close>

lemma put_tmp_anti_entropy_True:
  assumes "env_ok E" "regex_ok (regex_search E)" "plain base"
    and "put_tmp_anti_entropy E base (k\<lparr>key := blk_path base i\<rparr>) b st = (Ret True, st')"
  shows "ldb_get E (db_tmp_anti_entropy st') =
      (ldb_get E (db_tmp_anti_entropy st))(blk_path (compose_key_toString base (version k)) i := Found b)"
    "slice st' = slice st" "nr_slices st' = nr_slices st"
proof -
  have "snd (get_blk_num (regex_search E) (blk_path base i) []) = to_string (int i)"
    using blk_key_parts[OF assms(2,3), of i] by simp
  then have "ldb_put E (db_tmp_anti_entropy st) (blk_path (compose_key_toString base (version k)) i) b =
       (True, db_tmp_anti_entropy st')" "slice st' = slice st" "nr_slices st' = nr_slices st"
    using assms(4) by (auto simp: put_tmp_anti_entropy_def tmp_put_def blk_path_def Let_def
        split: if_splits prod.splits)
  with assms(1) show "ldb_get E (db_tmp_anti_entropy st') =
      (ldb_get E (db_tmp_anti_entropy st))(blk_path (compose_key_toString base (version k)) i := Found b)"
    "slice st' = slice st" "nr_slices st' = nr_slices st"
    by (simp_all add: ldb_put_True)
qed

lemma gather_blks_all:
  "\<forall>i\<in>set is. ldb_get E d (blk_path ck i) = Found (f i) \<Longrightarrow> gather_blks E d ck is met = Some (met @ concat (map f is))"
  by (induction "is" arbitrary: met) auto

text \<open>The blocks of an object, stored in the order in which they arrive.\<close>

fun put_blks ::
  "'d env \<Rightarrow> string \<Rightarrow> kv_store_key \<Rightarrow> bytes \<Rightarrow> nat list \<Rightarrow> 'd kv_store \<Rightarrow> 'd kv_store option" where
  "put_blks E base k data [] st = Some st"
| "put_blks E base k data (i # is) st =
     (case split_data (Some data) (int i) of
        Ret (Some b) \<Rightarrow>
          (case put_tmp_anti_entropy E base (k\<lparr>key := blk_path base i\<rparr>) b st of
             (Ret True, st') \<Rightarrow> put_blks E base k data is st'
           | _ \<Rightarrow> None)
      | _ \<Rightarrow> None)"

lemma put_blks_stored:
  assumes "env_ok E" "regex_ok (regex_search E)" "plain base" "length data < 2 ^ 43"
    and "set is \<subseteq> {1..NR_BLKS (length data)}" "put_blks E base k data is st = Some st'"
  shows "slice st' = slice st \<and> nr_slices st' = nr_slices st \<and>
    (\<forall>i. ldb_get E (db_tmp_anti_entropy st') (blk_path (compose_key_toString base (version k)) i) =
      (if i \<in> set is then Found (take BLK_SIZE (drop ((i - 1) * BLK_SIZE) data))
       else ldb_get E (db_tmp_anti_entropy st) (blk_path (compose_key_toString base (version k)) i)))"
  using assms(5,6)
proof (induction "is" arbitrary: st)
  case (Cons i "is")
  let ?b = "take BLK_SIZE (drop ((i - 1) * BLK_SIZE) data)"
  have b: "split_data (Some data) (int i) = Ret (Some ?b)"
    using Cons.prems(1) assms(4) by (intro split_data_block) auto
  from Cons.prems(2) obtain st1 where
    st1: "put_tmp_anti_entropy E base (k\<lparr>key := blk_path base i\<rparr>) ?b st = (Ret True, st1)"
      "put_blks E base k data is st1 = Some st'"
    by (auto simp: b split: prod.splits res.splits bool.splits)
  note p = put_tmp_anti_entropy_True[OF assms(1-3) st1(1)]
  from Cons.IH[OF _ st1(2)] Cons.prems(1) p show ?case by auto
qed simp

lemma upt_Suc_blocks: "concat (map (\<lambda>i. take BLK_SIZE (drop ((i - 1) * BLK_SIZE) d)) [1..<NR_BLKS (length d) + 1]) = d"
proof -
  have "[1..<NR_BLKS (length d) + 1] = map Suc [0..<NR_BLKS (length d)]" by (simp add: map_Suc_upt del: upt_Suc)
  then show ?thesis
    using concat_blocks[of d "NR_BLKS (length d)"] NR_BLKS_bounds[of "length d"]
    by (cases "d = []") (simp_all add: comp_def)
qed

section \<open>Properties\<close>

text \<open>
  C20. Reassembly of a directory: when the blocks of its metadata have been stored in the temporary database, in any
  order and possibly repeatedly, the completeness check finds all of them and hands exactly the original bytes to \<^verbatim>\<open>put\<close> under the
  base path. It returns true whenever \<^verbatim>\<open>put\<close> returns, also when \<^verbatim>\<open>put\<close> returned false; an exception of \<^verbatim>\<open>put\<close> passes through.
\<close>

theorem blocks_reassembled:
  assumes "env_ok E" "regex_ok (regex_search E)" "plain base" "length data < 2 ^ 43"
    and "set is = {1..NR_BLKS (length data)}" "put_blks E base k data is st = Some st'"
    and "get_slice_for_key E st base = Ret (slice st)" "\<not> is_deleted k"
  shows "check_if_have_all_blks_and_put_metadata E base k (NR_BLKS (length data)) st' =
    (case put E (k\<lparr>key := base\<rparr>) data st' of
       (Ret _, st'') \<Rightarrow> (Ret True, st'') | (Throw e, st'') \<Rightarrow> (Throw e, st'') | (Hang, st'') \<Rightarrow> (Hang, st''))"
proof -
  note st' = put_blks_stored[OF assms(1-4) _ assms(6), unfolded assms(5), OF subset_refl]
  have "gather_blks E (db_tmp_anti_entropy st') (compose_key_toString base (version k)) [1..<NR_BLKS (length data) + 1] [] =
      Some data"
    using gather_blks_all[of "[1..<NR_BLKS (length data) + 1]" E "db_tmp_anti_entropy st'"
        "compose_key_toString base (version k)" "\<lambda>i. take BLK_SIZE (drop ((i - 1) * BLK_SIZE) data)"] st'
      upt_Suc_blocks[of data]
    by (simp del: upt_Suc)
  moreover have "get_slice_for_key E st' = get_slice_for_key E st" using st' by (intro get_slice_cong) simp
  ultimately show ?thesis
    using st' assms(7,8) by (auto simp: check_if_have_all_blks_and_put_metadata_def simp del: upt_Suc split: res.splits prod.splits)
qed

text \<open>
  Adding or removing one child of a directory updates exactly that child: the stored metadata keeps its
  attributes and its other children, the child is marked added with its type or marked removed, and the stored version
  becomes the merge of the old one and the request's.
\<close>

theorem put_metadata_child_effect:
  assumes "env_ok E" "put_metadata_child E k child_path is_create is_dir st = (Ret True, st')"
    and "main_value E st (key k) = Some v" "vdata v = old # rest" "dec_metadata E (vd_data old) = Some met"
    and "\<not> ver_le (version k) (vd_version old)"
  shows "\<exists>met' new. main_value E st' (key k) = Some (v\<lparr>vdata := new # rest\<rparr>) \<and>
     vd_version new = merge_kv (vd_version old) (version k) \<and> dec_metadata E (vd_data new) = Some met' \<and>
     attr met' = attr met \<and>
     (\<forall>p. slookup (childs met') p =
        (if p \<noteq> child_path then slookup (childs met) p
         else if is_create then Some (if is_dir then DIRECTORY else FILE, ADDED)
         else map_option (\<lambda>(t, _). (t, REMOVED)) (slookup (childs met) p)))"
proof -
  let ?met = "met\<lparr>childs := (if is_create then add_child child_path is_dir (childs met)
      else remove_child child_path is_dir (childs met))\<rparr>"
  have "main_value E st' (key k) = Some (v\<lparr>vdata := \<lparr>vd_version = merge_kv (vd_version old) (version k),
      vd_data = enc_metadata E ?met\<rparr> # rest\<rparr>)"
    using put_metadata_child_True[OF assms] by simp
  then show ?thesis
    by (rule exI[of _ ?met, OF exI[of _ "\<lparr>vd_version = _, vd_data = _\<rparr>", OF conjI]])
      (use assms(1) in \<open>simp add: slookup_add_child slookup_remove_child\<close>)
qed

text \<open>
  Updating the attributes of an existing directory loses its children: the metadata stored by \<^verbatim>\<open>put_metadata_stat\<close>
  has the children of the freshly built metadata, which has none.
\<close>

theorem put_metadata_stat_drops_children:
  assumes "env_ok E" "put_metadata_stat E k (enc_attr E a) st = (Ret True, st')"
    and "main_value E st (key k) = Some v" "vdata v = old # rest" "dec_metadata E (vd_data old) = Some met"
    and "\<not> ver_le (version k) (vd_version old)"
  shows "\<exists>met' new. main_value E st' (key k) = Some (v\<lparr>vdata := new # rest\<rparr>) \<and>
     dec_metadata E (vd_data new) = Some met' \<and> attr met' = merge_times a (attr met) \<and> childs met' = sempty"
proof (intro exI conjI)
  show "main_value E st' (key k) = Some (v\<lparr>vdata := \<lparr>vd_version = merge_kv (vd_version old) (version k),
      vd_data = enc_metadata E (merge_attr (metadata_of_attr a) met)\<rparr> # rest\<rparr>)"
    using put_metadata_stat_True[OF assms] by simp
qed (use assms(1) in \<open>auto simp: merge_attr_def metadata_of_attr_def\<close>)

text \<open>
  C36. What a node asks another one for: of the offered keys it keeps exactly those of its own slice for which neither
  database holds a version equal to or older than the offered one. In particular a newer version of a stored
  object is never requested.
\<close>

theorem anti_entropy_requests:
  assumes "store_wf E st" "\<forall>(k, n) \<in> set keys. get_slice_for_key E st (key k) = Ret (slice_of k)"
  shows "remove_from_map_existent_keys E st keys =
    Ret (filter (\<lambda>(k, n). slice_of k = slice st \<and>
      (\<forall>vd \<in> set (stored E st (key k) @ stored_deleted E st (key k)). \<not> ver_le (vd_version vd) (version k))) keys)"
  using assms(2)
proof (induction keys)
  case (Cons p keys)
  obtain k n where p [simp]: "p = (k, n)" by (cases p)
  have "get_slice_for_key E st (key k) = Ret (slice_of k)" using Cons.prems by simp
  note w = wanted_value[OF assms(1) this]
  show ?case
  proof (cases "slice_of k = slice st \<and> (\<forall>vd \<in> set (stored E st (key k) @ stored_deleted E st (key k)).
      \<not> ver_le (vd_version vd) (version k))")
    case True
    then show ?thesis using Cons w by simp
  next
    case False
    then show ?thesis using Cons w by (simp del: set_append)
  qed
qed simp

text \<open>
  The sample of keys sent for anti-entropy: on a well-formed store it is computed without an exception, has no more
  keys than the configured share of the record count, no key twice, and every key in it stands for a stored version
  with the size of its data.
\<close>

theorem sample_keys_sound:
  assumes "env_ok E" "db_wf E d" "ldb_scan E d = (xs, True)"
  shows "\<exists>keys. sample_keys E extra pick count maxp p d = Ret keys \<and>
    int (length keys) \<le> max 0 (cdiv (count * cdiv (maxp * p) 100) 100) \<and> distinct (map fst keys) \<and>
    (\<forall>(k, n) \<in> set keys. \<exists>vd \<in> set (entries_of (value_in E d (key k))). vd_version vd = version k \<and> length (vd_data vd) = n)"
proof -
  let ?lim = "cdiv (count * cdiv (maxp * p) 100) 100"
  obtain ys where ys: "skip_keys E extra xs (pick (count - ?lim)) = Ret ys" "scan_wf E ys" "set ys \<subseteq> set xs"
    using skip_keys_result[OF db_wf_scan[OF assms]] by blast
  obtain keys where keys: "collect_keys E ?lim ys 0 [] = Ret keys" "int (length keys) \<le> max 0 ?lim"
    "distinct (map fst keys)" "set keys \<subseteq> offered E ys"
    using collect_keys_result[OF ys(2), of "[]" 0 ?lim] by auto
  have "set keys \<subseteq> offered E xs" using keys(4) offered_mono[OF ys(3)] by blast
  then have "\<forall>(k, n) \<in> set keys. \<exists>vd \<in> set (entries_of (value_in E d (key k))). vd_version vd = version k \<and> length (vd_data vd) = n"
    unfolding offered_def using env_ok_scan(2)[OF assms(1,3)] by (fastforce simp: value_in_def)
  with ys(1) keys(1-3) assms(3) show ?thesis by (simp add: sample_keys_def Let_def)
qed

text \<open>
  State transfer: a recovering node is sent every stored version and every recorded deletion, and nothing else, whatever the
  undefined behaviour at the end of the function does; the outcome of the function is that of the undefined behaviour.
\<close>

theorem send_keys_gt_complete:
  assumes "env_ok E" "store_wf E st" "ldb_scan E (db st) = (xs, True)" "ldb_scan E (db_deleted st) = (ys, True)"
  shows "snd (send_keys_gt E ub st) = ub \<and>
    set (fst (send_keys_gt E ub st)) =
      {(\<lparr>key = k, version = vd_version vd, f_type = v_type v, is_deleted = del\<rparr>, vd_data vd) | k v vd del.
         value_in E (if del then db_deleted st else db st) k = Some v \<and> vd \<in> set (entries_of (Some v))}"
proof -
  have wf: "scan_wf E xs" "scan_wf E ys"
    using assms db_wf_scan[of E] by (auto simp: store_wf_def)
  note r = send_loop_result[OF wf(1), of False] send_loop_result[OF wf(2), of True]
  have "fst (send_keys_gt E ub st) = fst (send_loop E False xs) @ fst (send_loop E True ys)"
    "snd (send_keys_gt E ub st) = ub"
    using r assms(3,4) by (auto simp: send_keys_gt_def split: prod.splits res.splits)
  moreover have "set (fst (send_loop E False xs)) =
      {(\<lparr>key = k, version = vd_version vd, f_type = v_type v, is_deleted = False\<rparr>, vd_data vd) | k v vd.
         value_in E (db st) k = Some v \<and> vd \<in> set (entries_of (Some v))}"
    using conjunct2[OF r(1)] unfolding scan_values[OF assms(1,3)] .
  moreover have "set (fst (send_loop E True ys)) =
      {(\<lparr>key = k, version = vd_version vd, f_type = v_type v, is_deleted = True\<rparr>, vd_data vd) | k v vd.
         value_in E (db_deleted st) k = Some v \<and> vd \<in> set (entries_of (Some v))}"
    using conjunct2[OF r(2)] unfolding scan_values[OF assms(1,4)] .
  ultimately show ?thesis by (auto split: if_splits)
qed

text \<open>
  An interrupted transfer is never resumed: after the size of an object has been recorded, the search for its
  missing blocks reports that nothing is known of the object, because it reads the record under a different key.
\<close>

theorem get_incomplete_blks_never_resumes:
  assumes "env_ok E" "put_tmp_key_entry_size E k n st = (Ret True, st')"
    and "ldb_get E (db_tmp_anti_entropy st) (compose_key_toString (key k) (version k)) = NotFound"
  shows "get_incomplete_blks E k n st' = (Ret (False, []), st')"
proof -
  have "ldb_put E (db_tmp_anti_entropy st) (compose_key_toString (key k) (version k) @ ''#size'') (to_string (int n)) =
      (True, db_tmp_anti_entropy st')"
    using assms(2) by (auto simp: put_tmp_key_entry_size_def tmp_put_def split: if_splits prod.splits)
  then have "ldb_get E (db_tmp_anti_entropy st') = (ldb_get E (db_tmp_anti_entropy st))
      (compose_key_toString (key k) (version k) @ ''#size'' := Found (to_string (int n)))"
    using assms(1) by (simp add: ldb_put_True)
  with assms(3) show ?thesis by (simp add: get_incomplete_blks_def)
qed

text \<open>
  Cleaning: when \<^verbatim>\<open>clean_db\<close> returns true and the scans succeed, no key is left in any of the three databases.
\<close>

theorem clean_db_empties:
  assumes "env_ok E" "clean_db E st = (True, st')"
    and "ldb_scan E (db st) = (xs, True)" "ldb_scan E (db_deleted st) = (ys, True)"
    and "ldb_scan E (db_tmp_anti_entropy st) = (zs, True)"
  shows "get_db E k (db st') = None \<and> get_db E k (db_deleted st') = None \<and> get_db E k (db_tmp_anti_entropy st') = None"
proof -
  obtain r1 d1 r2 d2 d3 where d: "delete_all E (map fst xs) (True, db st) = (r1, d1)"
    "delete_all E (map fst ys) (r1, db_deleted st) = (r2, d2)"
    "delete_all E (map fst zs) (r2, db_tmp_anti_entropy st) = (True, d3)"
    "st' = st\<lparr>db := d1, db_deleted := d2, db_tmp_anti_entropy := d3\<rparr>"
    using assms(2-5) by (auto simp: clean_db_def split: prod.splits)
  note c3 = delete_all_clean[OF assms(1,5) d(3), of k]
  then have "r2 = True" by simp
  note c2 = delete_all_clean[OF assms(1,4) d(2)[unfolded this], of k]
  then have "r1 = True" by simp
  note c1 = delete_all_clean[OF assms(1,3) d(1)[unfolded this], of k]
  from c1 c2 c3 d(4) show ?thesis by simp
qed

end
