(* ===== verification/Ref_Env.thy ===== *)
theory Ref_Env
  imports Kv_Transfer
begin

text \<open>
  A reference environment: an in-memory database, a textual archive and a matcher for the two patterns. It shows that the
  laws assumed of the environment (\<open>env_ok\<close>, \<open>regex_ok\<close>) can hold, and it is the concrete input of the
  theorems whose names end in \<open>_witness\<close>. Nothing else depends on it.

  Encodings are prefix codes: \<open>prefix_code enc dec\<close> says that decoding consumes exactly what encoding produced.
\<close>

section \<open>Prefix codes\<close>

type_synonym 'a decoder = "string \<Rightarrow> ('a \<times> string) option"

definition prefix_code :: "('a \<Rightarrow> string) \<Rightarrow> 'a decoder \<Rightarrow> bool" where
  "prefix_code enc dec \<longleftrightarrow> (\<forall>a s. dec (enc a @ s) = Some (a, s))"

lemma prefix_codeD: "prefix_code enc dec \<Longrightarrow> dec (enc a @ s) = Some (a, s)"
  by (simp add: prefix_code_def)

definition r_int :: "int \<Rightarrow> string" where
  "r_int i = to_string i @ '';''"

definition p_int :: "int decoder" where
  "p_int s = (let t = takeWhile (\<lambda>c. c \<noteq> CHR '';'') s in
     case parse_integer t of None \<Rightarrow> None | Some i \<Rightarrow> Some (i, drop (length t + 1) s))"

definition r_map :: "('b \<Rightarrow> 'a) \<Rightarrow> ('a \<Rightarrow> string) \<Rightarrow> 'b \<Rightarrow> string" where
  "r_map f r b = r (f b)"

definition p_map :: "('a \<Rightarrow> 'b) \<Rightarrow> 'a decoder \<Rightarrow> 'b decoder" where
  "p_map g p s = (case p s of None \<Rightarrow> None | Some (a, t) \<Rightarrow> Some (g a, t))"

definition r_pair :: "('a \<Rightarrow> string) \<Rightarrow> ('b \<Rightarrow> string) \<Rightarrow> 'a \<times> 'b \<Rightarrow> string" where
  "r_pair r1 r2 x = r1 (fst x) @ r2 (snd x)"

definition p_pair :: "'a decoder \<Rightarrow> 'b decoder \<Rightarrow> ('a \<times> 'b) decoder" where
  "p_pair p1 p2 s = (case p1 s of None \<Rightarrow> None | Some (a, t) \<Rightarrow>
     (case p2 t of None \<Rightarrow> None | Some (b, u) \<Rightarrow> Some ((a, b), u)))"

fun p_times :: "'a decoder \<Rightarrow> nat \<Rightarrow> 'a list decoder" where
  "p_times p 0 s = Some ([], s)"
| "p_times p (Suc n) s = (case p s of None \<Rightarrow> None | Some (a, t) \<Rightarrow>
     (case p_times p n t of None \<Rightarrow> None | Some (as, u) \<Rightarrow> Some (a # as, u)))"

definition r_list :: "('a \<Rightarrow> string) \<Rightarrow> 'a list \<Rightarrow> string" where
  "r_list r xs = r_int (int (length xs)) @ concat (map r xs)"

definition p_list :: "'a decoder \<Rightarrow> 'a list decoder" where
  "p_list p s = (case p_int s of None \<Rightarrow> None | Some (n, t) \<Rightarrow> p_times p (nat n) t)"

definition r_char :: "char \<Rightarrow> string" where "r_char c = [c]"

fun p_char :: "char decoder" where
  "p_char [] = None"
| "p_char (c # s) = Some (c, s)"

lemma code_int [intro!]: "prefix_code r_int p_int"
  unfolding prefix_code_def
proof (intro allI)
  fix i s
  have n: "\<forall>c\<in>set (to_string i). c \<noteq> CHR '';''"
    using set_to_string[of _ i] by (force simp: is_digit_def)
  have "takeWhile (\<lambda>c. c \<noteq> CHR '';'') (to_string i @ CHR '';'' # s) = to_string i"
    using n by (subst takeWhile_append2) auto
  then show "p_int (r_int i @ s) = Some (i, s)"
    by (simp add: r_int_def p_int_def Let_def parse_integer_to_string[of "[]" i, simplified])
qed

lemma code_map [intro]:
  "prefix_code r p \<Longrightarrow> (\<And>b. g (f b) = b) \<Longrightarrow> prefix_code (r_map f r) (p_map g p)"
  by (simp add: prefix_code_def r_map_def p_map_def)

lemma code_pair [intro!]: "prefix_code r1 p1 \<Longrightarrow> prefix_code r2 p2 \<Longrightarrow> prefix_code (r_pair r1 r2) (p_pair p1 p2)"
  by (simp add: prefix_code_def r_pair_def p_pair_def)

lemma code_list [intro!]:
  assumes "prefix_code r p"
  shows "prefix_code (r_list r) (p_list p)"
proof -
  have "p_times p (length xs) (concat (map r xs) @ s) = Some (xs, s)" for xs s
    by (induction xs) (simp_all add: prefix_codeD[OF assms])
  then show ?thesis
    by (simp add: prefix_code_def r_list_def p_list_def prefix_codeD[OF code_int])
qed

lemma code_char [intro!]: "prefix_code r_char p_char"
  by (simp add: prefix_code_def r_char_def)

section \<open>The archive\<close>

abbreviation r_string where
  "r_string \<equiv> r_list r_char"
abbreviation p_string where
  "p_string \<equiv> p_list p_char"

lemma slookup_fold_sput:
  "distinct (map fst xs) \<Longrightarrow> slookup (fold (\<lambda>(k, v) m. sput k v m) xs m0) k =
     (case map_of xs k of None \<Rightarrow> slookup m0 k | Some v \<Rightarrow> Some v)"
proof (induction xs arbitrary: m0)
  case (Cons p xs)
  obtain a b where p: "p = (a, b)" by (cases p)
  with Cons.prems have "map_of xs a = None" by (simp add: map_of_eq_None_iff)
  with Cons p show ?case by (cases "k = a") (auto split: option.splits)
qed simp

lemma smap_of_entries: "smap_of (entries m) = m"
  by (rule smap_eqI)
    (simp add: smap_of_def slookup_fold_sput slookup_entries[of m, symmetric] split: option.splits)

definition r_smap where
  "r_smap rk rv = r_map entries (r_list (r_pair rk rv))"
definition p_smap where
  "p_smap pk pv = p_map smap_of (p_list (p_pair pk pv))"

lemma code_smap [intro!]: "prefix_code rk pk \<Longrightarrow> prefix_code rv pv \<Longrightarrow> prefix_code (r_smap rk rv) (p_smap pk pv)"
  unfolding r_smap_def p_smap_def by (intro code_map code_list code_pair smap_of_entries)

definition r_type where
  "r_type = r_map (\<lambda>t. if t = FILE then 0 else 1) r_int"
definition p_type where
  "p_type = p_map (\<lambda>i. if i = 0 then FILE else DIRECTORY) p_int"

lemma code_type [intro!]: "prefix_code r_type p_type"
  unfolding r_type_def p_type_def by (rule code_map[OF code_int]) simp

definition r_status where
  "r_status = r_map (\<lambda>s. case s of ADDED \<Rightarrow> 0 | REMOVED \<Rightarrow> 1 | NONE \<Rightarrow> 2) r_int"
definition p_status where
  "p_status = p_map (\<lambda>i. if i = 0 then ADDED else if i = 1 then REMOVED else NONE) p_int"

lemma code_status [intro!]: "prefix_code r_status p_status"
  unfolding r_status_def p_status_def by (rule code_map[OF code_int]) (simp split: Status.splits)

definition r_version :: "kv_store_version \<Rightarrow> string" where
  "r_version = r_map (\<lambda>v. (vv v, client_id v)) (r_pair (r_smap r_int r_int) r_int)"
definition p_version :: "kv_store_version decoder" where
  "p_version = p_map (\<lambda>(a, b). \<lparr>vv = a, client_id = b\<rparr>) (p_pair (p_smap p_int p_int) p_int)"

lemma code_version [intro!]: "prefix_code r_version p_version"
  unfolding r_version_def p_version_def by (intro code_map code_pair code_smap code_int) simp

definition r_value :: "kv_store_value \<Rightarrow> string" where
  "r_value = r_map (\<lambda>v. (v_type v, map (\<lambda>d. (vd_version d, vd_data d)) (vdata v)))
     (r_pair r_type (r_list (r_pair r_version r_string)))"
definition p_value :: "kv_store_value decoder" where
  "p_value = p_map (\<lambda>(t, ds). \<lparr>v_type = t, vdata = map (\<lambda>(v, d). \<lparr>vd_version = v, vd_data = d\<rparr>) ds\<rparr>)
     (p_pair p_type (p_list (p_pair p_version p_string)))"

lemma code_value [intro!]: "prefix_code r_value p_value"
  unfolding r_value_def p_value_def
  by (intro code_map code_pair code_list code_type code_version code_char) (simp add: comp_def map_idI)

definition r_time :: "timespec \<Rightarrow> string" where
  "r_time = r_map (\<lambda>t. (tv_sec t, tv_nsec t)) (r_pair r_int r_int)"
definition p_time :: "timespec decoder" where
  "p_time = p_map (\<lambda>(a, b). \<lparr>tv_sec = a, tv_nsec = b\<rparr>) (p_pair p_int p_int)"

lemma code_time [intro!]: "prefix_code r_time p_time"
  unfolding r_time_def p_time_def by (intro code_map code_pair code_int) simp

definition r_attr :: "stat \<Rightarrow> string" where
  "r_attr = r_map (\<lambda>a. ([st_dev a, st_ino a, st_nlink a, uint (st_mode a), st_uid a, st_gid a, st_rdev a,
      st_size a, st_blksize a, st_blocks a], st_atim a, st_mtim a, st_ctim a))
    (r_pair (r_list r_int) (r_pair r_time (r_pair r_time r_time)))"
definition p_attr :: "stat decoder" where
  "p_attr = p_map (\<lambda>(xs, t1, t2, t3).
      \<lparr>st_dev = xs ! 0, st_ino = xs ! 1, st_nlink = xs ! 2, st_mode = word_of_int (xs ! 3), st_uid = xs ! 4,
       st_gid = xs ! 5, st_rdev = xs ! 6, st_size = xs ! 7, st_blksize = xs ! 8, st_blocks = xs ! 9,
       st_atim = t1, st_mtim = t2, st_ctim = t3\<rparr>)
    (p_pair (p_list p_int) (p_pair p_time (p_pair p_time p_time)))"

lemma code_attr [intro!]: "prefix_code r_attr p_attr"
  unfolding r_attr_def p_attr_def
  by (intro code_map code_pair code_list code_int code_time) (simp add: nth_Cons')

definition r_metadata :: "metadata \<Rightarrow> string" where
  "r_metadata = r_map (\<lambda>m. (attr m, childs m)) (r_pair r_attr (r_smap r_string (r_pair r_type r_status)))"
definition p_metadata :: "metadata decoder" where
  "p_metadata = p_map (\<lambda>(a, c). \<lparr>attr = a, childs = c\<rparr>) (p_pair p_attr (p_smap p_string (p_pair p_type p_status)))"

lemma code_metadata [intro!]: "prefix_code r_metadata p_metadata"
  unfolding r_metadata_def p_metadata_def
  by (intro code_map code_pair code_smap code_list code_char code_type code_status code_attr) simp

definition whole :: "'a decoder \<Rightarrow> string \<Rightarrow> 'a option" where
  "whole p s = (case p s of Some (a, []) \<Rightarrow> Some a | _ \<Rightarrow> None)"

lemma whole_code: "prefix_code r p \<Longrightarrow> whole p (r a) = Some a"
  using prefix_codeD[of r p a "[]"] by (simp add: whole_def)

section \<open>The environment\<close>

definition ref_regex :: regex where
  "ref_regex pat s =
     (let n = rev (takeWhile (\<lambda>c. c \<noteq> CHR '':'') (rev s)); b = take (length s - length n - 1) s
      in if n = [] \<or> length n = length s then None
         else if pat = base_path_pattern then Some [s, b]
         else if pat = blk_num_pattern then Some ['':'' @ n, n]
         else None)"

lemma regex_ok_ref: "regex_ok ref_regex"
  unfolding regex_ok_def
proof (intro allI impI)
  fix b n :: string
  assume a: "plain b \<and> plain n \<and> n \<noteq> [] \<and> CHR '':'' \<notin> set n"
  then have "takeWhile (\<lambda>c. c \<noteq> CHR '':'') (rev n @ CHR '':'' # rev b) = rev n"
    by (subst takeWhile_append2) auto
  with a show "ref_regex base_path_pattern (b @ '':'' @ n) = Some [b @ '':'' @ n, b] \<and>
      ref_regex blk_num_pattern (b @ '':'' @ n) = Some ['':'' @ n, n]"
    by (simp add: ref_regex_def Let_def base_path_pattern_def blk_num_pattern_def)
qed

definition ref_hash :: "string \<Rightarrow> 64 word" where
  "ref_hash s = fold (\<lambda>c h. h * 31 + of_nat (of_char c)) s 7"

definition ref_env :: "(string, bytes) smap env" where
  "ref_env =
     \<lparr>std_hash = ref_hash, regex_search = ref_regex,
      enc_value = r_value, dec_value = whole p_value,
      enc_metadata = r_metadata, dec_metadata = whole p_metadata,
      enc_attr = r_attr, dec_attr = whole p_attr,
      ldb_get = (\<lambda>d k. case slookup d k of None \<Rightarrow> NotFound | Some v \<Rightarrow> Found v),
      ldb_put = (\<lambda>d k v. (True, sput k v d)),
      ldb_delete = (\<lambda>d k. (True, sdel k d)),
      ldb_scan = (\<lambda>d. (entries d, True))\<rparr>"

lemma ref_env_simps [simp]:
  "std_hash ref_env = ref_hash" "regex_search ref_env = ref_regex"
  "ldb_get ref_env d k = (case slookup d k of None \<Rightarrow> NotFound | Some v \<Rightarrow> Found v)"
  "ldb_put ref_env d k v = (True, sput k v d)" "ldb_delete ref_env d k = (True, sdel k d)"
  "ldb_scan ref_env d = (entries d, True)"
  by (simp_all add: ref_env_def)

lemma env_ok_ref [simp]: "env_ok ref_env"
proof -
  have "archive_ok ref_env"
    unfolding archive_ok_def ref_env_def
    using whole_code[OF code_value] whole_code[OF code_metadata] whole_code[OF code_attr] by simp
  moreover have "leveldb_ok ref_env"
    unfolding leveldb_ok_def by (auto simp: slookup_entries[symmetric] fun_eq_iff split: option.splits)
  ultimately show ?thesis by (simp add: env_ok_def)
qed

lemma get_db_ref [simp]: "get_db ref_env k d = slookup d k"
  by (simp add: get_db_def split: option.splits)

text \<open>A node that owns the only slice, with empty databases.\<close>

definition ref_store :: "(string, bytes) smap kv_store" where
  "ref_store =
     \<lparr>slice = 1, nr_slices = 1, seen = Map.empty, seen_deleted = Map.empty, request_log = Map.empty,
      anti_entropy_log = Map.empty, merge_function = merge_metadata_bytes ref_env,
      seen_count = 0, seen_deleted_count = 0, req_count = 0, anti_entropy_count = 0,
      seen_log_garbage_at = 300000, request_log_garbage_at = 300000, anti_entropy_log_garbage_at = 300000,
      db = sempty, db_deleted = sempty, db_tmp_anti_entropy = sempty,
      record_count = 0, record_count_cycle = 0, deleted_record_count = 0, deleted_record_count_cycle = 0,
      anti_entropy_max_keys_to_send_percentage = 100\<rparr>"

lemma store_wf_ref [simp]: "store_wf ref_env ref_store"
  by (simp add: store_wf_def db_wf_def ref_store_def)

end
