(* ===== verification/Store_Witnesses.thy ===== *)
theory Store_Witnesses
  imports Ref_Env
begin

text \<open>
  The properties of the storage node applied to concrete stores over the reference environment. Each theorem
  discharges the hypotheses of one property on an input built by running the operations.
\<close>

section \<open>Stores built by running operations\<close>

definition ready :: "(string, bytes) smap kv_store \<Rightarrow> bool" where
  "ready st \<longleftrightarrow> store_wf ref_env st \<and> nr_slices st = 1 \<and> slice st = 1"

lemma ready_ref [simp]: "ready ref_store"
  by (simp add: ready_def) (simp add: ref_store_def)

lemma ready_slice: "ready st \<Longrightarrow> get_slice_for_key ref_env st k = Ret (slice st)"
  by (simp add: ready_def get_slice_for_key_def)

lemma put_main_ref:
  "put_main ref_env k v n st =
     (Ret True, st\<lparr>db := sput k (enc_value ref_env v) (db st), record_count := record_count st + n\<rparr>)"
  by (simp add: put_main_def)

lemma put_file_ref:
  assumes "ready st" "f_type k = FILE" "\<forall>v. main_value ref_env st (key k) = Some v \<longrightarrow> v_type v = FILE"
  shows "\<exists>st'. put ref_env k b st = (Ret True, st') \<and> ready st'"
proof -
  have wf: "db_wf ref_env (db st)" using assms(1) by (simp add: ready_def store_wf_def)
  obtain st' where st': "put ref_env k b st = (Ret True, st')" "nr_slices st' = 1" "slice st' = 1"
  proof (cases rule: db_wf_cases[OF wf, of "key k"])
    case 1
    with assms show thesis
      by (intro that) (auto simp: put_def Let_def ready_def get_slice_for_key_def kv_get_def put_main_ref)
  next
    case (2 bs v x xs)
    with assms show thesis
      by (intro that) (auto simp: put_def Let_def ready_def get_slice_for_key_def kv_get_def put_main_ref
          deserialize_value_def)
  qed
  then show ?thesis using put_wf[of ref_env st k b] assms(1) by (simp add: ready_def)
qed

definition ver1 :: kv_store_version where "ver1 = \<lparr>vv = smap_of [(1, 1)], client_id = 1\<rparr>"
definition ver2 :: kv_store_version where "ver2 = \<lparr>vv = smap_of [(2, 1)], client_id = 2\<rparr>"
definition ver3 :: kv_store_version where "ver3 = \<lparr>vv = smap_of [(1, 2), (2, 2)], client_id = 1\<rparr>"

lemmas ver_defs = ver1_def ver2_def ver3_def smap_of_def

lemma ver_comparisons [simp]:
  "vv_le (vv ver1) (vv ver3)" "vv_le (vv ver2) (vv ver3)"
  "\<not> vv_le (vv ver3) (vv ver1)" "\<not> vv_le (vv ver3) (vv ver2)"
  "\<not> vv_le (vv ver1) (vv ver2)" "\<not> vv_le (vv ver2) (vv ver1)"
  by (auto simp: vv_le_def ver_defs)

definition fkey :: "kv_store_version \<Rightarrow> kv_store_key" where
  "fkey v = \<lparr>key = ''/a'', version = v, f_type = FILE, is_deleted = False\<rparr>"

lemma fkey_simps [simp]:
  "key (fkey v) = ''/a''" "version (fkey v) = v" "f_type (fkey v) = FILE" "\<not> is_deleted (fkey v)"
  by (simp_all add: fkey_def)

lemma ref_values [simp]: "main_value ref_env ref_store k = None" "deleted_value ref_env ref_store k = None"
  by (simp_all add: value_in_def ref_store_def)

text \<open>A store that holds two concurrent versions of a file.\<close>

lemma two_versions:
  "\<exists>st. ready st \<and> stored ref_env st ''/a'' =
      [\<lparr>vd_version = ver1, vd_data = ''x''\<rparr>, \<lparr>vd_version = ver2, vd_data = ''y''\<rparr>] \<and>
     main_value ref_env st ''/a'' = Some \<lparr>v_type = FILE,
       vdata = [\<lparr>vd_version = ver1, vd_data = ''x''\<rparr>, \<lparr>vd_version = ver2, vd_data = ''y''\<rparr>]\<rparr>"
proof -
  obtain st1 where st1: "put ref_env (fkey ver1) ''x'' ref_store = (Ret True, st1)" "ready st1"
    using put_file_ref[of ref_store "fkey ver1" "''x''"] by auto
  note p1 = put_file_stored[OF env_ok_ref store_wf_ref _ st1(1), simplified]
  obtain st2 where st2: "put ref_env (fkey ver2) ''y'' st1 = (Ret True, st2)" "ready st2"
    using put_file_ref[of st1 "fkey ver2" "''y''"] st1(2) p1 by auto
  have "store_wf ref_env st1" using st1(2) by (simp add: ready_def)
  note p2 = put_file_stored[OF env_ok_ref this _ st2(1), simplified]
  have "comp_version ver2 ver1 = Concurrent" by (simp add: comp_version_iffs)
  then show ?thesis using st2(2) p1(1) p2(1,5) by (intro exI[of _ st2]) (simp add: vinsert_def)
qed

lemma overwrite_scenario:
  obtains st st' where "ready st" "store_wf ref_env st" "put ref_env (fkey ver3) ''z'' st = (Ret True, st')"
    "stored ref_env st ''/a'' = [\<lparr>vd_version = ver1, vd_data = ''x''\<rparr>, \<lparr>vd_version = ver2, vd_data = ''y''\<rparr>]"
    "main_value ref_env st ''/a'' = Some \<lparr>v_type = FILE,
       vdata = [\<lparr>vd_version = ver1, vd_data = ''x''\<rparr>, \<lparr>vd_version = ver2, vd_data = ''y''\<rparr>]\<rparr>"
proof -
  obtain st where st: "ready st" "stored ref_env st ''/a'' =
      [\<lparr>vd_version = ver1, vd_data = ''x''\<rparr>, \<lparr>vd_version = ver2, vd_data = ''y''\<rparr>]"
      "main_value ref_env st ''/a'' = Some \<lparr>v_type = FILE,
       vdata = [\<lparr>vd_version = ver1, vd_data = ''x''\<rparr>, \<lparr>vd_version = ver2, vd_data = ''y''\<rparr>]\<rparr>"
    using two_versions by blast
  obtain st' where "put ref_env (fkey ver3) ''z'' st = (Ret True, st')"
    using put_file_ref[OF st(1), of "fkey ver3" "''z''"] st(3) by auto
  with st show thesis by (intro that) (auto simp: ready_def)
qed

section \<open>Writing and removing\<close>

theorem put_keeps_every_version_witness:
  "\<exists>st st'. put ref_env (fkey ver3) ''z'' st = (Ret True, st') \<and> covers (stored ref_env st ''/a'') ver1 \<and>
     covers (stored ref_env st' ''/a'') ver3 \<and> covers (stored ref_env st' ''/a'') ver1"
proof (rule overwrite_scenario)
  fix st st'
  assume st: "store_wf ref_env st" "put ref_env (fkey ver3) ''z'' st = (Ret True, st')"
    "stored ref_env st ''/a'' = [\<lparr>vd_version = ver1, vd_data = ''x''\<rparr>, \<lparr>vd_version = ver2, vd_data = ''y''\<rparr>]"
  have c: "covers (stored ref_env st ''/a'') ver1" using st(3) by simp
  from put_keeps_every_version[OF env_ok_ref st(1) _ st(2)]
  have "covers (stored ref_env st' ''/a'') ver3" "covers (stored ref_env st' ''/a'') ver1"
    using c by simp_all
  with st(2) c show ?thesis by blast
qed

theorem put_then_get_data_witness:
  "\<exists>st st'. put ref_env (fkey ver3) ''z'' st = (Ret True, st') \<and> get_data ref_env st' (fkey ver3) = Ret (Some ''z'')"
proof (rule overwrite_scenario)
  fix st st'
  assume st: "store_wf ref_env st" "put ref_env (fkey ver3) ''z'' st = (Ret True, st')"
    "stored ref_env st ''/a'' = [\<lparr>vd_version = ver1, vd_data = ''x''\<rparr>, \<lparr>vd_version = ver2, vd_data = ''y''\<rparr>]"
  from put_then_get_data[OF env_ok_ref st(1) _ st(2)] st(3)
  have "get_data ref_env st' (fkey ver3) = Ret (Some ''z'')" by simp
  with st(2) show ?thesis by blast
qed

theorem put_leaves_superseded_sibling_witness:
  "\<exists>st st'. put ref_env (fkey ver3) ''z'' st = (Ret True, st') \<and>
     get_latest_version ref_env st' ''/a'' = Ret (Some [ver3, ver2])"
proof (rule overwrite_scenario)
  fix st st'
  assume st: "store_wf ref_env st" "put ref_env (fkey ver3) ''z'' st = (Ret True, st')"
    "stored ref_env st ''/a'' = [\<lparr>vd_version = ver1, vd_data = ''x''\<rparr>, \<lparr>vd_version = ver2, vd_data = ''y''\<rparr>]"
  have "comp_version ver3 ver1 = Bigger" "comp_version ver3 ver2 = Bigger"
    by (simp_all add: comp_version_iffs) (metis ver_comparisons(3,4) vv_le_refl)+
  with put_leaves_superseded_sibling[OF env_ok_ref st(1) _ st(2)] st(3)
  have "get_latest_version ref_env st' ''/a'' = Ret (Some [ver3, ver2])" by simp
  with st(2) show ?thesis by blast
qed

definition dkey :: "kv_store_version \<Rightarrow> kv_store_key" where
  "dkey v = \<lparr>key = ''/d'', version = v, f_type = DIRECTORY, is_deleted = False\<rparr>"

lemma dkey_simps [simp]:
  "key (dkey v) = ''/d''" "version (dkey v) = v" "f_type (dkey v) = DIRECTORY" "\<not> is_deleted (dkey v)"
  by (simp_all add: dkey_def)

definition dir_met :: metadata where
  "dir_met = metadata_of_attr zero_stat\<lparr>childs := smap_of [(''/d/f'', FILE, NONE)]\<rparr>"

lemma put_dir_ref:
  "\<exists>st'. put ref_env (dkey ver1) (enc_metadata ref_env dir_met) ref_store = (Ret True, st') \<and> ready st' \<and>
     main_value ref_env st' = (main_value ref_env ref_store)(''/d'' \<mapsto> \<lparr>v_type = DIRECTORY,
       vdata = [\<lparr>vd_version = ver1, vd_data = enc_metadata ref_env dir_met\<rparr>]\<rparr>)"
proof -
  obtain st' where st': "put ref_env (dkey ver1) (enc_metadata ref_env dir_met) ref_store = (Ret True, st')"
    "nr_slices st' = 1" "slice st' = 1"
  proof -
    have "kv_get ref_env (seen_it (dkey ver1) ref_store) ''/d'' = None"
      by (simp add: kv_get_def) (simp add: ref_store_def)
    moreover have "get_slice_for_key ref_env ref_store k = Ret 1" "slice ref_store = 1" "nr_slices ref_store = 1" for k
      by (simp_all add: ref_store_def get_slice_for_key_def)
    ultimately have "fst (put ref_env (dkey ver1) (enc_metadata ref_env dir_met) ref_store) = Ret True"
      "nr_slices (snd (put ref_env (dkey ver1) (enc_metadata ref_env dir_met) ref_store)) = 1"
      "slice (snd (put ref_env (dkey ver1) (enc_metadata ref_env dir_met) ref_store)) = 1"
      by (simp_all add: put_def put_with_merge_def Let_def put_main_ref)
    then show thesis by (intro that[of "snd (put ref_env (dkey ver1) (enc_metadata ref_env dir_met) ref_store)"])
        (simp_all add: prod_eq_iff)
  qed
  from put_True[OF env_ok_ref store_wf_ref st'(1)] have
    "main_value ref_env st' = (main_value ref_env ref_store)(''/d'' \<mapsto> \<lparr>v_type = DIRECTORY,
       vdata = [\<lparr>vd_version = ver1, vd_data = enc_metadata ref_env dir_met\<rparr>]\<rparr>)" "store_wf ref_env st'"
    by (auto simp: after_write_def Let_def)
  with st' show ?thesis by (auto simp: ready_def)
qed

theorem put_directory_joins_versions_witness:
  "\<exists>st' new. put ref_env (dkey ver1) (enc_metadata ref_env dir_met) ref_store = (Ret True, st') \<and>
     stored ref_env st' ''/d'' = [new] \<and> slookup (vv (vd_version new)) 1 = Some 1"
proof -
  obtain st' where st': "put ref_env (dkey ver1) (enc_metadata ref_env dir_met) ref_store = (Ret True, st')"
    using put_dir_ref by blast
  from put_directory_joins_versions[OF env_ok_ref store_wf_ref _ st'] obtain new where
    new: "stored ref_env st' ''/d'' = [new]" "slookup (vv (vd_version new)) 1 = slookup (vv ver1) 1" by auto
  then have "slookup (vv (vd_version new)) 1 = Some 1" by (simp add: ver_defs)
  with st' new(1) show ?thesis by blast
qed

theorem put_refused_witness:
  "\<exists>st. main_value ref_env st ''/a'' \<noteq> None \<and>
     put ref_env (fkey ver3\<lparr>f_type := DIRECTORY\<rparr>) ''m'' st = (Ret False, seen_it (fkey ver3\<lparr>f_type := DIRECTORY\<rparr>) st)"
proof (rule overwrite_scenario)
  fix st st'
  assume st: "ready st" "store_wf ref_env st"
    "main_value ref_env st ''/a'' = Some \<lparr>v_type = FILE,
       vdata = [\<lparr>vd_version = ver1, vd_data = ''x''\<rparr>, \<lparr>vd_version = ver2, vd_data = ''y''\<rparr>]\<rparr>"
  have "put ref_env (fkey ver3\<lparr>f_type := DIRECTORY\<rparr>) ''m'' st = (Ret False, seen_it (fkey ver3\<lparr>f_type := DIRECTORY\<rparr>) st)"
    by (rule put_refused[OF st(2) ready_slice[OF st(1)]]) (simp add: st(3))
  with st(3) show ?thesis by (intro exI[of _ st]) simp
qed

theorem store_wf_invariant_witness:
  "store_wf ref_env (snd (kv_remove ref_env (fkey ver1) ref_store)) \<and>
   (\<exists>r. get_data ref_env ref_store (fkey ver1) = Ret r)"
  using store_wf_invariant[OF env_ok_ref store_wf_ref, of "fkey ver1" "''x''"] by blast

lemma remove_main_ref:
  assumes "ready st" "main_value ref_env st (key k) = Some v" "f_type k = FILE"
  shows "\<exists>st'. remove_from_main_db ref_env k st = (Ret True, st')"
  using assms value_in_get_db[OF assms(2)]
  by (auto simp: remove_from_main_db_def ready_slice kv_get_def deserialize_value_def Let_def delete_main_def put_main_ref)

theorem remove_keeps_only_older_or_concurrent_witness:
  "\<exists>st st'. stored ref_env st ''/a'' = [\<lparr>vd_version = ver1, vd_data = ''x''\<rparr>, \<lparr>vd_version = ver2, vd_data = ''y''\<rparr>] \<and>
     remove_from_main_db ref_env (fkey ver1) st = (Ret True, st') \<and>
     stored ref_env st' ''/a'' = [\<lparr>vd_version = ver2, vd_data = ''y''\<rparr>]"
proof (rule overwrite_scenario)
  fix st st'
  assume st: "ready st" "store_wf ref_env st"
    "stored ref_env st ''/a'' = [\<lparr>vd_version = ver1, vd_data = ''x''\<rparr>, \<lparr>vd_version = ver2, vd_data = ''y''\<rparr>]"
    "main_value ref_env st ''/a'' = Some \<lparr>v_type = FILE,
       vdata = [\<lparr>vd_version = ver1, vd_data = ''x''\<rparr>, \<lparr>vd_version = ver2, vd_data = ''y''\<rparr>]\<rparr>"
  obtain st1 where st1: "remove_from_main_db ref_env (fkey ver1) st = (Ret True, st1)"
    using remove_main_ref[OF st(1), of "fkey ver1"] st(4) by auto
  from remove_keeps_only_older_or_concurrent[OF env_ok_ref st(2) _ _ _ st1,
      of "\<lparr>v_type = FILE, vdata = [\<lparr>vd_version = ver1, vd_data = ''x''\<rparr>, \<lparr>vd_version = ver2, vd_data = ''y''\<rparr>]\<rparr>"] st(4)
  have "stored ref_env st1 ''/a'' = [\<lparr>vd_version = ver2, vd_data = ''y''\<rparr>]" by simp
  with st(3) st1 show ?thesis by blast
qed

theorem remove_records_deletion_witness:
  "\<exists>st' v. kv_remove ref_env (fkey ver1) ref_store = (Ret True, st') \<and>
     deleted_value ref_env st' ''/a'' = Some v \<and> covers (vdata v) ver1"
proof -
  have "fst (kv_remove ref_env (fkey ver1) ref_store) = Ret True"
    by (simp add: kv_remove_def Let_def remove_from_main_db_def ready_slice kv_get_def kv_get_deleted_def deleted_after_def
        put_deleted_def) (simp add: ref_store_def)
  then obtain st' where st': "kv_remove ref_env (fkey ver1) ref_store = (Ret True, st')"
    by (cases "kv_remove ref_env (fkey ver1) ref_store") simp
  from remove_records_deletion[OF env_ok_ref store_wf_ref st'] st' show ?thesis by auto
qed

theorem verify_if_version_exists_meaning_witness:
  "\<exists>st. stored ref_env st ''/a'' = [\<lparr>vd_version = ver1, vd_data = ''x''\<rparr>, \<lparr>vd_version = ver2, vd_data = ''y''\<rparr>] \<and>
     verify_if_version_exists ref_env st (fkey ver3) = Ret True"
proof (rule overwrite_scenario)
  fix st st'
  assume st: "store_wf ref_env st"
    "stored ref_env st ''/a'' = [\<lparr>vd_version = ver1, vd_data = ''x''\<rparr>, \<lparr>vd_version = ver2, vd_data = ''y''\<rparr>]"
  from verify_if_version_exists_meaning[OF st(1), of "fkey ver3"] st(2) show ?thesis
    by (intro exI[of _ st]) simp
qed

section \<open>Partial updates, anti-entropy and transfer\<close>

lemma put_blks_ref:
  assumes "length data < 2 ^ 43"
  shows "set is \<subseteq> {1..NR_BLKS (length data)} \<Longrightarrow> nr_slices st = 1 \<Longrightarrow> slice st = 1 \<Longrightarrow>
    put_blks ref_env base k data is st \<noteq> None"
proof (induction "is" arbitrary: st)
  case (Cons i "is")
  let ?b = "take BLK_SIZE (drop ((i - 1) * BLK_SIZE) data)"
  have b: "split_data (Some data) (int i) = Ret (Some ?b)"
    using Cons.prems(1) assms by (intro split_data_block) auto
  obtain st1 where st1: "put_tmp_anti_entropy ref_env base (k\<lparr>key := blk_path base i\<rparr>) ?b st = (Ret True, st1)"
    "nr_slices st1 = 1" "slice st1 = 1"
    using Cons.prems by (simp add: put_tmp_anti_entropy_def get_slice_for_key_def tmp_put_def get_blk_num_def Let_def
        split: prod.splits)
  have "set is \<subseteq> {1..NR_BLKS (length data)}" using Cons.prems(1) by simp
  from Cons.IH[OF this st1(2,3)] show ?case using b st1(1) by simp
qed simp

theorem blocks_reassembled_witness:
  "\<exists>st'. put_blks ref_env ''/d'' (dkey ver1) (replicate 5000 CHR ''x'') [2, 1] ref_store = Some st' \<and>
     check_if_have_all_blks_and_put_metadata ref_env ''/d'' (dkey ver1) 2 st' =
       (case put ref_env (dkey ver1\<lparr>key := ''/d''\<rparr>) (replicate 5000 CHR ''x'') st' of
          (Ret _, st'') \<Rightarrow> (Ret True, st'') | (Throw e, st'') \<Rightarrow> (Throw e, st'') | (Hang, st'') \<Rightarrow> (Hang, st''))"
proof -
  have len: "length (replicate 5000 CHR ''x'') = 5000" by (rule length_replicate)
  have nr: "NR_BLKS 5000 = 2" by (simp add: NR_BLKS_def BLK_SIZE_def)
  have blks: "set [2, 1] = {1..2::nat}" by auto
  have sl: "nr_slices ref_store = 1" "slice ref_store = 1" by (simp_all add: ref_store_def)
  obtain st' where st': "put_blks ref_env ''/d'' (dkey ver1) (replicate 5000 CHR ''x'') [2, 1] ref_store = Some st'"
    using put_blks_ref[of "replicate 5000 CHR ''x''" "[2, 1]" ref_store "''/d''" "dkey ver1", unfolded len nr blks] sl
    by auto
  have rx: "regex_ok (regex_search ref_env)" by (simp add: regex_ok_ref)
  have pl: "plain ''/d''" by simp
  have "check_if_have_all_blks_and_put_metadata ref_env ''/d'' (dkey ver1) 2 st' =
       (case put ref_env (dkey ver1\<lparr>key := ''/d''\<rparr>) (replicate 5000 CHR ''x'') st' of
          (Ret _, st'') \<Rightarrow> (Ret True, st'') | (Throw e, st'') \<Rightarrow> (Throw e, st'') | (Hang, st'') \<Rightarrow> (Hang, st''))"
    by (rule blocks_reassembled[OF env_ok_ref rx pl _ _ st', unfolded len nr])
      (use blks in \<open>simp_all add: ready_slice[OF ready_ref]\<close>)
  with st' show ?thesis by blast
qed

lemma dir_scenario:
  obtains st where "ready st" "main_value ref_env st ''/d'' = Some \<lparr>v_type = DIRECTORY,
       vdata = [\<lparr>vd_version = ver1, vd_data = enc_metadata ref_env dir_met\<rparr>]\<rparr>"
  using put_dir_ref by auto

lemma dir_update_ref:
  assumes "ready st" "main_value ref_env st ''/d'' = Some \<lparr>v_type = DIRECTORY,
       vdata = [\<lparr>vd_version = ver1, vd_data = enc_metadata ref_env dir_met\<rparr>]\<rparr>"
  shows "\<exists>st'. put_metadata_child ref_env (dkey ver3) c cr d st = (Ret True, st')"
    "\<exists>st'. put_metadata_stat ref_env (dkey ver3) (enc_attr ref_env a) st = (Ret True, st')"
proof -
  obtain b where b: "slookup (db st) ''/d'' = Some b" "dec_value ref_env b = Some \<lparr>v_type = DIRECTORY,
       vdata = [\<lparr>vd_version = ver1, vd_data = enc_metadata ref_env dir_met\<rparr>]\<rparr>"
    using value_in_get_db[OF assms(2)] by auto
  have c: "comp_version ver3 ver1 \<noteq> Lower" "comp_version ver3 ver1 \<noteq> Equal"
    by (auto simp: comp_version_iffs) (metis ver_comparisons(3) vv_le_refl)
  show "\<exists>st'. put_metadata_child ref_env (dkey ver3) c cr d st = (Ret True, st')"
    using b c ready_slice[OF assms(1)]
    by (simp add: put_metadata_child_def Let_def kv_get_def deserialize_value_def deserialize_metadata_def put_main_ref)
  show "\<exists>st'. put_metadata_stat ref_env (dkey ver3) (enc_attr ref_env a) st = (Ret True, st')"
    using b c ready_slice[OF assms(1)]
    by (simp add: put_metadata_stat_def Let_def kv_get_def deserialize_value_def deserialize_metadata_def
        deserialize_attr_def put_main_ref)
qed

theorem put_metadata_child_effect_witness:
  "\<exists>st st' met' new. put_metadata_child ref_env (dkey ver3) ''/d/g'' True False st = (Ret True, st') \<and>
     main_value ref_env st' ''/d'' = Some \<lparr>v_type = DIRECTORY, vdata = [new]\<rparr> \<and>
     dec_metadata ref_env (vd_data new) = Some met' \<and>
     slookup (childs met') ''/d/g'' = Some (FILE, ADDED) \<and> slookup (childs met') ''/d/f'' = Some (FILE, NONE)"
proof (rule dir_scenario)
  fix st
  assume st: "ready st" "main_value ref_env st ''/d'' = Some \<lparr>v_type = DIRECTORY,
       vdata = [\<lparr>vd_version = ver1, vd_data = enc_metadata ref_env dir_met\<rparr>]\<rparr>"
  obtain st' where st': "put_metadata_child ref_env (dkey ver3) ''/d/g'' True False st = (Ret True, st')"
    using dir_update_ref(1)[OF st] by blast
  obtain met' new where "main_value ref_env st' ''/d'' = Some \<lparr>v_type = DIRECTORY, vdata = [new]\<rparr>"
      "dec_metadata ref_env (vd_data new) = Some met'"
      "slookup (childs met') ''/d/g'' = Some (FILE, ADDED)"
      "slookup (childs met') ''/d/f'' = slookup (childs dir_met) ''/d/f''"
    using put_metadata_child_effect[OF env_ok_ref st',
      of "\<lparr>v_type = DIRECTORY, vdata = [\<lparr>vd_version = ver1, vd_data = enc_metadata ref_env dir_met\<rparr>]\<rparr>" _ "[]" dir_met] st(2)
    by auto
  then show ?thesis using st' by (simp add: dir_met_def smap_of_def) blast
qed

theorem put_metadata_stat_drops_children_witness:
  "\<exists>st st' met' new. put_metadata_stat ref_env (dkey ver3) (enc_attr ref_env zero_stat) st = (Ret True, st') \<and>
     slookup (childs dir_met) ''/d/f'' = Some (FILE, NONE) \<and>
     main_value ref_env st' ''/d'' = Some \<lparr>v_type = DIRECTORY, vdata = [new]\<rparr> \<and>
     dec_metadata ref_env (vd_data new) = Some met' \<and> childs met' = sempty"
proof (rule dir_scenario)
  fix st
  assume st: "ready st" "main_value ref_env st ''/d'' = Some \<lparr>v_type = DIRECTORY,
       vdata = [\<lparr>vd_version = ver1, vd_data = enc_metadata ref_env dir_met\<rparr>]\<rparr>"
  obtain st' where st': "put_metadata_stat ref_env (dkey ver3) (enc_attr ref_env zero_stat) st = (Ret True, st')"
    using dir_update_ref(2)[OF st] by blast
  obtain met' new where "main_value ref_env st' ''/d'' = Some \<lparr>v_type = DIRECTORY, vdata = [new]\<rparr>"
      "dec_metadata ref_env (vd_data new) = Some met'" "childs met' = sempty"
    using put_metadata_stat_drops_children[OF env_ok_ref st',
      of "\<lparr>v_type = DIRECTORY, vdata = [\<lparr>vd_version = ver1, vd_data = enc_metadata ref_env dir_met\<rparr>]\<rparr>" _ "[]" dir_met] st(2)
    by auto
  moreover have "slookup (childs dir_met) ''/d/f'' = Some (FILE, NONE)" by (simp add: dir_met_def smap_of_def)
  ultimately show ?thesis using st' by blast
qed

theorem anti_entropy_requests_witness:
  "\<exists>st. stored ref_env st ''/a'' = [\<lparr>vd_version = ver1, vd_data = ''x''\<rparr>, \<lparr>vd_version = ver2, vd_data = ''y''\<rparr>] \<and>
     remove_from_map_existent_keys ref_env st [(fkey ver3, 1)] = Ret []"
proof (rule overwrite_scenario)
  fix st st'
  assume st: "ready st" "store_wf ref_env st"
    "stored ref_env st ''/a'' = [\<lparr>vd_version = ver1, vd_data = ''x''\<rparr>, \<lparr>vd_version = ver2, vd_data = ''y''\<rparr>]"
  from anti_entropy_requests[OF st(2), of "[(fkey ver3, 1)]" "\<lambda>_. slice st"] st(3)
  show ?thesis by (intro exI[of _ st]) (simp add: ready_slice[OF st(1)])
qed

theorem sample_keys_sound_witness:
  "\<exists>keys. sample_keys ref_env 0 (\<lambda>_. 0) 2 100 80 (db (snd (put ref_env (fkey ver1) ''x'' ref_store))) = Ret keys \<and>
     int (length keys) \<le> 1"
proof -
  let ?d = "db (snd (put ref_env (fkey ver1) ''x'' ref_store))"
  have "db_wf ref_env ?d" using put_wf[OF env_ok_ref store_wf_ref] by (simp add: store_wf_def)
  from sample_keys_sound[OF env_ok_ref this, of "entries ?d" 0 "\<lambda>_. 0" 2 100 80]
  show ?thesis by (auto simp: cdiv_def)
qed

theorem send_keys_gt_complete_witness:
  "\<exists>st. snd (send_keys_gt ref_env (Ret ()) st) = Ret () \<and> (fkey ver1, ''x'') \<in> set (fst (send_keys_gt ref_env (Ret ()) st))"
proof (rule overwrite_scenario)
  fix st st'
  assume st: "ready st" "store_wf ref_env st"
    "main_value ref_env st ''/a'' = Some \<lparr>v_type = FILE,
       vdata = [\<lparr>vd_version = ver1, vd_data = ''x''\<rparr>, \<lparr>vd_version = ver2, vd_data = ''y''\<rparr>]\<rparr>"
  note c = send_keys_gt_complete[OF env_ok_ref st(2), of "entries (db st)" "entries (db_deleted st)"]
  have "(fkey ver1, ''x'') \<in> set (fst (send_keys_gt ref_env (Ret ()) st))"
    unfolding conjunct2[OF c, OF ref_env_simps(6) ref_env_simps(6)] fkey_def mem_Collect_eq
    by (rule exI[of _ "''/a''"], rule exI[of _ "\<lparr>v_type = FILE,
        vdata = [\<lparr>vd_version = ver1, vd_data = ''x''\<rparr>, \<lparr>vd_version = ver2, vd_data = ''y''\<rparr>]\<rparr>"],
        rule exI[of _ "\<lparr>vd_version = ver1, vd_data = ''x''\<rparr>"], rule exI[of _ False]) (simp add: st(3))
  with c show ?thesis by (intro exI[of _ st]) simp
qed

theorem get_incomplete_blks_never_resumes_witness:
  "\<exists>st'. put_tmp_key_entry_size ref_env (dkey ver1) 5000 ref_store = (Ret True, st') \<and>
     get_incomplete_blks ref_env (dkey ver1) 5000 st' = (Ret (False, []), st')"
proof -
  obtain st' where st': "put_tmp_key_entry_size ref_env (dkey ver1) 5000 ref_store = (Ret True, st')"
    by (simp add: put_tmp_key_entry_size_def ready_slice tmp_put_def)
  from get_incomplete_blks_never_resumes[OF env_ok_ref this]
  have "get_incomplete_blks ref_env (dkey ver1) 5000 st' = (Ret (False, []), st')" by (simp add: ref_store_def)
  with st' show ?thesis by blast
qed

lemma delete_all_ref: "\<exists>d'. delete_all ref_env ks (True, d) = (True, d')"
  by (induction ks arbitrary: d) auto

lemma clean_db_ref: "\<exists>st'. clean_db ref_env st = (True, st')"
proof -
  obtain d1 where "delete_all ref_env (map fst (entries (db st))) (True, db st) = (True, d1)"
    using delete_all_ref by blast
  moreover obtain d2 where "delete_all ref_env (map fst (entries (db_deleted st))) (True, db_deleted st) = (True, d2)"
    using delete_all_ref by blast
  moreover obtain d3 where "delete_all ref_env (map fst (entries (db_tmp_anti_entropy st)))
      (True, db_tmp_anti_entropy st) = (True, d3)"
    using delete_all_ref by blast
  ultimately show ?thesis by (simp add: clean_db_def)
qed

theorem clean_db_empties_witness:
  "\<exists>st'. clean_db ref_env (snd (put ref_env (fkey ver1) ''x'' ref_store)) = (True, st') \<and>
     get_db ref_env ''/a'' (db st') = None"
proof -
  let ?st = "snd (put ref_env (fkey ver1) ''x'' ref_store)"
  obtain st' where st': "clean_db ref_env ?st = (True, st')" using clean_db_ref by blast
  from clean_db_empties[OF env_ok_ref st', of "entries (db ?st)" "entries (db_deleted ?st)"
      "entries (db_tmp_anti_entropy ?st)" "''/a''"]
  have "get_db ref_env ''/a'' (db st') = None" by simp
  with st' show ?thesis by blast
qed

section \<open>Placement, duplicate filters, block keys\<close>

theorem slice_of_key_is_its_interval_witness:
  "\<exists>s. get_slice_for_key ref_env (ref_store\<lparr>nr_slices := 4\<rparr>) ''/a'' = Ret (int s) \<and> 1 \<le> s \<and> s \<le> 4"
proof -
  have "unat (std_hash ref_env ''/a'') \<le> 4 * ((2 ^ 64 - 1) div 4)" by (simp add: ref_hash_def)
  from slice_of_key_is_its_interval[of "ref_store\<lparr>nr_slices := 4\<rparr>" 4 ref_env "''/a''", OF _ _ _ this]
  show ?thesis by auto
qed

theorem slice_of_key_may_not_return_witness:
  "get_slice_for_key (ref_env\<lparr>std_hash := (\<lambda>_. - 1)\<rparr>) (ref_store\<lparr>nr_slices := 6\<rparr>) ''/a'' = Hang"
  by (rule slice_of_key_may_not_return) simp_all

theorem seen_filter_sound_witness:
  "have_seen (seen_it (fkey ver1) (clear_seen_log ref_store)) (fkey ver1) \<and>
   \<not> have_seen (seen_it (fkey ver1) (clear_seen_log ref_store)) (dkey ver1)"
  using seen_filter_sound[of "[fkey ver1]" ref_store "dkey ver1"] seen_filter_sound[of "[]" "clear_seen_log ref_store" "fkey ver1"]
  by (auto simp: fkey_def dkey_def)

theorem update_partition_effect_witness:
  "\<not> have_seen (update_partition 2 4 (seen_it (fkey ver1) ref_store)) (fkey ver1) \<and>
   slice (update_partition 2 4 (seen_it (fkey ver1) ref_store)) = 2"
  using update_partition_effect[of 4 "seen_it (fkey ver1) ref_store" 2 "fkey ver1"] by (simp add: ref_store_def)

theorem blk_key_roundtrip_witness:
  "get_base_path ref_regex (blk_path ''/d'' 17) [] = (0, ''/d'') \<and>
   stoi (snd (get_blk_num ref_regex (blk_path ''/d'' 17) [])) = Ret 17"
  using blk_key_roundtrip[OF regex_ok_ref, of "''/d''" 17] by simp

end
