(* ===== verification/Data_Handler.thy ===== *)
theory Data_Handler
  imports Kv_Transfer Messages
begin

text \<open>
  What a peer does with a request: \<^verbatim>\<open>df_data_handlers/data_handler_listener.cpp\<close>, one definition per handler.

  A handler takes the environment, the views of the peer-sampling service at that moment, the outcome \<open>lucky\<close> of the random
  draw (\<^verbatim>\<open>achance <= chance\<close>), the message and the node; it returns the datagrams it sends, in order, and the
  node it leaves behind. An exception that a handler does not catch is caught by the receive loop, which drops the message.
  \<^verbatim>\<open>print_store\<close>, a debugging dump, is left out.

  In the anti-entropy handlers the statement \<^verbatim>\<open>f_type == FileType::FILE\<close> compares instead of assigning, so the variable
  stays uninitialised for files; \<open>junk\<close> is the value found there.
\<close>

section \<open>State and actions\<close>

record 'p views =
  have_peer_from_slice :: "int \<Rightarrow> 'p list"
  get_slice_local_view :: "'p list"
  get_view :: "'p list"

record 'd node =
  nd_ip :: string
  nd_port :: int
  nd_id :: long
  smart_forward :: bool
  store :: "'d kv_store"
  anti_entropy_req_count :: long

text \<open>\<^verbatim>\<open>reply_client\<close> clears the flag of the message it sends; \<^verbatim>\<open>forward_message\<close> sends the message to every peer of a view.
  Failures of the socket are reported on the console and otherwise ignored.\<close>

datatype 'p action =
    Reply_client string int kv_message
  | Forward_message "'p list" kv_message

definition reply_client :: "kv_body \<Rightarrow> string \<Rightarrow> int \<Rightarrow> 'p action" where
  "reply_client b sender_ip sender_port = Reply_client sender_ip sender_port \<lparr>forwarded_within_group = False, body = b\<rparr>"

definition catch_exn :: "'a \<Rightarrow> 'a res \<Rightarrow> 'a res" where
  "catch_exn d r = (case r of Throw e \<Rightarrow> Ret d | _ \<Rightarrow> r)"

section \<open>Forwarding\<close>

definition forward_decider :: "'d env \<Rightarrow> 'p views \<Rightarrow> 'd node \<Rightarrow> kv_message \<Rightarrow> string \<Rightarrow> 'p action list res" where
  "forward_decider E V nd msg k =
     (if smart_forward nd then
        rbind (get_slice_for_key E (store nd) k) (\<lambda>obj_slice.
          let slice_peers = have_peer_from_slice V obj_slice in
          Ret [Forward_message (if slice_peers = [] then get_view V else slice_peers) msg])
      else Ret [Forward_message (get_view V) msg])"

text \<open>The ending of the read handlers when the node cannot answer.\<close>

definition forward_unknown :: "'d env \<Rightarrow> 'p views \<Rightarrow> 'd node \<Rightarrow> kv_message \<Rightarrow> string \<Rightarrow> 'p action list res" where
  "forward_unknown E V nd msg k =
     rbind (get_slice_for_key E (store nd) k) (\<lambda>obj_slice.
       let slice_peers = have_peer_from_slice V obj_slice in
       Ret [Forward_message (if slice_peers \<noteq> [] \<and> smart_forward nd then slice_peers else get_view V) msg])"

section \<open>Reads\<close>

fun covered_by_deleted :: "kv_store_version \<Rightarrow> kv_store_version list \<Rightarrow> bool" where
  "covered_by_deleted v [] = False"
| "covered_by_deleted v (dv # dvs) =
     (if comp_version v dv = Lower \<or> comp_version v dv = Equal then True else covered_by_deleted v dvs)"

text \<open>The ending shared by \<^verbatim>\<open>process_get_message\<close> and \<^verbatim>\<open>process_get_metadata_message\<close> once there is something to answer.\<close>

definition answer_get :: "'d env \<Rightarrow> 'p views \<Rightarrow> bool \<Rightarrow> kv_message \<Rightarrow> string \<Rightarrow> 'p action \<Rightarrow> 'd node \<Rightarrow> 'p action list res" where
  "answer_get E V lucky msg k rep nd =
     rbind (get_slice_for_key E (store nd) k) (\<lambda>obj_slice.
       if \<not> forwarded_within_group msg \<or> lucky then
         Ret (rep # (if slice (store nd) = obj_slice
                     then [Forward_message (get_slice_local_view V) (msg\<lparr>forwarded_within_group := True\<rparr>)] else []))
       else if slice (store nd) = obj_slice then Ret [Forward_message (get_slice_local_view V) msg]
       else (let slice_peers = have_peer_from_slice V obj_slice in
             Ret [Forward_message (if slice_peers \<noteq> [] \<and> smart_forward nd then slice_peers else get_view V) msg]))"

definition process_get_message :: "'d env \<Rightarrow> 'p views \<Rightarrow> bool \<Rightarrow> kv_message \<Rightarrow> get_message \<Rightarrow> 'd node \<Rightarrow>
    'p action list res \<times> 'd node" where
  "process_get_message E V lucky msg m nd0 =
     (let k = pk_key (gt_key m); req_id = gt_reqid m in
      if in_log (store nd0) req_id then (Ret [], nd0)
      else
        (let nd = nd0\<lparr>store := log_req req_id (store nd0)\<rparr>; st = store nd; v = version_of_msg (gt_key m) in
         (rbind (get_slice_for_key E st k) (\<lambda>s.
            rbind (if s = slice st then
                     rbind (get_latest_deleted_version E st k) (\<lambda>r.
                       Ret (case r of None \<Rightarrow> False | Some del_v \<Rightarrow> covered_by_deleted v del_v))
                   else Ret False) (\<lambda>del.
              rbind (if \<not> del then get_data E st \<lparr>key = k, version = v, f_type = FILE, is_deleted = False\<rparr> else Ret None)
                (\<lambda>data.
                  if data \<noteq> None \<or> del then
                    answer_get E V lucky msg k
                      (reply_client (build_get_reply_message (nd_ip nd) (nd_port nd) (nd_id nd) req_id
                         (if gt_no_data m then None else data) k v del) (m_ip m) (m_port m)) nd
                  else forward_unknown E V nd msg k))),
          nd)))"

text \<open>
  The three handlers that report the latest versions. \<open>query\<close> is the first read of the store inside the \<^verbatim>\<open>try\<close> block (versions and
  data, \<open>None\<close> when the key is unknown), followed by the read of the deleted versions. Exceptions are swallowed: after one in
  the first read there is nothing to answer, after one in the second what the first read found. A node of the right slice that
  has no data answers with empty lists.
\<close>

definition latest_query ::
  "'d env \<Rightarrow> string \<Rightarrow> ('d kv_store \<Rightarrow> (kv_store_version list \<times> bytes list) option res) \<Rightarrow> 'd kv_store \<Rightarrow>
     (kv_store_version list \<times> bytes list \<times> kv_store_version list) option res" where
  "latest_query E k query st =
     (case query st of
        Throw e \<Rightarrow> Ret None
      | Hang \<Rightarrow> Hang
      | Ret r \<Rightarrow>
          (let (vs, ds) = (case r of None \<Rightarrow> ([], []) | Some p \<Rightarrow> p) in
           case get_latest_deleted_version E st k of
             Throw e \<Rightarrow> Ret (if r = None then None else Some (vs, ds, []))
           | Hang \<Rightarrow> Hang
           | Ret d \<Rightarrow> Ret (Some (vs, ds, case d of None \<Rightarrow> [] | Some dv \<Rightarrow> dv))))"

definition latest_handler ::
  "'d env \<Rightarrow> 'p views \<Rightarrow> bool \<Rightarrow> kv_message \<Rightarrow> string \<Rightarrow> int \<Rightarrow> string \<Rightarrow> string \<Rightarrow> bool \<Rightarrow>
     ('d kv_store \<Rightarrow> (kv_store_version list \<times> bytes list) option res) \<Rightarrow> 'd node \<Rightarrow>
     'p action list res \<times> 'd node" where
  "latest_handler E V lucky msg sender_ip sender_port k req_id bring_data query nd0 =
     (if in_log (store nd0) req_id then (Ret [], nd0)
      else
        (let nd = nd0\<lparr>store := log_req req_id (store nd0)\<rparr>; st = store nd in
         (rbind (get_slice_for_key E st k) (\<lambda>s.
            rbind (if s = slice st then latest_query E k query st else Ret None) (\<lambda>found.
              case found of
                None \<Rightarrow> forward_unknown E V nd msg k
              | Some (latest_v, data_v, latest_del_v) \<Rightarrow>
                  if \<not> forwarded_within_group msg \<or> lucky then
                    Ret [reply_client (build_get_latest_version_reply_message (nd_ip nd) (nd_port nd) (nd_id nd) req_id k
                           latest_v bring_data data_v latest_del_v) sender_ip sender_port,
                         Forward_message (get_slice_local_view V) (msg\<lparr>forwarded_within_group := True\<rparr>)]
                  else
                    Ret [Forward_message (if get_slice_local_view V \<noteq> [] \<and> smart_forward nd
                           then get_slice_local_view V else get_view V) msg])),
          nd)))"

definition unzip_result :: "(kv_store_version \<times> bytes) list option res \<Rightarrow> (kv_store_version list \<times> bytes list) option res" where
  "unzip_result r = rbind r (\<lambda>x. Ret (map_option (\<lambda>xs. (map fst xs, map snd xs)) x))"

definition process_get_latest_version_msg ::
  "'d env \<Rightarrow> 'p views \<Rightarrow> bool \<Rightarrow> kv_message \<Rightarrow> get_latest_version_message \<Rightarrow> 'd node \<Rightarrow> 'p action list res \<times> 'd node" where
  "process_get_latest_version_msg E V lucky msg m =
     latest_handler E V lucky msg (m_ip m) (m_port m) (gv_key m) (gv_reqid m) (gv_get_data m) (\<lambda>st.
       if gv_get_data m then unzip_result (get_latest_data_version E st (gv_key m))
       else rbind (get_latest_version E st (gv_key m)) (\<lambda>r. Ret (map_option (\<lambda>vs. (vs, [])) r)))"

definition process_get_latest_metadata_stat_msg ::
  "'d env \<Rightarrow> 'p views \<Rightarrow> bool \<Rightarrow> kv_message \<Rightarrow> get_latest_metadata_message \<Rightarrow> 'd node \<Rightarrow> 'p action list res \<times> 'd node" where
  "process_get_latest_metadata_stat_msg E V lucky msg m =
     latest_handler E V lucky msg (m_ip m) (m_port m) (mq_key m) (mq_reqid m) True
       (\<lambda>st. unzip_result (get_metadata_stat E st (mq_key m)))"

definition process_get_latest_metadata_size_msg ::
  "'d env \<Rightarrow> 'p views \<Rightarrow> bool \<Rightarrow> kv_message \<Rightarrow> get_latest_metadata_message \<Rightarrow> 'd node \<Rightarrow> 'p action list res \<times> 'd node" where
  "process_get_latest_metadata_size_msg E V lucky msg m =
     latest_handler E V lucky msg (m_ip m) (m_port m) (mq_key m) (mq_reqid m) True
       (\<lambda>st. unzip_result (get_metadata_size E st (mq_key m)))"

text \<open>What a node knows of a block of a directory: the block, whether it has a newer version, whether the version
  is deleted.\<close>

definition metadata_block :: "'d env \<Rightarrow> 'd kv_store \<Rightarrow> string \<Rightarrow> int \<Rightarrow> kv_store_version \<Rightarrow> (bytes option \<times> bool \<times> bool) res" where
  "metadata_block E st base_path blk_num v =
     rbind (get_data E st \<lparr>key = base_path, version = v, f_type = DIRECTORY, is_deleted = False\<rparr>) (\<lambda>data.
       case data of
         Some d \<Rightarrow> rbind (split_data (Some d) blk_num) (\<lambda>b. Ret (b, False, False))
       | None \<Rightarrow>
           rbind (get_latest_version E st base_path) (\<lambda>last_v.
             rbind (get_latest_deleted_version E st base_path) (\<lambda>last_del_v.
               rbind (case last_v of
                        None \<Rightarrow> Ret (False, False)
                      | Some lv \<Rightarrow> rbind (vec_at lv 0) (\<lambda>l.
                          if comp_version v l = Lower then
                            (case last_del_v of
                               None \<Rightarrow> Ret (True, False)
                             | Some dv \<Rightarrow> rbind (vec_at dv 0) (\<lambda>d. Ret (True, comp_version l d \<in> {Lower, Equal})))
                          else Ret (False, False))) (\<lambda>(higher_version, del).
                 case last_del_v of
                   None \<Rightarrow> Ret (None, higher_version, del)
                 | Some dv \<Rightarrow>
                     if del then Ret (None, higher_version, del)
                     else rbind (vec_at dv 0) (\<lambda>d. Ret (None, higher_version, comp_version v d \<in> {Lower, Equal}))))))"

definition process_get_metadata_message ::
  "'d env \<Rightarrow> 'p views \<Rightarrow> bool \<Rightarrow> kv_message \<Rightarrow> get_metadata_message \<Rightarrow> 'd node \<Rightarrow> 'p action list res \<times> 'd node" where
  "process_get_metadata_message E V lucky msg m nd0 =
     (let k = pk_key (gd_key m); req_id = gd_reqid m in
      if in_log (store nd0) req_id then (Ret [], nd0)
      else
        (let nd = nd0\<lparr>store := log_req req_id (store nd0)\<rparr>; st = store nd; v = version_of_msg (gd_key m);
             base = get_base_path (regex_search E) k []; blk = get_blk_num (regex_search E) k []
         in (rbind (if fst base = 0 \<and> fst blk = 0 then
                      rbind (stoi (snd blk)) (\<lambda>blk_num.
                        rbind (get_slice_for_key E st (snd base)) (\<lambda>s.
                          if s = slice st then metadata_block E st (snd base) blk_num v
                          else Ret (None, False, False)))
                    else Ret (None, False, False)) (\<lambda>(data, higher_version, del).
               if data \<noteq> None \<or> higher_version \<or> del then
                 answer_get E V lucky msg k
                   (reply_client (build_get_metadata_reply_message (nd_ip nd) (nd_port nd) (nd_id nd) req_id data k v del
                      higher_version) (m_ip m) (m_port m)) nd
               else forward_unknown E V nd msg k), nd)))"

section \<open>Writes\<close>

text \<open>The three write handlers differ in the store operation, the duplicate filter, the test for an extra reply and the reply.
  \<open>op\<close> runs the store operation.\<close>

definition write_handler ::
  "'d env \<Rightarrow> 'p views \<Rightarrow> bool \<Rightarrow> kv_message \<Rightarrow> kv_store_key \<Rightarrow> bool \<Rightarrow> bool \<Rightarrow>
     ('d kv_store \<Rightarrow> bool res \<times> 'd kv_store) \<Rightarrow> ('d kv_store \<Rightarrow> bool res) \<Rightarrow> 'p action \<Rightarrow> 'd node \<Rightarrow>
     'p action list res \<times> 'd node" where
  "write_handler E V lucky msg key_comp seen_before extra_reply op exists_in rep nd =
     (if \<not> seen_before then
        (case op (store nd) of (r, st) \<Rightarrow>
           (let nd' = nd\<lparr>store := st\<rparr> in
            (rbind (catch_exn False r) (\<lambda>stored.
               if stored then
                 (if \<not> forwarded_within_group msg \<or> lucky
                  then Ret [rep, Forward_message (get_slice_local_view V) (msg\<lparr>forwarded_within_group := True\<rparr>)]
                  else Ret [Forward_message (get_slice_local_view V) msg])
               else forward_decider E V nd' msg (key key_comp)), nd')))
      else if extra_reply then
        (rbind (is_key_is_for_me E (store nd) key_comp) (\<lambda>mine.
           if mine then
             rbind (exists_in (store nd)) (\<lambda>found.
               if found then Ret (if \<not> forwarded_within_group msg \<or> lucky then [rep] else [])
               else forward_decider E V nd msg (key key_comp))
           else forward_decider E V nd msg (key key_comp)), nd)
      else (Ret [], nd))"

definition process_put_message ::
  "'d env \<Rightarrow> 'p views \<Rightarrow> bool \<Rightarrow> kv_message \<Rightarrow> put_message \<Rightarrow> 'd node \<Rightarrow> 'p action list res \<times> 'd node" where
  "process_put_message E V lucky msg m nd =
     (let v = version_of_msg (pm_key m);
          key_comp = \<lparr>key = pk_key (pm_key m), version = v, f_type = pm_type m, is_deleted = False\<rparr>
      in write_handler E V lucky msg key_comp (have_seen (store nd) key_comp) (pm_extra_reply m)
           (put E key_comp (pm_data m)) (\<lambda>st. verify_if_version_exists E st key_comp)
           (reply_client (build_put_reply_message (nd_ip nd) (nd_port nd) (nd_id nd) (key key_comp) v (pm_type m))
              (m_ip m) (m_port m)) nd)"

definition process_delete_message ::
  "'d env \<Rightarrow> 'p views \<Rightarrow> bool \<Rightarrow> kv_message \<Rightarrow> delete_message \<Rightarrow> 'd node \<Rightarrow> 'p action list res \<times> 'd node" where
  "process_delete_message E V lucky msg m nd =
     (let v = version_of_msg (dm_key m);
          key_comp = \<lparr>key = pk_key (dm_key m), version = v, f_type = dm_type m, is_deleted = True\<rparr>
      in write_handler E V lucky msg key_comp (have_seen_deleted (store nd) key_comp) (dm_extra_reply m)
           (kv_remove E key_comp) (\<lambda>st. verify_if_version_exists_in_deleted E st key_comp)
           (reply_client (build_delete_reply_message (nd_ip nd) (nd_port nd) (nd_id nd) (key key_comp) v (dm_type m))
              (m_ip m) (m_port m)) nd)"

definition process_put_child_message ::
  "'d env \<Rightarrow> 'p views \<Rightarrow> bool \<Rightarrow> kv_message \<Rightarrow> put_child_message \<Rightarrow> 'd node \<Rightarrow> 'p action list res \<times> 'd node" where
  "process_put_child_message E V lucky msg m nd =
     (let v = version_of_msg (pc_key m);
          key_comp = \<lparr>key = pk_key (pc_key m), version = v, f_type = DIRECTORY, is_deleted = False\<rparr>
      in write_handler E V lucky msg key_comp (have_seen (store nd) key_comp) (pc_extra_reply m)
           (put_metadata_child E key_comp (pc_child_path m) (pc_is_create m) (pc_is_dir m))
           (\<lambda>st. verify_if_version_exists E st key_comp)
           (reply_client (build_put_reply_message (nd_ip nd) (nd_port nd) (nd_id nd) (key key_comp) v DIRECTORY)
              (m_ip m) (m_port m)) nd)"

section \<open>Anti-entropy\<close>

definition key_of_store_key :: "store_key \<Rightarrow> kv_store_key" where
  "key_of_store_key sk = \<lparr>key = pk_key (sk_key sk), version = version_of_msg (sk_key sk), f_type = sk_type sk,
     is_deleted = sk_is_deleted sk\<rparr>"

fun split_offer :: "store_key list \<Rightarrow> (kv_store_key \<times> nat) list \<Rightarrow> kv_store_key list \<Rightarrow>
    (kv_store_key \<times> nat) list \<times> kv_store_key list" where
  "split_offer [] keys dels = (keys, dels)"
| "split_offer (sk # sks) keys dels =
     (let k = key_of_store_key sk in
      if sk_is_deleted sk then split_offer sks keys (if k \<in> set dels then dels else dels @ [k])
      else split_offer sks (insert_new k (sk_data_size sk) keys) dels)"

text \<open>A fresh request id, \<^verbatim>\<open>"intern" + id + ":" + count\<close>.\<close>

definition next_req :: "'d node \<Rightarrow> string \<times> 'd node" where
  "next_req nd =
     (let n = anti_entropy_req_count nd + 1 in
      (''intern'' @ to_string (nd_id nd) @ '':'' @ to_string n, nd\<lparr>anti_entropy_req_count := n\<rparr>))"

fun request_blks :: "anti_entropy_message \<Rightarrow> kv_store_key \<Rightarrow> nat list \<Rightarrow> 'd node \<Rightarrow> 'p action list \<times> 'd node" where
  "request_blks m k [] nd = ([], nd)"
| "request_blks m k (b # bs) nd =
     (case next_req nd of (r, nd1) \<Rightarrow>
      case request_blks m k bs nd1 of (acts, nd2) \<Rightarrow>
        (reply_client (build_anti_entropy_get_metadata_message (nd_ip nd) (nd_port nd) (nd_id nd) r (blk_path (key k) b)
           (version k) (f_type k) False) (m_ip m) (m_port m) # acts, nd2))"

text \<open>The loop over the keys to request. The vector \<open>tmp_blks\<close> of block numbers is declared outside the loop and only
  ever appended to. The result is what was sent before the loop ended or threw.\<close>

fun request_keys :: "'d env \<Rightarrow> anti_entropy_message \<Rightarrow> (kv_store_key \<times> nat) list \<Rightarrow> nat list \<Rightarrow> 'd node \<Rightarrow>
    'p action list \<times> unit res \<times> 'd node" where
  "request_keys E m [] tmp_blks nd = ([], Ret (), nd)"
| "request_keys E m ((k, sz) # keys) tmp_blks nd =
     (if f_type k = DIRECTORY \<and> sz > BLK_SIZE then
        (case get_incomplete_blks E k sz (store nd) of (r, st1) \<Rightarrow>
           (case r of
              Throw e \<Rightarrow> ([], Throw e, nd\<lparr>store := st1\<rparr>)
            | Hang \<Rightarrow> ([], Hang, nd\<lparr>store := st1\<rparr>)
            | Ret (incomplete, new_blks) \<Rightarrow>
                (case (if incomplete then (Ret True, st1) else put_tmp_key_entry_size E k sz st1) of (r2, st2) \<Rightarrow>
                   (let nd2 = nd\<lparr>store := st2\<rparr>;
                        blks = tmp_blks @ new_blks @ (if incomplete then [] else [1..<NR_BLKS sz + 1])
                    in case r2 of
                         Throw e \<Rightarrow> ([], Throw e, nd2)
                       | Hang \<Rightarrow> ([], Hang, nd2)
                       | Ret _ \<Rightarrow>
                           (case request_blks m k blks nd2 of (acts, nd3) \<Rightarrow>
                            case request_keys E m keys blks nd3 of (acts', r3, nd4) \<Rightarrow> (acts @ acts', r3, nd4))))))
      else
        (case next_req nd of (rid, nd1) \<Rightarrow>
         case request_keys E m keys tmp_blks nd1 of (acts', r, nd2) \<Rightarrow>
           (reply_client (build_anti_entropy_get_message (nd_ip nd) (nd_port nd) (nd_id nd) rid (key k) (version k)
              (f_type k) False) (m_ip m) (m_port m) # acts', r, nd2)))"

fun request_deleted :: "anti_entropy_message \<Rightarrow> kv_store_key list \<Rightarrow> 'd node \<Rightarrow> 'p action list \<times> 'd node" where
  "request_deleted m [] nd = ([], nd)"
| "request_deleted m (k # ks) nd =
     (case next_req nd of (rid, nd1) \<Rightarrow>
      case request_deleted m ks nd1 of (acts, nd2) \<Rightarrow>
        (reply_client (build_anti_entropy_get_message (nd_ip nd) (nd_port nd) (nd_id nd) rid (key k) (version k) (f_type k)
           True) (m_ip m) (m_port m) # acts, nd2))"

definition process_anti_entropy_message :: "'d env \<Rightarrow> anti_entropy_message \<Rightarrow> 'd node \<Rightarrow> 'p action list res \<times> 'd node" where
  "process_anti_entropy_message E m nd =
     (case split_offer (ae_store_keys m) [] [] of (offers, offers_del) \<Rightarrow>
        (case rbind (remove_from_map_existent_keys E (store nd) offers) (\<lambda>keys.
                rbind (remove_from_set_existent_deleted_keys E (store nd) offers_del) (\<lambda>dels. Ret (keys, dels))) of
           Throw e \<Rightarrow> (Ret [], nd)
         | Hang \<Rightarrow> (Hang, nd)
         | Ret (keys, dels) \<Rightarrow>
             (case request_keys E m keys [] nd of (acts, r, nd1) \<Rightarrow>
                (case r of
                   Ret _ \<Rightarrow> (case request_deleted m dels nd1 of (acts', nd2) \<Rightarrow> (Ret (acts @ acts'), nd2))
                 | Throw e \<Rightarrow> (Ret acts, nd1)
                 | Hang \<Rightarrow> (Hang, nd1)))))"

definition starts_with_intern :: "string \<Rightarrow> bool" where
  "starts_with_intern s \<longleftrightarrow> take 6 s = ''intern''"

definition ae_type :: "FileType \<Rightarrow> FileType \<Rightarrow> FileType" where
  "ae_type junk t = (if t = DIRECTORY then DIRECTORY else junk)"

definition process_anti_entropy_get_message ::
  "'d env \<Rightarrow> 'p views \<Rightarrow> FileType \<Rightarrow> kv_message \<Rightarrow> anti_entropy_get_message \<Rightarrow> 'd node \<Rightarrow> 'p action list res \<times> 'd node" where
  "process_anti_entropy_get_message E V junk msg m nd0 =
     (if starts_with_intern (ag_reqid m) \<and> \<not> in_anti_entropy_log (store nd0) (ag_reqid m) then
        (let nd = nd0\<lparr>store := log_anti_entropy_req (ag_reqid m) (store nd0)\<rparr>;
             k = pk_key (ag_key m); v = version_of_msg (ag_key m); t = ae_type junk (ag_type m)
         in (rbind (get_data E (store nd) \<lparr>key = k, version = v, f_type = t, is_deleted = ag_is_deleted m\<rparr>) (\<lambda>data.
               case data of
                 Some d \<Rightarrow> Ret [reply_client (build_anti_entropy_get_reply_message (nd_ip nd) (nd_port nd) (nd_id nd)
                              (ag_reqid m) k v t (ag_is_deleted m) d) (m_ip m) (m_port m)]
               | None \<Rightarrow> Ret [Forward_message (get_view V) msg]), nd))
      else (Ret [], nd0))"

definition process_anti_entropy_get_metadata_message ::
  "'d env \<Rightarrow> 'p views \<Rightarrow> FileType \<Rightarrow> kv_message \<Rightarrow> anti_entropy_get_message \<Rightarrow> 'd node \<Rightarrow> 'p action list res \<times> 'd node" where
  "process_anti_entropy_get_metadata_message E V junk msg m nd0 =
     (if starts_with_intern (ag_reqid m) \<and> \<not> in_anti_entropy_log (store nd0) (ag_reqid m) then
        (let nd = nd0\<lparr>store := log_anti_entropy_req (ag_reqid m) (store nd0)\<rparr>;
             k = pk_key (ag_key m); v = version_of_msg (ag_key m); t = ae_type junk (ag_type m);
             base = get_base_path (regex_search E) k []; blk = get_blk_num (regex_search E) k []
         in (rbind (if fst base = 0 \<and> fst blk = 0 then
                      rbind (stoi (snd blk)) (\<lambda>blk_num.
                        rbind (get_data E (store nd) \<lparr>key = snd base, version = v, f_type = t, is_deleted = ag_is_deleted m\<rparr>)
                          (\<lambda>data. split_data data blk_num))
                    else Ret None) (\<lambda>data.
               case data of
                 Some d \<Rightarrow> Ret [reply_client (build_anti_entropy_get_metadata_reply_message (nd_ip nd) (nd_port nd) (nd_id nd)
                              (ag_reqid m) k v t (ag_is_deleted m) d) (m_ip m) (m_port m)]
               | None \<Rightarrow> Ret [Forward_message (get_view V) msg]), nd))
      else (Ret [], nd0))"

definition process_anti_entropy_get_reply_message ::
  "'d env \<Rightarrow> FileType \<Rightarrow> anti_entropy_get_reply_message \<Rightarrow> 'd node \<Rightarrow> 'p action list res \<times> 'd node" where
  "process_anti_entropy_get_reply_message E junk m nd =
     (let key_comp = \<lparr>key = pk_key (ar_key m), version = version_of_msg (ar_key m), f_type = ae_type junk (ar_type m),
                      is_deleted = ar_is_deleted m\<rparr>
      in case (if \<not> ar_is_deleted m \<and> \<not> have_seen (store nd) key_comp then put E key_comp (ar_data m) (store nd)
               else if ar_is_deleted m \<and> \<not> have_seen_deleted (store nd) key_comp then kv_remove E key_comp (store nd)
               else (Ret True, store nd)) of
           (r, st) \<Rightarrow> (rbind (catch_exn False r) (\<lambda>_. Ret []), nd\<lparr>store := st\<rparr>))"

text \<open>The work inside the \<^verbatim>\<open>try\<close> block of \<^verbatim>\<open>process_anti_entropy_get_metadata_reply_message\<close>.\<close>

definition incorporate_blk :: "'d env \<Rightarrow> kv_store_key \<Rightarrow> bytes \<Rightarrow> 'd kv_store \<Rightarrow> unit res \<times> 'd kv_store" where
  "incorporate_blk E key_comp data st0 =
     (let base_path = snd (get_base_path (regex_search E) (key key_comp) []) in
      case put_tmp_anti_entropy E base_path key_comp data st0 of (r1, st1) \<Rightarrow>
        on_ret st1 r1 (\<lambda>completed.
          if \<not> completed then (Ret (), st1)
          else on_ret st1 (get_tmp_key_entry_size E st1 base_path key_comp) (\<lambda>have_size.
            case have_size of
              None \<Rightarrow> (Ret (), st1)
            | Some val \<Rightarrow>
                on_ret st1 (rbind (stol val) (\<lambda>i. Ret (nat (i mod 2 ^ 64)))) (\<lambda>sz.
                  case check_if_have_all_blks_and_put_metadata E base_path key_comp (NR_BLKS sz) st1 of (r2, st2) \<Rightarrow>
                    on_ret st2 r2 (\<lambda>have_all.
                      if have_all then delete_metadata_from_tmp_anti_entropy E base_path key_comp (NR_BLKS sz) st2
                      else (Ret (), st2))))))"

definition process_anti_entropy_get_metadata_reply_message ::
  "'d env \<Rightarrow> FileType \<Rightarrow> anti_entropy_get_reply_message \<Rightarrow> 'd node \<Rightarrow> 'p action list res \<times> 'd node" where
  "process_anti_entropy_get_metadata_reply_message E junk m nd =
     (let key_comp = \<lparr>key = pk_key (ar_key m), version = version_of_msg (ar_key m), f_type = ae_type junk (ar_type m),
                      is_deleted = ar_is_deleted m\<rparr>
      in if \<not> have_seen (store nd) key_comp \<or> \<not> have_seen_deleted (store nd) key_comp then
           (case incorporate_blk E key_comp (ar_data m) (store nd) of
              (r, st) \<Rightarrow> (rbind (catch_exn () r) (\<lambda>_. Ret []), nd\<lparr>store := st\<rparr>))
         else (Ret [], nd))"

section \<open>State transfer to a recovering peer\<close>

text \<open>The callback given to \<^verbatim>\<open>send_keys_gt\<close>.\<close>

definition recover_data_message :: "kv_store_key \<times> bytes \<Rightarrow> kv_message" where
  "recover_data_message kb =
     \<lparr>forwarded_within_group = False,
      body = Recover_data_msg \<lparr>sk_key = key_msg (key (fst kb)) (version (fst kb)), sk_is_deleted = is_deleted (fst kb),
               sk_type = f_type (fst kb), sk_data_size = 0\<rparr> (snd kb)\<rparr>"

text \<open>The messages written to the connection. The group of the node, the number of groups and whether it has recovered
  come from the group construction; an exception of the transfer leaves the termination message out.\<close>

definition process_recover_request_msg ::
  "'d env \<Rightarrow> int \<Rightarrow> int \<Rightarrow> bool \<Rightarrow> unit res \<Rightarrow> recover_request_message \<Rightarrow> 'd node \<Rightarrow> kv_message list" where
  "process_recover_request_msg E my_group nr_groups has_recovered ub m nd =
     (if my_group \<noteq> rr_slice m \<or> nr_groups \<noteq> rr_nr_slices m \<or> \<not> has_recovered then []
      else (case send_keys_gt E ub (store nd) of (sent, r) \<Rightarrow>
        map recover_data_message sent @
        (case r of Ret _ \<Rightarrow> [\<lparr>forwarded_within_group = False, body = Recover_termination_msg\<rparr>] | _ \<Rightarrow> [])))"

section \<open>Dispatch\<close>

fun process_message :: "'d env \<Rightarrow> 'p views \<Rightarrow> bool \<Rightarrow> FileType \<Rightarrow> kv_message \<Rightarrow> 'd node \<Rightarrow> 'p action list res \<times> 'd node" where
  "process_message E V lucky junk msg nd =
     (case body msg of
        Get_msg m \<Rightarrow> process_get_message E V lucky msg m nd
      | Get_latest_version_msg m \<Rightarrow> process_get_latest_version_msg E V lucky msg m nd
      | Put_msg m \<Rightarrow> process_put_message E V lucky msg m nd
      | Delete_msg m \<Rightarrow> process_delete_message E V lucky msg m nd
      | Put_child_msg m \<Rightarrow> process_put_child_message E V lucky msg m nd
      | Get_latest_met_stat_msg m \<Rightarrow> process_get_latest_metadata_stat_msg E V lucky msg m nd
      | Get_latest_met_size_msg m \<Rightarrow> process_get_latest_metadata_size_msg E V lucky msg m nd
      | Get_met_msg m \<Rightarrow> process_get_metadata_message E V lucky msg m nd
      | Anti_entropy_msg m \<Rightarrow> process_anti_entropy_message E m nd
      | Anti_entropy_get_msg m \<Rightarrow> process_anti_entropy_get_message E V junk msg m nd
      | Anti_entropy_get_met_msg m \<Rightarrow> process_anti_entropy_get_metadata_message E V junk msg m nd
      | Anti_entropy_get_reply_msg m \<Rightarrow> process_anti_entropy_get_reply_message E junk m nd
      | Anti_entropy_get_met_reply_msg m \<Rightarrow> process_anti_entropy_get_metadata_reply_message E junk m nd
      | _ \<Rightarrow> (Ret [], nd))"

section \<open>The handlers keep the databases well-formed\<close>

lemma store_wf_cong: "db st' = db st \<Longrightarrow> db_deleted st' = db_deleted st \<Longrightarrow> store_wf E st' \<longleftrightarrow> store_wf E st"
  by (simp add: store_wf_def)

lemma snd_rbind_pair: "snd (on_ret s m f) = (case m of Ret a \<Rightarrow> snd (f a) | _ \<Rightarrow> s)"
  by (cases m) auto

lemma put_metadata_child_wf:
  assumes "env_ok E" "store_wf E st"
  shows "store_wf E (snd (put_metadata_child E k c cr d st))"
  unfolding put_metadata_child_def Let_def using assms
  by (auto intro!: on_ret_wf put_main_wf simp: vec_at_def split: option.splits if_splits)

lemma tmp_put_wf [simp]: "store_wf E (snd (tmp_put E k b st)) \<longleftrightarrow> store_wf E st"
  by (simp add: tmp_put_def store_wf_def split: prod.splits)

lemma put_tmp_wf [simp]:
  "store_wf E st \<Longrightarrow> store_wf E (snd (put_tmp_anti_entropy E b k d st))"
  "store_wf E st \<Longrightarrow> store_wf E (snd (put_tmp_key_entry_size E k n st))"
  by (auto intro!: on_ret_wf simp: put_tmp_anti_entropy_def put_tmp_key_entry_size_def Let_def split: prod.splits)

lemma delete_tmp_wf [simp]:
  "store_wf E (snd (delete_metadata_from_tmp_anti_entropy E b k n st)) \<longleftrightarrow> store_wf E st"
  by (simp add: delete_metadata_from_tmp_anti_entropy_def store_wf_def Let_def split: prod.splits)

lemma case_wf: "store_wf E (snd x) \<Longrightarrow> store_wf E (snd (case x of (r, st') \<Rightarrow> on_ret st' r (\<lambda>_. (a, st'))))"
  by (cases x) (auto intro: on_ret_wf)

lemma delete_tmp_wfD: "delete_metadata_from_tmp_anti_entropy E b k n st = (r, st') \<Longrightarrow> store_wf E st \<Longrightarrow> store_wf E st'"
  using delete_tmp_wf[of E b k n st] by simp

lemma put_tmp_wfD: "put_tmp_key_entry_size E k n st = (r, st') \<Longrightarrow> store_wf E st \<Longrightarrow> store_wf E st'"
  using put_tmp_wf(2)[of E st k n] by simp

lemma get_incomplete_wf [simp]: "store_wf E st \<Longrightarrow> store_wf E (snd (get_incomplete_blks E k n st))"
  unfolding get_incomplete_blks_def Let_def
  by (auto intro!: on_ret_wf case_wf split: ldb_result.splits)

lemma check_blks_wf:
  assumes "env_ok E" "store_wf E st"
  shows "store_wf E (snd (check_if_have_all_blks_and_put_metadata E b k n st))"
  unfolding check_if_have_all_blks_and_put_metadata_def Let_def
  using assms(2) put_wf[OF assms] kv_remove_wf[OF assms]
  by (auto intro!: on_ret_wf case_wf split: option.splits)

lemma incorporate_blk_wf:
  assumes "env_ok E" "store_wf E st"
  shows "store_wf E (snd (incorporate_blk E k d st))"
proof -
  obtain r1 st1 where s1: "put_tmp_anti_entropy E (snd (get_base_path (regex_search E) (key k) [])) k d st = (r1, st1)"
    by fastforce
  then have wf1: "store_wf E st1" using put_tmp_wf(1)[OF assms(2)] by (metis snd_conv)
  show ?thesis
    unfolding incorporate_blk_def Let_def s1 prod.case using wf1 check_blks_wf[OF assms(1) wf1]
    by (auto intro!: on_ret_wf split: option.splits prod.splits) (metis snd_conv)+
qed

definition node_wf :: "'d env \<Rightarrow> 'd node \<Rightarrow> bool" where
  "node_wf E nd \<longleftrightarrow> store_wf E (store nd)"

lemma next_req_wf: "next_req nd = (r, nd') \<Longrightarrow> store nd' = store nd"
  by (auto simp: next_req_def Let_def)

lemma request_blks_wf: "request_blks m k bs nd = (acts, nd') \<Longrightarrow> store nd' = store nd"
  by (induction bs arbitrary: nd acts nd') (auto dest: next_req_wf split: prod.splits)

lemma request_deleted_wf: "request_deleted m ks nd = (acts, nd') \<Longrightarrow> store nd' = store nd"
  by (induction ks arbitrary: nd acts nd') (auto dest: next_req_wf split: prod.splits)

lemma request_dir_step_wf:
  assumes "store_wf E (store nd)" "get_incomplete_blks E k sz (store nd) = (r, st1)"
    and "(if c then (Ret True, st1) else put_tmp_key_entry_size E k sz st1) = (r2, st2)"
  shows "store_wf E st1" "store_wf E st2"
proof -
  show 1: "store_wf E st1" using get_incomplete_wf[OF assms(1), of k sz] assms(2) by simp
  show "store_wf E st2" using put_tmp_wfD assms(3) 1 by (auto split: if_splits)
qed

lemma request_keys_wf:
  "request_keys E m keys blks nd = (acts, r, nd') \<Longrightarrow> store_wf E (store nd) \<Longrightarrow> store_wf E (store nd')"
proof (induction keys arbitrary: blks nd acts r nd')
  case (Cons p keys)
  obtain k sz where p: "p = (k, sz)" by (cases p)
  show ?case
  proof (cases "f_type k = DIRECTORY \<and> sz > BLK_SIZE")
    case True
    obtain r1 st1 where s1: "get_incomplete_blks E k sz (store nd) = (r1, st1)" by fastforce
    note wf1 = request_dir_step_wf(1)[OF Cons.prems(2) s1, of True]
    show ?thesis
    proof (cases r1)
      case (Ret q)
      obtain inc new_blks where q: "q = (inc, new_blks)" by (cases q)
      obtain r2 st2 where s2: "(if inc then (Ret True, st1) else put_tmp_key_entry_size E k sz st1) = (r2, st2)" by fastforce
      note wf2 = request_dir_step_wf(2)[OF Cons.prems(2) s1 s2]
      show ?thesis
        using Cons.prems(1) True s1 s2 Ret q p wf2
        by (auto simp: Let_def split: res.splits prod.splits dest!: request_blks_wf intro: Cons.IH)
    qed (use Cons.prems True s1 wf1 p in \<open>auto split: prod.splits\<close>)
  next
    case False
    then show ?thesis using Cons.prems p by (auto split: prod.splits dest!: next_req_wf intro: Cons.IH)
  qed
qed simp

lemma write_handler_wf:
  assumes "store_wf E (store nd)" "\<And>st. store_wf E st \<Longrightarrow> store_wf E (snd (op st))"
  shows "store_wf E (store (snd (write_handler E V lucky msg k seen_b extra op ex rep nd)))"
  using assms(1) assms(2)[OF assms(1)] by (auto simp: write_handler_def Let_def split: prod.splits)

lemma latest_handler_wf:
  "store_wf E (store nd) \<Longrightarrow>
     store_wf E (store (snd (latest_handler E V lucky msg ip port k rid bd q nd)))"
  by (simp add: latest_handler_def Let_def)

lemma read_handlers_wf:
  assumes "store_wf E (store nd)"
  shows "store_wf E (store (snd (process_get_message E V lucky msg m1 nd)))"
    "store_wf E (store (snd (process_get_latest_version_msg E V lucky msg m2 nd)))"
    "store_wf E (store (snd (process_get_latest_metadata_stat_msg E V lucky msg m3 nd)))"
    "store_wf E (store (snd (process_get_latest_metadata_size_msg E V lucky msg m3 nd)))"
    "store_wf E (store (snd (process_get_metadata_message E V lucky msg m4 nd)))"
    "store_wf E (store (snd (process_anti_entropy_get_message E V junk msg m5 nd)))"
    "store_wf E (store (snd (process_anti_entropy_get_metadata_message E V junk msg m5 nd)))"
  using assms
  by (simp_all add: process_get_message_def process_get_latest_version_msg_def process_get_latest_metadata_stat_msg_def
      process_get_latest_metadata_size_msg_def process_get_metadata_message_def process_anti_entropy_get_message_def
      process_anti_entropy_get_metadata_message_def latest_handler_wf Let_def)

lemma write_handlers_wf:
  assumes "env_ok E" "store_wf E (store nd)"
  shows "store_wf E (store (snd (process_put_message E V lucky msg m1 nd)))"
    "store_wf E (store (snd (process_delete_message E V lucky msg m2 nd)))"
    "store_wf E (store (snd (process_put_child_message E V lucky msg m3 nd)))"
    "store_wf E (store (snd (process_anti_entropy_get_reply_message E junk m4 nd)))"
    "store_wf E (store (snd (process_anti_entropy_get_metadata_reply_message E junk m4 nd)))"
  using assms put_wf[OF assms] kv_remove_wf[OF assms] incorporate_blk_wf[OF assms]
  by (auto intro!: write_handler_wf put_wf kv_remove_wf put_metadata_child_wf
      simp: process_put_message_def process_delete_message_def process_put_child_message_def
        process_anti_entropy_get_reply_message_def process_anti_entropy_get_metadata_reply_message_def Let_def
      split: prod.splits if_splits) (metis snd_conv)+

lemma anti_entropy_message_wf:
  assumes "store_wf E (store nd)"
  shows "store_wf E (store (snd (process_anti_entropy_message E m nd)))"
  using assms
  by (auto simp: process_anti_entropy_message_def split: prod.splits res.splits
      dest!: request_deleted_wf dest: request_keys_wf)

section \<open>No handler forgets a write\<close>

text \<open>
  \<open>main_keeps E K st st'\<close>: outside the keys \<open>K\<close>, every version covered in the main database of \<open>st\<close> is covered in that
  of \<open>st'\<close>. \<open>deleted_keeps\<close> says the same of the database of deleted keys, for all keys and over all entries, since the
  type recorded for a deleted key may change.
\<close>

definition main_keeps :: "'d env \<Rightarrow> string set \<Rightarrow> 'd kv_store \<Rightarrow> 'd kv_store \<Rightarrow> bool" where
  "main_keeps E K st st' \<longleftrightarrow> (\<forall>k w. k \<notin> K \<longrightarrow> covers (stored E st k) w \<longrightarrow> covers (stored E st' k) w)"

definition all_entries :: "kv_store_value option \<Rightarrow> kv_store_version_data list" where
  "all_entries v = (case v of None \<Rightarrow> [] | Some v \<Rightarrow> vdata v)"

lemma all_entries_simps [simp]: "all_entries None = []" "all_entries (Some v) = vdata v"
  by (simp_all add: all_entries_def)

abbreviation deleted_entries :: "'d env \<Rightarrow> 'd kv_store \<Rightarrow> string \<Rightarrow> kv_store_version_data list" where
  "deleted_entries E st k \<equiv> all_entries (deleted_value E st k)"

definition deleted_keeps :: "'d env \<Rightarrow> 'd kv_store \<Rightarrow> 'd kv_store \<Rightarrow> bool" where
  "deleted_keeps E st st' \<longleftrightarrow> (\<forall>k w. covers (deleted_entries E st k) w \<longrightarrow> covers (deleted_entries E st' k) w)"

lemma keeps_refl [simp]: "main_keeps E K st st" "deleted_keeps E st st"
  by (auto simp: main_keeps_def deleted_keeps_def)

lemma keeps_same_db:
  "db st' = db st \<Longrightarrow> main_keeps E K st st'" "db_deleted st' = db_deleted st \<Longrightarrow> deleted_keeps E st st'"
  by (auto simp: main_keeps_def deleted_keeps_def)

lemma keeps_trans:
  "main_keeps E K st st' \<Longrightarrow> main_keeps E K st' st'' \<Longrightarrow> main_keeps E K st st''"
  "deleted_keeps E st st' \<Longrightarrow> deleted_keeps E st' st'' \<Longrightarrow> deleted_keeps E st st''"
  unfolding main_keeps_def deleted_keeps_def by blast+

lemma keeps_cong:
  "db st = db st2 \<Longrightarrow> db st' = db st2' \<Longrightarrow> main_keeps E K st st' \<longleftrightarrow> main_keeps E K st2 st2'"
  "db_deleted st = db_deleted st2 \<Longrightarrow> db_deleted st' = db_deleted st2' \<Longrightarrow> deleted_keeps E st st' \<longleftrightarrow> deleted_keeps E st2 st2'"
  by (simp_all add: main_keeps_def deleted_keeps_def)

lemma on_ret_keeps:
  assumes "main_keeps E K s st" "\<And>a. m = Ret a \<Longrightarrow> main_keeps E K s (snd (f a))"
  shows "main_keeps E K s (snd (on_ret st m f))"
  using assms by (cases m) auto

lemma on_ret_deleted_keeps:
  assumes "deleted_keeps E s st" "\<And>a. m = Ret a \<Longrightarrow> deleted_keeps E s (snd (f a))"
  shows "deleted_keeps E s (snd (on_ret st m f))"
  using assms by (cases m) auto

lemma value_in_put_cases:
  assumes "env_ok E" "ldb_put E d k (enc_value E v) = (ok, d')"
  shows "value_in E d' = (value_in E d)(k \<mapsto> v) \<or> value_in E d' = value_in E d"
  using get_db_put[OF assms] assms(1) by (auto simp: value_in_def fun_eq_iff)

lemma put_main_keeps:
  assumes "env_ok E" "\<And>w. covers (stored E st k) w \<Longrightarrow> covers (entries_of (Some v)) w"
  shows "main_keeps E K st (snd (put_main E k v n st))"
proof -
  obtain ok d where p: "ldb_put E (db st) k (enc_value E v) = (ok, d)" by fastforce
  have d: "db (snd (put_main E k v n st)) = d" by (simp add: put_main_def p)
  from value_in_put_cases[OF assms(1) p] show ?thesis
  proof
    assume "value_in E d = (value_in E (db st))(k \<mapsto> v)"
    then show ?thesis unfolding main_keeps_def d using assms(2) by simp
  qed (simp add: main_keeps_def d)
qed

lemma put_deleted_keeps:
  assumes "env_ok E" "\<And>w. covers (deleted_entries E st k) w \<Longrightarrow> covers (vdata v) w"
  shows "deleted_keeps E st (snd (put_deleted E k v st))"
proof -
  obtain ok d where p: "ldb_put E (db_deleted st) k (enc_value E v) = (ok, d)" by fastforce
  have d: "db_deleted (snd (put_deleted E k v st)) = d" by (simp add: put_deleted_def p)
  from value_in_put_cases[OF assms(1) p] show ?thesis
  proof
    assume "value_in E d = (value_in E (db_deleted st))(k \<mapsto> v)"
    then show ?thesis unfolding deleted_keeps_def d using assms(2) by simp
  qed (simp add: deleted_keeps_def d)
qed

lemma put_main_deleted [simp]: "db_deleted (snd (put_main E k v n st)) = db_deleted st"
  by (simp add: put_main_def split: prod.splits)

lemma on_ret_deleted:
  "db_deleted st = D \<Longrightarrow> (\<And>a. m = Ret a \<Longrightarrow> db_deleted (snd (f a)) = D) \<Longrightarrow> db_deleted (snd (on_ret st m f)) = D"
  by (cases m) auto

lemma put_with_merge_deleted [simp]: "db_deleted (snd (put_with_merge E k bytes st)) = db_deleted st"
  unfolding put_with_merge_def Let_def
  by (auto intro!: on_ret_deleted split: option.splits kVersionComp.splits if_splits)

lemma put_deleted_same [simp]: "db_deleted (snd (put E k bytes st)) = db_deleted st"
  unfolding put_def Let_def by (auto intro!: on_ret_deleted split: option.splits)

lemma put_metadata_child_deleted [simp]: "db_deleted (snd (put_metadata_child E k c cr d st)) = db_deleted st"
  unfolding put_metadata_child_def Let_def by (auto intro!: on_ret_deleted split: option.splits if_splits)

lemma merge_kv_above: "ver_le w a \<Longrightarrow> ver_le w (merge_kv a b)"
  using merge_kv_upper(1) by (rule vv_le_trans[rotated])

lemma keeps_logs [simp]:
  "main_keeps E K (seen_it k st) st' \<longleftrightarrow> main_keeps E K st st'"
  "main_keeps E K st (seen_it k st') \<longleftrightarrow> main_keeps E K st st'"
  "main_keeps E K (seen_it_deleted k st) st' \<longleftrightarrow> main_keeps E K st st'"
  "main_keeps E K st (seen_it_deleted k st') \<longleftrightarrow> main_keeps E K st st'"
  by (simp_all add: main_keeps_def)

lemma put_with_merge_keeps:
  assumes "env_ok E" "store_wf E st" "f_type k = DIRECTORY"
  shows "main_keeps E K st (snd (put_with_merge E k bytes st))"
proof -
  have wf: "db_wf E (db st)" using assms(2) by (simp add: store_wf_def)
  from db_wf_cases[OF wf, of "key k"] show ?thesis
  proof cases
    case 1
    then show ?thesis using assms(1)
      by (auto simp: put_with_merge_def kv_get_def intro!: on_ret_keeps put_main_keeps)
  next
    case (2 b v x xs)
    then show ?thesis using assms(1,3)
      by (auto simp: put_with_merge_def kv_get_def deserialize_value_def comp_version_le_split
          intro!: on_ret_keeps put_main_keeps merge_kv_above) (rule vv_le_trans; assumption)+
  qed
qed

lemma put_keeps:
  assumes "env_ok E" "store_wf E st"
  shows "main_keeps E K st (snd (put E k bytes st))"
proof (cases "f_type k")
  case DIRECTORY
  have "main_keeps E K st (snd (put_with_merge E k bytes (seen_it k st)))"
    using put_with_merge_keeps[of E "seen_it k st" k K bytes] assms DIRECTORY by simp
  then show ?thesis using DIRECTORY by (auto simp: put_def Let_def intro!: on_ret_keeps)
next
  case FILE
  have wf: "db_wf E (db (seen_it k st))" using assms(2) by (simp add: store_wf_def)
  have *: "main_keeps E K (seen_it k st) st' \<Longrightarrow> main_keeps E K st st'" for st'
    by (simp add: main_keeps_def)
  from db_wf_cases[OF wf, of "key k"] show ?thesis
  proof cases
    case 1
    then show ?thesis using assms(1) FILE
      by (auto simp: put_def Let_def kv_get_def intro!: * on_ret_keeps put_main_keeps)
  next
    case (2 b v x xs)
    have "main_keeps E K st (snd (put_main E (key k) \<lparr>v_type = FILE, vdata =
        vinsert comp_version vd_version (version k) \<lparr>vd_version = version k, vd_data = bytes\<rparr> (vdata v)\<rparr> 1 (seen_it k st)))"
      if "v_type v = FILE"
      using put_main_keeps[OF assms(1), of "seen_it k st" "key k"] that 2(3)
        vinsert_covers(2)[of "\<lparr>vd_version = version k, vd_data = bytes\<rparr>" "version k" "vdata v"] by simp
    with 2(1-3) FILE show ?thesis
      by (auto simp: put_def Let_def kv_get_def deserialize_value_def intro!: on_ret_keeps)
  qed
qed

lemma put_metadata_child_keeps:
  assumes "env_ok E" "store_wf E st"
  shows "main_keeps E K st (snd (put_metadata_child E k c cr d st))"
proof -
  have wf: "db_wf E (db (seen_it k st))" using assms(2) by (simp add: store_wf_def)
  have *: "main_keeps E K (seen_it k st) st' \<Longrightarrow> main_keeps E K st st'" for st'
    by (simp add: main_keeps_def)
  from db_wf_cases[OF wf, of "key k"] show ?thesis
  proof cases
    case 1
    then show ?thesis by (auto simp: put_metadata_child_def Let_def kv_get_def intro!: * on_ret_keeps)
  next
    case (2 b v x xs)
    then show ?thesis using assms(1)
      by (auto simp: put_metadata_child_def Let_def kv_get_def deserialize_value_def
          intro!: * on_ret_keeps put_main_keeps merge_kv_above)
  qed
qed

lemma kv_remove_keeps:
  assumes "env_ok E" "key k \<in> K"
  shows "main_keeps E K st (snd (kv_remove E k st))"
proof -
  have d: "get_db E k' (db (snd (delete_main E (key k) st))) = get_db E k' (db st)"
    "value_in E (db (snd (put_main E (key k) v n st))) k' = main_value E st k'" if "k' \<notin> K" for k' v n st
  proof -
    have ne: "k' \<noteq> key k" using that assms(2) by auto
    obtain ok d where p: "ldb_delete E (db st) (key k) = (ok, d)" by fastforce
    show "get_db E k' (db (snd (delete_main E (key k) st))) = get_db E k' (db st)"
      using get_db_delete[OF assms(1) p] ne by (auto simp: delete_main_def p)
    obtain ok2 d2 where p2: "ldb_put E (db st) (key k) (enc_value E v) = (ok2, d2)" by fastforce
    show "value_in E (db (snd (put_main E (key k) v n st))) k' = main_value E st k'"
      using value_in_put_cases[OF assms(1) p2] ne by (auto simp: put_main_def p2)
  qed
  have 1: "main_keeps E K st (snd (delete_main E (key k) st))"
    "main_keeps E K st (snd (put_main E (key k) v n st))" for v n and st :: "'a kv_store"
    by (simp_all add: main_keeps_def value_in_def d(1) d(2)[unfolded value_in_def])
  have rm: "main_keeps E K st (snd (remove_from_main_db E k (seen_it_deleted k st)))"
    unfolding remove_from_main_db_def Let_def using 1[of "seen_it_deleted k st"]
    by (auto intro!: on_ret_keeps split: option.splits)
  have pd: "db (snd (put_deleted E (key k) v st)) = db st" for v and st :: "'a kv_store"
    by (simp add: put_deleted_def split: prod.splits)
  obtain r st1 where r: "remove_from_main_db E k (seen_it_deleted k st) = (r, st1)" by fastforce
  have "main_keeps E K st (snd (put_deleted E (key k) v st1))" for v
    using rm by (simp add: r main_keeps_def pd)
  with rm show ?thesis by (auto simp: kv_remove_def Let_def r intro!: on_ret_keeps)
qed

lemma kv_remove_deleted_keeps:
  assumes "env_ok E"
  shows "deleted_keeps E st (snd (kv_remove E k st))"
proof -
  obtain r st1 where r: "remove_from_main_db E k (seen_it_deleted k st) = (r, st1)" by fastforce
  have same: "db_deleted st1 = db_deleted st"
    using remove_from_main_db_deleted[of E k "seen_it_deleted k st"] r by simp
  have "deleted_keeps E st (snd (put_deleted E (key k) v st1))"
    if "deleted_after E k (kv_get_deleted E st1 (key k)) = Ret v" for v
  proof -
    have "covers (deleted_entries E st1 (key k)) w \<Longrightarrow> covers (vdata v) w" for w
      using deleted_after_covers(3)[OF that, of _ _ w]
      by (cases "get_db E (key k) (db_deleted st1)"; cases "dec_value E (the (get_db E (key k) (db_deleted st1)))")
        (auto simp: kv_get_deleted_def value_in_def)
    then have "deleted_keeps E st1 (snd (put_deleted E (key k) v st1))" by (intro put_deleted_keeps[OF assms])
    then show ?thesis by (simp add: deleted_keeps_def same)
  qed
  moreover have "deleted_keeps E st st1" "deleted_keeps E st (seen_it_deleted k st)"
    by (simp_all add: deleted_keeps_def same)
  ultimately show ?thesis by (auto simp: kv_remove_def Let_def r intro!: on_ret_deleted_keeps)
qed

text \<open>The scratch database of anti-entropy is not read by clients: its operations leave the two databases alone.\<close>

definition same_dbs :: "'d kv_store \<Rightarrow> 'd kv_store \<Rightarrow> bool" where
  "same_dbs st st' \<longleftrightarrow> db st' = db st \<and> db_deleted st' = db_deleted st"

lemma same_dbs_refl [simp]: "same_dbs st st"
  by (simp add: same_dbs_def)

lemma same_dbs_trans: "same_dbs a b \<Longrightarrow> same_dbs b c \<Longrightarrow> same_dbs a c"
  by (simp add: same_dbs_def)

lemma same_dbs_keeps: "same_dbs st st' \<Longrightarrow> main_keeps E K st st'" "same_dbs st st' \<Longrightarrow> deleted_keeps E st st'"
  by (simp_all add: same_dbs_def keeps_same_db)

lemma on_ret_same:
  assumes "same_dbs s st" "\<And>a. m = Ret a \<Longrightarrow> same_dbs s (snd (f a))"
  shows "same_dbs s (snd (on_ret st m f))"
  using assms by (cases m) auto

lemma tmp_ops_same:
  "same_dbs st (snd (tmp_put E k b st))"
  "same_dbs st (snd (delete_metadata_from_tmp_anti_entropy E b2 kc n st))"
  by (simp_all add: tmp_put_def delete_metadata_from_tmp_anti_entropy_def same_dbs_def Let_def split: prod.splits)

lemma put_tmp_same:
  "same_dbs st (snd (put_tmp_anti_entropy E b k d st))" "same_dbs st (snd (put_tmp_key_entry_size E k n st))"
  by (auto intro!: on_ret_same tmp_ops_same
      simp: put_tmp_anti_entropy_def put_tmp_key_entry_size_def Let_def split: prod.splits)

lemma case_keeps:
  "main_keeps E K s (snd x) \<Longrightarrow> main_keeps E K s (snd (case x of (r, st') \<Rightarrow> on_ret st' r (\<lambda>_. (a, st'))))"
  "deleted_keeps E s (snd x) \<Longrightarrow> deleted_keeps E s (snd (case x of (r, st') \<Rightarrow> on_ret st' r (\<lambda>_. (a, st'))))"
  by (cases x; auto intro: on_ret_keeps on_ret_deleted_keeps)+

lemma check_blks_keeps:
  assumes "env_ok E" "store_wf E st"
  shows "main_keeps E (if is_deleted k then {b} else {}) st (snd (check_if_have_all_blks_and_put_metadata E b k n st))"
    "deleted_keeps E st (snd (check_if_have_all_blks_and_put_metadata E b k n st))"
proof -
  let ?k = "k\<lparr>key := b\<rparr>" and ?K = "if is_deleted k then {b} else {}"
  have 1: "main_keeps E ?K st (snd (if \<not> is_deleted k then put E ?k met st else kv_remove E ?k st))"
    "deleted_keeps E st (snd (if \<not> is_deleted k then put E ?k met st else kv_remove E ?k st))" for met
    using put_keeps[OF assms, of "{}" ?k] kv_remove_keeps[OF assms(1), of ?k "{b}" st]
      kv_remove_deleted_keeps[OF assms(1), of st ?k] keeps_same_db(2)[of "snd (put E ?k met st)" st] by simp_all
  show "main_keeps E ?K st (snd (check_if_have_all_blks_and_put_metadata E b k n st))"
    unfolding check_if_have_all_blks_and_put_metadata_def Let_def
    by (rule on_ret_keeps, simp, simp only: split: option.split if_split, intro conjI allI impI)
      (use 1 in \<open>auto intro!: case_keeps simp del: if_split\<close>)
  show "deleted_keeps E st (snd (check_if_have_all_blks_and_put_metadata E b k n st))"
    unfolding check_if_have_all_blks_and_put_metadata_def Let_def
    using 1(2) by (auto intro!: on_ret_deleted_keeps case_keeps simp del: if_split split: option.splits)
qed

lemma incorporate_blk_keeps:
  assumes "env_ok E" "store_wf E st"
  shows "main_keeps E (if is_deleted k then {snd (get_base_path (regex_search E) (key k) [])} else {}) st
       (snd (incorporate_blk E k d st))"
    "deleted_keeps E st (snd (incorporate_blk E k d st))"
proof -
  let ?b = "snd (get_base_path (regex_search E) (key k) [])"
  define K where "K = (if is_deleted k then {?b} else {})"
  obtain r1 st1 where s1: "put_tmp_anti_entropy E ?b k d st = (r1, st1)" by fastforce
  then have wf1: "store_wf E st1" and same1: "same_dbs st st1"
    using put_tmp_wf(1)[OF assms(2)] put_tmp_same(1) by (metis snd_conv)+
  have 2: "main_keeps E K st st2 \<and> deleted_keeps E st st2"
    if "check_if_have_all_blks_and_put_metadata E ?b k n st1 = (r2, st2)" for n r2 st2
    using check_blks_keeps(1)[OF assms(1) wf1, of k ?b n] check_blks_keeps(2)[OF assms(1) wf1, of ?b k n] that
      K_def keeps_trans(1)[OF same_dbs_keeps(1)[OF same1]] keeps_trans(2)[OF same_dbs_keeps(2)[OF same1]] by simp
  have 3: "main_keeps E K st (snd (delete_metadata_from_tmp_anti_entropy E ?b k n st2))"
    "deleted_keeps E st (snd (delete_metadata_from_tmp_anti_entropy E ?b k n st2))"
    if "main_keeps E K st st2 \<and> deleted_keeps E st st2" for n st2
    using that tmp_ops_same(2)[of st2 E ?b k n] by (auto intro: keeps_trans same_dbs_keeps)
  note keep1 = same_dbs_keeps[OF same1]
  have "main_keeps E K st (snd (incorporate_blk E k d st))"
    unfolding incorporate_blk_def Let_def s1 prod.case
    by (auto intro!: on_ret_keeps keep1 3 dest!: 2 split: option.splits prod.splits)
  then show "main_keeps E (if is_deleted k then {?b} else {}) st (snd (incorporate_blk E k d st))" by (simp add: K_def)
  show "deleted_keeps E st (snd (incorporate_blk E k d st))"
    unfolding incorporate_blk_def Let_def s1 prod.case
    by (auto intro!: on_ret_deleted_keeps keep1 3 dest!: 2 split: option.splits prod.splits)
qed

lemma get_incomplete_same: "same_dbs st (snd (get_incomplete_blks E k n st))"
  unfolding get_incomplete_blks_def Let_def
  by (auto intro!: on_ret_same split: ldb_result.splits prod.splits) (metis tmp_ops_same(2) snd_conv)+

lemma request_keys_same:
  "request_keys E m keys blks nd = (acts, r, nd') \<Longrightarrow> same_dbs (store nd) (store nd')"
proof (induction keys arbitrary: blks nd acts r nd')
  case (Cons p keys)
  obtain k sz where p: "p = (k, sz)" by (cases p)
  show ?case
  proof (cases "f_type k = DIRECTORY \<and> sz > BLK_SIZE")
    case True
    obtain r1 st1 where s1: "get_incomplete_blks E k sz (store nd) = (r1, st1)" by fastforce
    have 1: "same_dbs (store nd) st1" using get_incomplete_same[of "store nd" E k sz] s1 by simp
    show ?thesis
    proof (cases r1)
      case (Ret q)
      obtain inc new_blks where q: "q = (inc, new_blks)" by (cases q)
      obtain r2 st2 where s2: "(if inc then (Ret True, st1) else put_tmp_key_entry_size E k sz st1) = (r2, st2)" by fastforce
      have 2: "same_dbs (store nd) st2"
        using 1 s2 put_tmp_same(2)[of st1 E k sz] by (auto split: if_splits intro: same_dbs_trans)
      show ?thesis
        using Cons.prems(1) True s1 s2 Ret q p 2
        by (auto simp: Let_def split: res.splits prod.splits dest!: request_blks_wf Cons.IH intro: same_dbs_trans)
    qed (use Cons.prems True s1 1 p in \<open>auto split: prod.splits\<close>)
  next
    case False
    then show ?thesis using Cons.prems p by (auto split: prod.splits dest!: next_req_wf Cons.IH)
  qed
qed simp

lemma anti_entropy_message_same: "same_dbs (store nd) (store (snd (process_anti_entropy_message E m nd)))"
  by (auto simp: process_anti_entropy_message_def split: prod.splits res.splits
      dest!: request_deleted_wf dest: request_keys_same)

lemma write_handler_snd:
  "store (snd (write_handler E V lucky msg k seen_b extra op ex rep nd)) =
     (if seen_b then store nd else snd (op (store nd)))"
  by (simp add: write_handler_def Let_def split: prod.splits)

lemma store_of_case [simp]: "store (snd (case x of (r, st) \<Rightarrow> (f r, nd\<lparr>store := st\<rparr>))) = snd x"
  by (cases x) simp

text \<open>The keys of which a message may remove versions.\<close>

fun removes :: "'d env \<Rightarrow> kv_message \<Rightarrow> string set" where
  "removes E msg =
     (case body msg of
        Delete_msg m \<Rightarrow> {pk_key (dm_key m)}
      | Anti_entropy_get_reply_msg m \<Rightarrow> if ar_is_deleted m then {pk_key (ar_key m)} else {}
      | Anti_entropy_get_met_reply_msg m \<Rightarrow>
          if ar_is_deleted m then {snd (get_base_path (regex_search E) (pk_key (ar_key m)) [])} else {}
      | _ \<Rightarrow> {})"

lemma read_handlers_same:
  "same_dbs (store nd) (store (snd (process_get_message E V lucky msg m1 nd)))"
  "same_dbs (store nd) (store (snd (process_get_latest_version_msg E V lucky msg m2 nd)))"
  "same_dbs (store nd) (store (snd (process_get_latest_metadata_stat_msg E V lucky msg m3 nd)))"
  "same_dbs (store nd) (store (snd (process_get_latest_metadata_size_msg E V lucky msg m3 nd)))"
  "same_dbs (store nd) (store (snd (process_get_metadata_message E V lucky msg m4 nd)))"
  "same_dbs (store nd) (store (snd (process_anti_entropy_get_message E V junk msg m5 nd)))"
  "same_dbs (store nd) (store (snd (process_anti_entropy_get_metadata_message E V junk msg m5 nd)))"
  by (simp_all add: process_get_message_def process_get_latest_version_msg_def process_get_latest_metadata_stat_msg_def
      process_get_latest_metadata_size_msg_def process_get_metadata_message_def process_anti_entropy_get_message_def
      process_anti_entropy_get_metadata_message_def latest_handler_def Let_def same_dbs_def)

lemmas same_dbs_handlers = read_handlers_same anti_entropy_message_same

lemma client_write_handlers_keep:
  assumes "env_ok E" "store_wf E (store nd)"
  shows "main_keeps E {} (store nd) (store (snd (process_put_message E V lucky msg m1 nd)))"
    "main_keeps E {pk_key (dm_key m2)} (store nd) (store (snd (process_delete_message E V lucky msg m2 nd)))"
    "main_keeps E {} (store nd) (store (snd (process_put_child_message E V lucky msg m3 nd)))"
  using put_keeps[OF assms] kv_remove_keeps[OF assms(1)] put_metadata_child_keeps[OF assms]
  by (simp_all add: process_put_message_def process_delete_message_def process_put_child_message_def write_handler_snd Let_def)

lemma anti_entropy_reply_keeps:
  assumes "env_ok E" "store_wf E (store nd)"
  shows "main_keeps E (if ar_is_deleted m then {pk_key (ar_key m)} else {}) (store nd)
      (store (snd (process_anti_entropy_get_reply_message E junk m nd)))"
  using put_keeps[OF assms] kv_remove_keeps[OF assms(1)]
  by (simp add: process_anti_entropy_get_reply_message_def Let_def)

lemma anti_entropy_metadata_reply_keeps:
  assumes "env_ok E" "store_wf E (store nd)"
  shows "main_keeps E (if ar_is_deleted m then {snd (get_base_path (regex_search E) (pk_key (ar_key m)) [])} else {}) (store nd)
      (store (snd (process_anti_entropy_get_metadata_reply_message E junk m nd)))"
  using incorporate_blk_keeps(1)[OF assms, of "\<lparr>key = pk_key (ar_key m), version = version_of_msg (ar_key m),
      f_type = ae_type junk (ar_type m), is_deleted = ar_is_deleted m\<rparr>"]
  by (cases "ar_is_deleted m") (simp_all add: process_anti_entropy_get_metadata_reply_message_def Let_def)

lemmas write_handlers_keep = client_write_handlers_keep anti_entropy_reply_keeps anti_entropy_metadata_reply_keeps

lemma write_handlers_deleted_keep:
  assumes "env_ok E" "store_wf E (store nd)"
  shows "deleted_keeps E (store nd) (store (snd (process_put_message E V lucky msg m1 nd)))"
    "deleted_keeps E (store nd) (store (snd (process_delete_message E V lucky msg m2 nd)))"
    "deleted_keeps E (store nd) (store (snd (process_put_child_message E V lucky msg m3 nd)))"
    "deleted_keeps E (store nd) (store (snd (process_anti_entropy_get_reply_message E junk m4 nd)))"
    "deleted_keeps E (store nd) (store (snd (process_anti_entropy_get_metadata_reply_message E junk m4 nd)))"
  using kv_remove_deleted_keeps[OF assms(1)] incorporate_blk_keeps(2)[OF assms]
  by (auto simp: process_put_message_def process_delete_message_def process_put_child_message_def write_handler_snd
      process_anti_entropy_get_reply_message_def process_anti_entropy_get_metadata_reply_message_def Let_def keeps_same_db
      split: if_splits)

section \<open>Properties of the peer\<close>

lemma put_covers:
  assumes "env_ok E" "store_wf E st" "put E k bytes st = (Ret True, st')"
  shows "covers (stored E st' (key k)) (version k)"
proof (cases "f_type k")
  case FILE
  then show ?thesis using put_file_stored(1)[OF assms(1,2) FILE assms(3)]
      vinsert_covers(1)[of "\<lparr>vd_version = version k, vd_data = bytes\<rparr>" "version k"] by simp
next
  case DIRECTORY
  then show ?thesis using put_dir_stored(1)[OF assms(1,2) DIRECTORY assms(3)] merge_kv_upper(2) by auto
qed

lemma forward_no_reply:
  "forward_decider E V nd msg k = Ret acts \<Longrightarrow> Reply_client ip port r \<notin> set acts"
  by (auto simp: forward_decider_def Let_def split: if_splits)

text \<open>When a write handler answers the client.\<close>

lemma write_handler_reply:
  assumes "write_handler E V lucky msg k seen_b extra op ex rep nd = (Ret acts, nd')" "Reply_client ip port r \<in> set acts"
  shows "rep = Reply_client ip port r"
    "\<not> seen_b \<and> op (store nd) = (Ret True, store nd') \<or> seen_b \<and> extra \<and> nd' = nd \<and> ex (store nd) = Ret True"
proof -
  obtain res st where o: "op (store nd) = (res, st)" by fastforce
  have "rep = Reply_client ip port r \<and>
    (\<not> seen_b \<and> op (store nd) = (Ret True, store nd') \<or> seen_b \<and> extra \<and> nd' = nd \<and> ex (store nd) = Ret True)"
  proof (cases seen_b)
    case False
    then show ?thesis using assms o
      by (cases res) (auto simp: write_handler_def Let_def catch_exn_def dest: forward_no_reply split: if_splits)
  next
    case True
    then show ?thesis using assms
      by (auto simp: write_handler_def Let_def dest: forward_no_reply split: if_splits)
  qed
  then show "rep = Reply_client ip port r"
    "\<not> seen_b \<and> op (store nd) = (Ret True, store nd') \<or> seen_b \<and> extra \<and> nd' = nd \<and> ex (store nd) = Ret True"
    by blast+
qed

text \<open>
  C5. What an acknowledgement of a write means. When a peer handles a put request and answers the client, the answer is the
  put reply for exactly the key, version and type of the request, sent to the sender. If the peer had not seen the
  write before, the version is covered by the versions it now stores for the key; if it had, the
  request asked for an extra reply and the peer stores some version that is equal to or older than the written one.
\<close>

theorem acknowledged_put:
  assumes "env_ok E" "store_wf E (store nd)"
    and "process_put_message E V lucky msg m nd = (Ret acts, nd')" "Reply_client ip port r \<in> set acts"
  shows "ip = m_ip m \<and> port = m_port m \<and> r = \<lparr>forwarded_within_group = False, body =
        build_put_reply_message (nd_ip nd) (nd_port nd) (nd_id nd) (pk_key (pm_key m)) (version_of_msg (pm_key m)) (pm_type m)\<rparr> \<and>
    (if have_seen (store nd) \<lparr>key = pk_key (pm_key m), version = version_of_msg (pm_key m), f_type = pm_type m, is_deleted = False\<rparr>
     then pm_extra_reply m \<and> nd' = nd \<and>
       (\<exists>vd\<in>set (stored E (store nd) (pk_key (pm_key m))). ver_le (vd_version vd) (version_of_msg (pm_key m)))
     else covers (stored E (store nd') (pk_key (pm_key m))) (version_of_msg (pm_key m)))"
proof -
  let ?k = "\<lparr>key = pk_key (pm_key m), version = version_of_msg (pm_key m), f_type = pm_type m, is_deleted = False\<rparr>"
  note w = write_handler_reply[OF assms(3)[unfolded process_put_message_def Let_def] assms(4)]
  have "verify_if_version_exists E (store nd) ?k =
      Ret (\<exists>vd\<in>set (stored E (store nd) (key ?k)). ver_le (vd_version vd) (version ?k))"
    using assms(2) by (simp add: verify_if_version_exists_def store_wf_def verify_value)
  with w put_covers[OF assms(1,2), of ?k "pm_data m" "store nd'"] show ?thesis by (auto simp: reply_client_def)
qed

lemma process_message_wf:
  assumes "env_ok E" "store_wf E (store nd)"
  shows "store_wf E (store (snd (process_message E V lucky junk msg nd)))"
  using read_handlers_wf[OF assms(2)] write_handlers_wf[OF assms] anti_entropy_message_wf[OF assms(2)] assms(2)
  by (cases "body msg") simp_all

lemma process_message_keeps:
  assumes "env_ok E" "store_wf E (store nd)"
  shows "main_keeps E (removes E msg) (store nd) (store (snd (process_message E V lucky junk msg nd)))"
    "deleted_keeps E (store nd) (store (snd (process_message E V lucky junk msg nd)))"
  by (cases "body msg"; simp only: process_message.simps removes.simps kv_body.case keeps_refl snd_conv
      write_handlers_keep[OF assms] same_dbs_handlers[THEN same_dbs_keeps(1)])
    (cases "body msg"; simp only: process_message.simps kv_body.case keeps_refl snd_conv
      write_handlers_deleted_keep[OF assms] same_dbs_handlers[THEN same_dbs_keeps(2)])

declare process_message.simps [simp del] removes.simps [simp del]

text \<open>
  No message makes a peer forget. Whatever message a peer handles, whatever the database reports and whatever exception the
  handler meets, its databases stay readable; every version covered by what it stores for a key stays covered, unless the
  message itself carries a deletion of that key; and every deletion it has recorded stays recorded.
\<close>

theorem peer_never_forgets:
  assumes "env_ok E" "store_wf E (store nd)" "process_message E V lucky junk msg nd = (r, nd')"
  shows "store_wf E (store nd') \<and>
     (\<forall>k w. k \<notin> removes E msg \<longrightarrow> covers (stored E (store nd) k) w \<longrightarrow> covers (stored E (store nd') k) w) \<and>
     (\<forall>k w. covers (deleted_entries E (store nd) k) w \<longrightarrow> covers (deleted_entries E (store nd') k) w)"
  using process_message_wf[OF assms(1,2), of V lucky junk msg] process_message_keeps(1)[OF assms(1,2), of msg V lucky junk]
    process_message_keeps(2)[OF assms(1,2), of V lucky junk msg]
  unfolding main_keeps_def deleted_keeps_def assms(3) snd_conv by blast

text \<open>
  C23. What an acknowledgement of a deletion means. When a peer handles a delete request and answers the client, the answer is the
  delete reply for exactly the key, version and type of the request, sent to the sender. If the peer had not seen the deletion before, its
  database of deleted keys covers the deleted version; if it had, the request asked for an extra reply, nothing changes, and the peer
  has recorded some deletion that is equal to or older than the requested one.
\<close>

theorem acknowledged_delete:
  assumes "env_ok E" "store_wf E (store nd)"
    and "process_delete_message E V lucky msg m nd = (Ret acts, nd')" "Reply_client ip port r \<in> set acts"
  shows "ip = m_ip m \<and> port = m_port m \<and> r = \<lparr>forwarded_within_group = False, body =
        build_delete_reply_message (nd_ip nd) (nd_port nd) (nd_id nd) (pk_key (dm_key m)) (version_of_msg (dm_key m)) (dm_type m)\<rparr> \<and>
    (if have_seen_deleted (store nd) \<lparr>key = pk_key (dm_key m), version = version_of_msg (dm_key m), f_type = dm_type m, is_deleted = True\<rparr>
     then dm_extra_reply m \<and> nd' = nd \<and>
       (\<exists>vd\<in>set (stored_deleted E (store nd) (pk_key (dm_key m))). ver_le (vd_version vd) (version_of_msg (dm_key m)))
     else covers (deleted_entries E (store nd') (pk_key (dm_key m))) (version_of_msg (dm_key m)))"
proof -
  let ?k = "\<lparr>key = pk_key (dm_key m), version = version_of_msg (dm_key m), f_type = dm_type m, is_deleted = True\<rparr>"
  note w = write_handler_reply[OF assms(3)[unfolded process_delete_message_def Let_def] assms(4)]
  have "covers (deleted_entries E (store nd') (key ?k)) (version ?k)" if r: "kv_remove E ?k (store nd) = (Ret True, store nd')"
  proof -
    obtain v where v: "deleted_after E ?k (get_db E (key ?k) (db_deleted (store nd))) = Ret v"
      "deleted_value E (store nd') = (deleted_value E (store nd))(key ?k \<mapsto> v)"
      using kv_remove_True[OF assms(1) r] by blast
    then show ?thesis using deleted_after_covers(1)[OF v(1)] by simp
  qed
  moreover have "verify_if_version_exists_in_deleted E (store nd) ?k =
      Ret (\<exists>vd\<in>set (stored_deleted E (store nd) (key ?k)). ver_le (vd_version vd) (version ?k))"
    using assms(2) by (simp add: verify_if_version_exists_in_deleted_def store_wf_def verify_value)
  ultimately show ?thesis using w by (auto simp: reply_client_def)
qed

lemma in_log_after [simp]: "in_log (log_req r st) r"
  by (simp add: in_log_def log_req_def Let_def)

lemma latest_handler_log:
  "in_log (store (snd (latest_handler E V lucky msg ip port k rid bd q nd))) rid"
  by (simp add: latest_handler_def Let_def)

text \<open>
  A read request that is delivered again is ignored: right after a peer has handled a read request, whatever came of it,
  handling it once more, under other views, another random draw or another forwarding flag, sends nothing and changes nothing.
\<close>

theorem duplicate_read_ignored:
  "(let nd' = snd (process_get_message E V lucky msg m1 nd) in process_get_message E V' lucky' msg' m1 nd' = (Ret [], nd')) \<and>
   (let nd' = snd (process_get_latest_version_msg E V lucky msg m2 nd)
    in process_get_latest_version_msg E V' lucky' msg' m2 nd' = (Ret [], nd')) \<and>
   (let nd' = snd (process_get_metadata_message E V lucky msg m3 nd)
    in process_get_metadata_message E V' lucky' msg' m3 nd' = (Ret [], nd'))"
proof -
  have "in_log (store (snd (process_get_message E V lucky msg m1 nd))) (gt_reqid m1)"
    "in_log (store (snd (process_get_metadata_message E V lucky msg m3 nd))) (gd_reqid m3)"
    by (simp_all add: process_get_message_def process_get_metadata_message_def Let_def)
  moreover have "in_log (store (snd (process_get_latest_version_msg E V lucky msg m2 nd))) (gv_reqid m2)"
    by (simp add: process_get_latest_version_msg_def latest_handler_log)
  ultimately show ?thesis
    by (simp add: Let_def process_get_message_def[of _ V'] process_get_metadata_message_def[of _ V']
        process_get_latest_version_msg_def[of _ V'] latest_handler_def[of _ V'])
qed

end
