(* ===== verification/Anti_Entropy.thy ===== *)
theory Anti_Entropy
  imports Data_Handler
begin

text \<open>
  The anti-entropy thread of a peer: \<^verbatim>\<open>df_data_handlers/anti_entropy.cpp\<close>. It starts a peer by receiving the state of another
  peer of its group and then keeps offering a sample of its keys to the peers of its slice. The size in bytes of an encoded
  offer is computed by generated code and is the parameter \<open>byte_size\<close>; what arrives on a connection is a list of
  events.

  The share of the main keys in a datagram is computed in single precision from integers below \<^verbatim>\<open>2 ^ 23\<close>, where the
  truncation to an integer is exact; the model computes it with integers.
\<close>

section \<open>Phases\<close>

datatype Phase = Starting | Recovering | Operating

text \<open>\<open>group_recovered\<close> is the answer of the group construction.\<close>

definition phase_starting :: "bool \<Rightarrow> bool \<Rightarrow> Phase \<Rightarrow> Phase" where
  "phase_starting group_recovered recover_database p =
     (if group_recovered then (if recover_database then Recovering else Operating) else p)"

definition ae_has_recovered :: "Phase \<Rightarrow> bool" where
  "ae_has_recovered p \<longleftrightarrow> p = Operating"

definition send_recover_request :: "string \<Rightarrow> int \<Rightarrow> int \<Rightarrow> int \<Rightarrow> kv_message" where
  "send_recover_request ip recover_port nr_groups my_group =
     \<lparr>forwarded_within_group = False,
      body = Recover_request_msg \<lparr>m_ip = ip, m_port = 0, m_id = 0, rr_recover_port = recover_port, rr_nr_slices = nr_groups,
               rr_slice = my_group\<rparr>\<rparr>"

section \<open>Receiving the state of another peer\<close>

datatype recv = Received kv_message | Recv_failed | Disconnected

text \<open>One message of the transfer; an exception of the store is caught and the loop goes on.\<close>

definition recover_one :: "'d env \<Rightarrow> store_key \<Rightarrow> bytes \<Rightarrow> 'd kv_store \<Rightarrow> bool res \<times> 'd kv_store" where
  "recover_one E sk data st =
     (let key_comp = key_of_store_key sk in
      if sk_is_deleted sk then kv_remove E key_comp st else put E key_comp data st)"

text \<open>\<open>None\<close>: the loop has not returned when the events are used up.\<close>

fun recover_state :: "'d env \<Rightarrow> recv list \<Rightarrow> 'd kv_store \<Rightarrow> bool option \<times> 'd kv_store" where
  "recover_state E [] st = (None, st)"
| "recover_state E (Recv_failed # evs) st = recover_state E evs st"
| "recover_state E (Disconnected # evs) st = (Some False, st)"
| "recover_state E (Received msg # evs) st =
     (case body msg of
        Recover_termination_msg \<Rightarrow> (Some True, st)
      | Recover_data_msg sk data \<Rightarrow>
          (case recover_one E sk data st of
             (Hang, st') \<Rightarrow> (None, st')
           | (_, st') \<Rightarrow> recover_state E evs st')
      | _ \<Rightarrow> recover_state E evs st)"

text \<open>The rounds of \<^verbatim>\<open>phase_recovering\<close>: a request is sent to a random peer of the group and a connection awaited.\<close>

datatype attempt = Send_failed | No_connection | Connected "recv list"

fun phase_recovering :: "'d env \<Rightarrow> attempt list \<Rightarrow> 'd kv_store \<Rightarrow> Phase \<times> 'd kv_store" where
  "phase_recovering E [] st = (Recovering, st)"
| "phase_recovering E (Send_failed # as) st = phase_recovering E as st"
| "phase_recovering E (No_connection # as) st = phase_recovering E as st"
| "phase_recovering E (Connected evs # as) st =
     (case recover_state E evs st of
        (Some True, st') \<Rightarrow> (Operating, st')
      | (Some False, st') \<Rightarrow> phase_recovering E as st'
      | (None, st') \<Rightarrow> (Recovering, st'))"

section \<open>Offering keys\<close>

definition offer_main :: "kv_store_key \<times> nat \<Rightarrow> store_key" where
  "offer_main kn = \<lparr>sk_key = key_msg (key (fst kn)) (version (fst kn)), sk_is_deleted = False, sk_type = f_type (fst kn),
     sk_data_size = snd kn\<rparr>"

definition offer_deleted :: "kv_store_key \<Rightarrow> store_key" where
  "offer_deleted k = \<lparr>sk_key = key_msg (key k) (version k), sk_is_deleted = True, sk_type = f_type k, sk_data_size = 0\<rparr>"

text \<open>The two inner loops: entries are added while the space left is at least \<open>lim\<close>. The result is what was
  added, the space left and the entries left.\<close>

fun fill :: "(store_key \<Rightarrow> nat) \<Rightarrow> int \<Rightarrow> int \<Rightarrow> store_key list \<Rightarrow> store_key list \<times> int \<times> store_key list" where
  "fill byte_size lim total_size [] = ([], total_size, [])"
| "fill byte_size lim total_size (k # ks) =
     (if total_size \<ge> lim then
        (case fill byte_size lim (total_size - int (byte_size k)) ks of (added, left, rest) \<Rightarrow> (k # added, left, rest))
      else ([], total_size, k # ks))"

partial_function (option) datagrams ::
  "(store_key \<Rightarrow> nat) \<Rightarrow> int \<Rightarrow> int \<Rightarrow> store_key list \<Rightarrow> store_key list \<Rightarrow> store_key list list option" where
  [code]: "datagrams byte_size total_size main_lim main_keys deleted_keys =
     (if main_keys = [] \<and> deleted_keys = [] then Some []
      else
        (case fill byte_size main_lim total_size main_keys of (added, left, main_rest) \<Rightarrow>
         case fill byte_size 0 left deleted_keys of (added_del, _, deleted_rest) \<Rightarrow>
           Option.bind (datagrams byte_size total_size main_lim main_rest deleted_rest)
             (\<lambda>ds. Some ((added @ added_del) # ds))))"

definition packet_size :: "int \<Rightarrow> int" where
  "packet_size percentage = min 64507 (cdiv (64507 * percentage) 100)"

definition main_limit :: "int \<Rightarrow> nat \<Rightarrow> nat \<Rightarrow> int" where
  "main_limit total_size nr_main nr_deleted =
     (let percentage = (if nr_main = 0 then 0 else int (nr_main * 100 div (nr_main + nr_deleted)))
      in cdiv (total_size * (100 - percentage)) 100)"

definition phase_operating ::
  "'d env \<Rightarrow> (store_key \<Rightarrow> nat) \<Rightarrow> int \<Rightarrow> (long \<Rightarrow> long) \<Rightarrow> (long \<Rightarrow> long) \<Rightarrow> 'p views \<Rightarrow> 'd node \<Rightarrow>
     'p action list res \<times> 'd node" where
  "phase_operating E byte_size percentage pick pick_deleted V nd =
     (case get_keys E pick (store nd) of (r1, st1) \<Rightarrow>
      case on_ret st1 r1 (\<lambda>main_keys.
             case get_deleted_keys E pick_deleted st1 of (r2, st2) \<Rightarrow>
               (rbind r2 (\<lambda>deleted_keys.
                  let total_size = packet_size percentage;
                      lim = main_limit total_size (length main_keys) (length deleted_keys)
                  in case datagrams byte_size total_size lim (map offer_main main_keys) (map offer_deleted deleted_keys) of
                       None \<Rightarrow> Hang
                     | Some ds \<Rightarrow> Ret (map (\<lambda>ks. Forward_message (get_slice_local_view V)
                         \<lparr>forwarded_within_group = False, body = Anti_entropy_msg
                            \<lparr>m_ip = nd_ip nd, m_port = nd_port nd, m_id = nd_id nd, ae_store_keys = ks\<rparr>\<rparr>) ds)), st2)) of
        (r, st) \<Rightarrow> (catch_exn [] r, nd\<lparr>store := st\<rparr>))"

section \<open>Lemmas on the packing of offers\<close>

lemma fill_append: "fill sz lim t ks = (added, left, rest) \<Longrightarrow> added @ rest = ks"
  by (induction sz lim t ks arbitrary: added left rest rule: fill.induct) (auto split: if_splits prod.splits)

lemma fill_left: "fill sz lim t ks = (added, left, rest) \<Longrightarrow> left = t - (\<Sum>k\<leftarrow>added. int (sz k))"
  by (induction sz lim t ks arbitrary: added left rest rule: fill.induct) (auto split: if_splits prod.splits)

lemma fill_progress: "fill sz lim t ks = (added, left, rest) \<Longrightarrow> lim \<le> t \<Longrightarrow> ks \<noteq> [] \<Longrightarrow> length rest < length ks"
  using fill_append[of sz lim t ks added left rest] by (cases ks) (auto split: prod.splits)

lemma fill_butlast:
  "fill sz lim t ks = (added, left, rest) \<Longrightarrow> added \<noteq> [] \<Longrightarrow> (\<Sum>k\<leftarrow>butlast added. int (sz k)) \<le> t - lim"
  by (induction sz lim t ks arbitrary: added left rest rule: fill.induct) (auto split: if_splits prod.splits)

lemma fill_none: "fill sz lim t ks = ([], left, rest) \<Longrightarrow> rest = ks \<and> left = t \<and> (ks = [] \<or> t < lim)"
  by (cases ks) (auto split: if_splits prod.splits)

abbreviation bytes_of :: "(store_key \<Rightarrow> nat) \<Rightarrow> store_key list \<Rightarrow> int" where
  "bytes_of sz ks \<equiv> (\<Sum>k\<leftarrow>ks. int (sz k))"

text \<open>One datagram: all of it but its last entry fits in the configured size.\<close>

lemma datagram_fits:
  assumes "fill sz lim t ms = (a, l, ms')" "fill sz 0 l ds = (b, l', ds')" "0 \<le> lim" "a @ b \<noteq> []"
  shows "bytes_of sz (butlast (a @ b)) \<le> t"
proof (cases "b = []")
  case True
  then show ?thesis using fill_butlast[OF assms(1)] assms(3,4) by simp
next
  case False
  have "bytes_of sz (butlast b) \<le> l" using fill_butlast[OF assms(2) False] by simp
  then show ?thesis using fill_left[OF assms(1)] False by (simp add: butlast_append)
qed

lemma datagrams_total:
  assumes "0 \<le> lim" "lim \<le> t" "\<forall>k\<in>set ms. \<not> sk_is_deleted k" "\<forall>k\<in>set ds. sk_is_deleted k"
  shows "\<exists>xs. datagrams sz t lim ms ds = Some xs \<and> filter (\<lambda>k. \<not> sk_is_deleted k) (concat xs) = ms \<and>
    filter sk_is_deleted (concat xs) = ds \<and> (\<forall>x\<in>set xs. x \<noteq> [] \<and> bytes_of sz (butlast x) \<le> t)"
  using assms(3,4)
proof (induction "length ms + length ds" arbitrary: ms ds rule: less_induct)
  case less
  show ?case
  proof (cases "ms = [] \<and> ds = []")
    case True
    then show ?thesis by (simp add: datagrams.simps)
  next
    case False
    obtain a l ms' where f1: "fill sz lim t ms = (a, l, ms')" by (metis prod_cases3)
    obtain b l' ds' where f2: "fill sz 0 l ds = (b, l', ds')" by (metis prod_cases3)
    note app = fill_append[OF f1] fill_append[OF f2]
    have "a @ b \<noteq> []"
    proof
      assume "a @ b = []"
      then show False
        using fill_none[of sz lim t ms l ms'] fill_none[of sz 0 l ds l' ds'] f1 f2 False assms(1,2) by auto
    qed
    moreover have "length ms' + length ds' < length ms + length ds"
      using app[THEN arg_cong[of _ _ length]] \<open>a @ b \<noteq> []\<close> by (cases a; cases b) auto
    ultimately obtain xs where xs: "datagrams sz t lim ms' ds' = Some xs"
      "filter (\<lambda>k. \<not> sk_is_deleted k) (concat xs) = ms'" "filter sk_is_deleted (concat xs) = ds'"
      "\<forall>x\<in>set xs. x \<noteq> [] \<and> bytes_of sz (butlast x) \<le> t"
      using less.hyps[of ms' ds'] less.prems unfolding app[symmetric] by auto
    have "datagrams sz t lim ms ds = Some ((a @ b) # xs)"
      using f1 f2 xs(1) by (subst datagrams.simps) (simp add: False)
    moreover have "filter (\<lambda>k. \<not> sk_is_deleted k) a = a" "filter (\<lambda>k. \<not> sk_is_deleted k) b = []"
      "filter sk_is_deleted a = []" "filter sk_is_deleted b = b"
      using less.prems unfolding app[symmetric] by (auto simp: filter_empty_conv intro!: filter_True)
    ultimately show ?thesis
      using xs(2-4) app datagram_fits[OF f1 f2 assms(1)] \<open>a @ b \<noteq> []\<close>
      by (intro exI[of _ "(a @ b) # xs"]) simp
  qed
qed

lemma main_limit_bounds: "0 \<le> t \<Longrightarrow> 0 \<le> main_limit t n d \<and> main_limit t n d \<le> t"
proof -
  assume t: "0 \<le> t"
  define p where "p = (if n = 0 then 0 else int (n * 100 div (n + d)))"
  have "n * 100 div (n + d) \<le> 100"
    using div_le_mono[of "n * 100" "100 * (n + d)" "n + d"] by (cases "n = 0") (simp_all del: distrib_left_numeral)
  then have p: "0 \<le> p" "p \<le> 100" by (auto simp: p_def)
  then have "0 \<le> t * (100 - p)" "t * (100 - p) \<le> t * 100" using t by (auto intro!: mult_left_mono)
  then have "0 \<le> t * (100 - p) div 100" "t * (100 - p) div 100 \<le> t"
    by (simp_all add: div_le_mono zdiv_mono1[of "t * (100 - p)" "t * 100" 100, simplified])
  moreover have "main_limit t n d = t * (100 - p) div 100"
    using \<open>0 \<le> t * (100 - p)\<close> by (cases "t * (100 - p) = 0") (auto simp: main_limit_def p_def[symmetric] cdiv_def Let_def sgn_if)
  ultimately show ?thesis by simp
qed

lemma packet_size_nonneg: "0 \<le> p \<Longrightarrow> 0 \<le> packet_size p"
  by (cases "p = 0") (simp_all add: packet_size_def cdiv_def)

text \<open>The keys a datagram offers.\<close>

fun offers_of :: "'p action \<Rightarrow> store_key list" where
  "offers_of (Forward_message ps m) = (case body m of Anti_entropy_msg a \<Rightarrow> ae_store_keys a | _ \<Rightarrow> [])"
| "offers_of (Reply_client _ _ _) = []"

text \<open>
  C21. A round of anti-entropy ends and offers everything it sampled: for a non-negative packet share, the loop that fills datagrams
  terminates; over all datagrams of the round every sampled key is offered once, in order, and so is every sampled
  deletion; no datagram is empty, and each fits in the configured size but for its last entry.
\<close>

theorem anti_entropy_round:
  assumes "0 \<le> percentage"
    and "get_keys E pick (store nd) = (Ret main_keys, st1)" "get_deleted_keys E pick_deleted st1 = (Ret deleted_keys, st2)"
  shows "\<exists>acts. phase_operating E byte_size percentage pick pick_deleted V nd = (Ret acts, nd\<lparr>store := st2\<rparr>) \<and>
    filter (\<lambda>k. \<not> sk_is_deleted k) (concat (map offers_of acts)) = map offer_main main_keys \<and>
    filter sk_is_deleted (concat (map offers_of acts)) = map offer_deleted deleted_keys \<and>
    (\<forall>a\<in>set acts. offers_of a \<noteq> [] \<and> bytes_of byte_size (butlast (offers_of a)) \<le> packet_size percentage)"
proof -
  let ?t = "packet_size percentage"
  let ?lim = "main_limit ?t (length main_keys) (length deleted_keys)"
  note b = main_limit_bounds[OF packet_size_nonneg[OF assms(1)], of "length main_keys" "length deleted_keys"]
  obtain xs where xs: "datagrams byte_size ?t ?lim (map offer_main main_keys) (map offer_deleted deleted_keys) = Some xs"
    "filter (\<lambda>k. \<not> sk_is_deleted k) (concat xs) = map offer_main main_keys"
    "filter sk_is_deleted (concat xs) = map offer_deleted deleted_keys"
    "\<forall>x\<in>set xs. x \<noteq> [] \<and> bytes_of byte_size (butlast x) \<le> ?t"
    using datagrams_total[of ?lim ?t "map offer_main main_keys" "map offer_deleted deleted_keys" byte_size] b
    by (auto simp: offer_main_def offer_deleted_def)
  let ?f = "\<lambda>ks. Forward_message (get_slice_local_view V) \<lparr>forwarded_within_group = False, body = Anti_entropy_msg
    \<lparr>m_ip = nd_ip nd, m_port = nd_port nd, m_id = nd_id nd, ae_store_keys = ks\<rparr>\<rparr>"
  have "map offers_of (map ?f xs) = xs" by (simp add: comp_def)
  moreover have "phase_operating E byte_size percentage pick pick_deleted V nd = (Ret (map ?f xs), nd\<lparr>store := st2\<rparr>)"
    using assms(2,3) xs(1) by (simp add: phase_operating_def Let_def catch_exn_def)
  ultimately show ?thesis using xs(2-4) by (intro exI[of _ "map ?f xs"]) (auto simp del: map_map)
qed

end
