(* ===== verification/State_Transfer.thy ===== *)
theory State_Transfer
  imports Anti_Entropy
begin

text \<open>
  A recovering peer and the peer that answers its request, composed: the messages that \<open>process_recover_request_msg\<close>
  writes to the connection are read by \<open>recover_state\<close>. The database of the recovering peer is assumed to accept
  its writes.
\<close>

section \<open>Operations keep the placement\<close>

definition same_place :: "'d kv_store \<Rightarrow> 'd kv_store \<Rightarrow> bool" where
  "same_place st st' \<longleftrightarrow> nr_slices st' = nr_slices st \<and> slice st' = slice st"

lemma same_place_refl [simp]: "same_place st st"
  by (simp add: same_place_def)

lemma same_place_trans: "same_place a b \<Longrightarrow> same_place b c \<Longrightarrow> same_place a c"
  by (simp add: same_place_def)

lemma same_place_slice: "same_place st st' \<Longrightarrow> get_slice_for_key E st' k = get_slice_for_key E st k"
  using get_slice_cong[of st' st E] by (simp add: same_place_def)

lemma on_ret_place:
  assumes "same_place s st" "\<And>a. m = Ret a \<Longrightarrow> same_place s (snd (f a))"
  shows "same_place s (snd (on_ret st m f))"
  using assms by (cases m) auto

lemma db_calls_place [simp]:
  "same_place s (snd (put_main E k v n st)) \<longleftrightarrow> same_place s st"
  "same_place s (snd (delete_main E k st)) \<longleftrightarrow> same_place s st"
  "same_place s (snd (put_deleted E k v st)) \<longleftrightarrow> same_place s st"
  "same_place s (seen_it kc st) \<longleftrightarrow> same_place s st"
  "same_place s (seen_it_deleted kc st) \<longleftrightarrow> same_place s st"
  by (simp_all add: same_place_def put_main_def delete_main_def put_deleted_def split: prod.splits)

lemma put_place: "same_place st (snd (put E k bytes st))"
  unfolding put_def put_with_merge_def Let_def
  by (auto intro!: on_ret_place split: option.splits kVersionComp.splits)

lemma kv_remove_place: "same_place st (snd (kv_remove E k st))"
proof -
  obtain r st1 where r: "remove_from_main_db E k (seen_it_deleted k st) = (r, st1)" by fastforce
  have "same_place st (snd (remove_from_main_db E k (seen_it_deleted k st)))"
    unfolding remove_from_main_db_def Let_def by (auto intro!: on_ret_place split: option.splits)
  then show ?thesis by (auto simp: kv_remove_def Let_def r intro!: on_ret_place)
qed

section \<open>Writes that succeed\<close>

definition accepts_writes :: "'d env \<Rightarrow> bool" where
  "accepts_writes E \<longleftrightarrow> (\<forall>d k b. fst (ldb_put E d k b))"

lemma put_main_accepted: "accepts_writes E \<Longrightarrow> fst (put_main E k v n st) = Ret True"
  unfolding accepts_writes_def put_main_def by (simp add: split: prod.splits) (metis fst_conv)

lemma put_deleted_accepted: "accepts_writes E \<Longrightarrow> fst (put_deleted E k v st) = Ret True"
  unfolding accepts_writes_def put_deleted_def by (simp add: split: prod.splits) (metis fst_conv)

text \<open>Whether the recovering peer takes a write: the key is its own and what it has under it, if anything, is
  a file like the written object.\<close>

definition takes :: "'d env \<Rightarrow> 'd kv_store \<Rightarrow> kv_store_key \<Rightarrow> bool" where
  "takes E st k \<longleftrightarrow> get_slice_for_key E st (key k) = Ret (slice st) \<and>
     (main_value E st (key k) = None \<or> f_type k = FILE \<and> (\<exists>v. main_value E st (key k) = Some v \<and> v_type v = FILE))"

lemma put_accepted:
  assumes "accepts_writes E" "store_wf E st" "takes E st k"
  shows "fst (put E k bytes st) = Ret True"
proof -
  have "db_wf E (db st)" using assms(2) by (simp add: store_wf_def)
  from db_wf_cases[OF this, of "key k"] show ?thesis
    by cases (use assms(1,3) in \<open>auto simp: takes_def put_def put_with_merge_def Let_def kv_get_def deserialize_value_def
      put_main_accepted\<close>)
qed

lemma remove_returns:
  assumes "store_wf E st" "get_slice_for_key E st (key k) = Ret (slice st)"
  shows "\<exists>b. fst (remove_from_main_db E k st) = Ret b"
proof -
  have "db_wf E (db st)" using assms(1) by (simp add: store_wf_def)
  from db_wf_cases[OF this, of "key k"] show ?thesis
    by cases (use assms(2) db_call_returns in \<open>auto simp: remove_from_main_db_def Let_def kv_get_def deserialize_value_def\<close>)
qed

lemma kv_remove_accepted:
  assumes "accepts_writes E" "env_ok E" "store_wf E st" "get_slice_for_key E st (key k) = Ret (slice st)"
  shows "fst (kv_remove E k st) = Ret True"
proof -
  obtain r st1 where r: "remove_from_main_db E k (seen_it_deleted k st) = (r, st1)" by fastforce
  obtain b where b: "r = Ret b" using remove_returns[of E "seen_it_deleted k st" k] assms(3,4) r by auto
  have "store_wf E st1" using remove_from_main_db_wf[OF assms(2), of "seen_it_deleted k st" k] assms(3) r by simp
  then have "db_wf E (db_deleted st1)" by (simp add: store_wf_def)
  from db_wf_cases[OF this, of "key k"] have "\<exists>v. deleted_after E k (kv_get_deleted E st1 (key k)) = Ret v"
    by cases (auto simp: deleted_after_def kv_get_deleted_def Let_def deserialize_value_def)
  then show ?thesis using assms(1,4) r b by (auto simp: kv_remove_def Let_def put_deleted_accepted)
qed

section \<open>The transfer, key by key\<close>

abbreviation arrives :: "kv_store_key \<times> bytes \<Rightarrow> recv" where
  "arrives kb \<equiv> Received (recover_data_message kb)"

lemma recover_arrives:
  "recover_state E (arrives (k, b) # evs) st =
     (case (if is_deleted k then kv_remove E k st else put E k b st) of
        (Hang, st') \<Rightarrow> (None, st') | (_, st') \<Rightarrow> recover_state E evs st')"
  by (cases k) (simp add: recover_data_message_def recover_one_def key_of_store_key_def)

text \<open>\<open>transfers E kbs st st'\<close>: receiving \<open>kbs\<close> turns the store \<open>st\<close> into \<open>st'\<close> and the loop goes on.\<close>

definition transfers :: "'d env \<Rightarrow> (kv_store_key \<times> bytes) list \<Rightarrow> 'd kv_store \<Rightarrow> 'd kv_store \<Rightarrow> bool" where
  "transfers E kbs st st' \<longleftrightarrow> (\<forall>evs. recover_state E (map arrives kbs @ evs) st = recover_state E evs st') \<and>
     same_place st st' \<and> store_wf E st'"

lemma transfers_Nil [simp]: "transfers E [] st st \<longleftrightarrow> store_wf E st"
  by (simp add: transfers_def)

lemma transfers_append: "transfers E xs a b \<Longrightarrow> transfers E ys b c \<Longrightarrow> transfers E (xs @ ys) a c"
  by (simp add: transfers_def) (metis same_place_trans)

lemma transfers_put:
  assumes "env_ok E" "store_wf E st" "\<not> is_deleted k" "put E k b st = (Ret True, st')"
  shows "transfers E [(k, b)] st st'"
  using assms put_place[of st E k b] put_wf[OF assms(1,2), of k b] by (simp add: transfers_def recover_arrives del: recover_state.simps)

lemma transfers_remove:
  assumes "env_ok E" "store_wf E st" "is_deleted k" "kv_remove E k st = (Ret True, st')"
  shows "transfers E [(k, b)] st st'"
  using assms kv_remove_place[of st E k] kv_remove_wf[OF assms(1,2), of k] by (simp add: transfers_def recover_arrives del: recover_state.simps)

lemma transfer_versions:
  assumes "accepts_writes E" "env_ok E" "store_wf E st" "get_slice_for_key E st k = Ret (slice st)"
    and "main_value E st k = None \<or> t = FILE \<and> (\<exists>v. main_value E st k = Some v \<and> v_type v = FILE)"
    and "t = DIRECTORY \<Longrightarrow> length dvs \<le> 1"
  shows "\<exists>st'. transfers E (map (\<lambda>dv. (\<lparr>key = k, version = vd_version dv, f_type = t, is_deleted = False\<rparr>, vd_data dv)) dvs) st st' \<and>
    main_keeps E {} st st' \<and> (\<forall>dv\<in>set dvs. covers (stored E st' k) (vd_version dv)) \<and>
    (\<forall>k'. k' \<noteq> k \<longrightarrow> main_value E st' k' = main_value E st k') \<and> db_deleted st' = db_deleted st"
  using assms(3-6)
proof (induction dvs arbitrary: st)
  case Nil
  then show ?case by (intro exI[of _ st]) simp
next
  case (Cons dv dvs)
  let ?k = "\<lparr>key = k, version = vd_version dv, f_type = t, is_deleted = False\<rparr>"
  have "takes E st ?k" using Cons.prems by (simp add: takes_def)
  then have "fst (put E ?k (vd_data dv) st) = Ret True" using put_accepted[OF assms(1) Cons.prems(1)] by blast
  then obtain st1 where st1: "put E ?k (vd_data dv) st = (Ret True, st1)" by (metis prod.collapse)
  note tr = transfers_put[OF assms(2) Cons.prems(1) _ st1, simplified]
  have wf1: "store_wf E st1" and pl: "same_place st st1" using tr by (simp_all add: transfers_def)
  have other: "main_value E st1 k' = main_value E st k'" if "k' \<noteq> k" for k'
    using put_True[OF assms(2) Cons.prems(1) st1] that by auto
  have del: "db_deleted st1 = db_deleted st" using put_deleted_same[of E ?k "vd_data dv" st] st1 by simp
  have cov: "covers (stored E st1 k) (vd_version dv)" using put_covers[OF assms(2) Cons.prems(1) st1] by simp
  have keep: "main_keeps E {} st st1" using put_keeps[OF assms(2) Cons.prems(1), of "{}" ?k "vd_data dv"] st1 by simp
  have "\<exists>st'. transfers E (map (\<lambda>dv. (\<lparr>key = k, version = vd_version dv, f_type = t, is_deleted = False\<rparr>, vd_data dv)) dvs) st1 st' \<and>
    main_keeps E {} st1 st' \<and> (\<forall>dv\<in>set dvs. covers (stored E st' k) (vd_version dv)) \<and>
    (\<forall>k'. k' \<noteq> k \<longrightarrow> main_value E st' k' = main_value E st1 k') \<and> db_deleted st' = db_deleted st1"
  proof (cases "t = FILE")
    case True
    then obtain vs where "main_value E st1 k = Some \<lparr>v_type = FILE, vdata = vs\<rparr>"
      using put_file_stored(5)[OF assms(2) Cons.prems(1) _ st1] by auto
    then have "\<exists>v. main_value E st1 k = Some v \<and> v_type v = FILE" by simp
    moreover have "get_slice_for_key E st1 k = Ret (slice st1)"
      using Cons.prems(2) pl by (simp add: same_place_slice) (simp add: same_place_def)
    ultimately show ?thesis using Cons.IH[OF wf1] True by blast
  next
    case False
    then have "dvs = []" using Cons.prems(4) by (cases t) auto
    then show ?thesis using wf1 by (intro exI[of _ st1]) simp
  qed
  then obtain st' where st': "transfers E (map (\<lambda>dv. (\<lparr>key = k, version = vd_version dv, f_type = t, is_deleted = False\<rparr>, vd_data dv)) dvs) st1 st'"
    "main_keeps E {} st1 st'" "\<forall>dv\<in>set dvs. covers (stored E st' k) (vd_version dv)"
    "\<forall>k'. k' \<noteq> k \<longrightarrow> main_value E st' k' = main_value E st1 k'" "db_deleted st' = db_deleted st1" by blast
  have "covers (stored E st' k) (vd_version dv)" using st'(2) cov unfolding main_keeps_def by blast
  then show ?case
    using transfers_append[OF tr st'(1)] keeps_trans(1)[OF keep st'(2)] st'(3-5) other del by (intro exI[of _ st']) simp
qed

lemma transfer_main:
  assumes "accepts_writes E" "env_ok E" "store_wf E st" "scan_wf E xs" "distinct (map fst xs)"
    and "\<forall>k\<in>fst ` set xs. main_value E st k = None \<and> get_slice_for_key E st k = Ret (slice st)"
  shows "\<exists>st'. transfers E (fst (send_loop E False xs)) st st' \<and> main_keeps E {} st st' \<and>
    (\<forall>kb\<in>set (fst (send_loop E False xs)). covers (stored E st' (key (fst kb))) (version (fst kb))) \<and>
    db_deleted st' = db_deleted st"
  using assms(3-6)
proof (induction xs arbitrary: st)
  case Nil
  then show ?case by (intro exI[of _ st]) simp
next
  case (Cons p xs)
  obtain k b where p: "p = (k, b)" by (cases p)
  with Cons.prems(2) obtain v where v: "dec_value E b = Some v" "vdata v \<noteq> []" by auto
  let ?dvs = "entries_of (Some v)"
  let ?kbs = "map (\<lambda>dv. (\<lparr>key = k, version = vd_version dv, f_type = v_type v, is_deleted = False\<rparr>, vd_data dv)) ?dvs"
  have h: "rbind (deserialize_value E b) (\<lambda>value. rbind (versions_to_send value) (\<lambda>dvs. Ret (value, dvs))) = Ret (v, ?dvs)"
    using v by (cases "vdata v") (simp_all add: deserialize_value_def versions_to_send_def entries_of_def)
  have sl: "fst (send_loop E False (p # xs)) = ?kbs @ fst (send_loop E False xs)"
    unfolding p send_loop.simps h by (cases "send_loop E False xs") simp
  have "get_slice_for_key E st k = Ret (slice st)" "main_value E st k = None" using Cons.prems(4) p by auto
  then obtain st1 where st1: "transfers E ?kbs st st1" "main_keeps E {} st st1"
    "\<forall>dv\<in>set ?dvs. covers (stored E st1 k) (vd_version dv)"
    "\<forall>k'. k' \<noteq> k \<longrightarrow> main_value E st1 k' = main_value E st k'" "db_deleted st1 = db_deleted st"
    using transfer_versions[OF assms(1,2) Cons.prems(1), of k "v_type v" ?dvs] by (auto simp: entries_of_def)
  have wf1: "store_wf E st1" and pl: "same_place st st1" using st1(1) by (simp_all add: transfers_def)
  have "\<forall>k'\<in>fst ` set xs. main_value E st1 k' = None \<and> get_slice_for_key E st1 k' = Ret (slice st1)"
  proof
    fix k' assume k': "k' \<in> fst ` set xs"
    then have "k' \<noteq> k" using Cons.prems(3) p by auto
    then show "main_value E st1 k' = None \<and> get_slice_for_key E st1 k' = Ret (slice st1)"
      using st1(4) Cons.prems(4) k' pl same_place_slice[OF pl, of E k'] unfolding same_place_def by fastforce
  qed
  with Cons.IH[OF wf1] Cons.prems(2,3) p obtain st' where st': "transfers E (fst (send_loop E False xs)) st1 st'"
    "main_keeps E {} st1 st'"
    "\<forall>kb\<in>set (fst (send_loop E False xs)). covers (stored E st' (key (fst kb))) (version (fst kb))"
    "db_deleted st' = db_deleted st1" by auto
  have "\<forall>dv\<in>set ?dvs. covers (stored E st' k) (vd_version dv)"
    using st'(2) st1(3) unfolding main_keeps_def by blast
  then have "\<forall>kb\<in>set ?kbs. covers (stored E st' (key (fst kb))) (version (fst kb))" by simp
  with st'(3) have "\<forall>kb\<in>set (?kbs @ fst (send_loop E False xs)). covers (stored E st' (key (fst kb))) (version (fst kb))"
    unfolding set_append by blast
  then show ?case
    unfolding sl using transfers_append[OF st1(1) st'(1)] keeps_trans(1)[OF st1(2) st'(2)] st'(4) st1(5) by auto
qed

lemma transfer_deleted:
  assumes "accepts_writes E" "env_ok E" "store_wf E st" "\<forall>kb\<in>set kbs. is_deleted (fst kb)"
    and "\<forall>kb\<in>set kbs. get_slice_for_key E st (key (fst kb)) = Ret (slice st) \<and> key (fst kb) \<in> K"
  shows "\<exists>st'. transfers E kbs st st' \<and> main_keeps E K st st' \<and> deleted_keeps E st st' \<and>
    (\<forall>kb\<in>set kbs. covers (deleted_entries E st' (key (fst kb))) (version (fst kb)))"
  using assms(3-5)
proof (induction kbs arbitrary: st)
  case Nil
  then show ?case by (intro exI[of _ st]) simp
next
  case (Cons kb kbs)
  obtain k b where kb: "kb = (k, b)" by (cases kb)
  have d: "is_deleted k" and sl: "get_slice_for_key E st (key k) = Ret (slice st)" and K: "key k \<in> K"
    using Cons.prems(2,3) kb by auto
  obtain st1 where st1: "kv_remove E k st = (Ret True, st1)"
    using kv_remove_accepted[OF assms(1,2) Cons.prems(1) sl] by (metis prod.collapse)
  note tr = transfers_remove[OF assms(2) Cons.prems(1) d st1, of b]
  have wf1: "store_wf E st1" and pl: "same_place st st1" using tr by (simp_all add: transfers_def)
  obtain v where v: "deleted_after E k (get_db E (key k) (db_deleted st)) = Ret v"
    "deleted_value E st1 = (deleted_value E st)(key k \<mapsto> v)"
    using kv_remove_True[OF assms(2) st1] by blast
  have cov: "covers (deleted_entries E st1 (key k)) (version k)" using v(2) deleted_after_covers(1)[OF v(1)] by simp
  have keep: "main_keeps E K st st1" "deleted_keeps E st st1"
    using kv_remove_keeps[OF assms(2) K, of st] kv_remove_deleted_keeps[OF assms(2), of st k] st1 by simp_all
  have "\<forall>kb\<in>set kbs. get_slice_for_key E st1 (key (fst kb)) = Ret (slice st1) \<and> key (fst kb) \<in> K"
    using Cons.prems(3) pl by (simp add: same_place_slice) (simp add: same_place_def)
  with Cons.IH[OF wf1] Cons.prems(2) obtain st' where st': "transfers E kbs st1 st'" "main_keeps E K st1 st'"
    "deleted_keeps E st1 st'" "\<forall>kb\<in>set kbs. covers (deleted_entries E st' (key (fst kb))) (version (fst kb))" by auto
  have "covers (deleted_entries E st' (key k)) (version k)" using st'(3) cov unfolding deleted_keeps_def by blast
  then show ?case
    using transfers_append[OF tr st'(1)] keeps_trans(1)[OF keep(1) st'(2)] keeps_trans(2)[OF keep(2) st'(3)] st'(4) kb
    by (intro exI[of _ st']) simp
qed

section \<open>The whole transfer\<close>

text \<open>What the sender writes for one of its databases: one pair for each version that is stored in it.\<close>

definition sent_pairs :: "bool \<Rightarrow> (string \<Rightarrow> kv_store_value option) \<Rightarrow> (kv_store_key \<times> string) set" where
  "sent_pairs del V = {(\<lparr>key = k, version = vd_version vd, f_type = v_type v, is_deleted = del\<rparr>, vd_data vd) | k v vd.
     V k = Some v \<and> vd \<in> set (entries_of (Some v))}"

lemma sent_pairs_scan:
  assumes "env_ok E" "ldb_scan E d = (zs, True)" "scan_wf E zs"
  shows "set (fst (send_loop E del zs)) = sent_pairs del (value_in E d)"
  using conjunct2[OF send_loop_result[OF assms(3), of del]] unfolding scan_values[OF assms(1,2)] sent_pairs_def .

lemma sent_pairs_cover:
  assumes "\<forall>kb\<in>sent_pairs del V. covers (F (key (fst kb))) (version (fst kb))" "covers (entries_of (V k)) w"
  shows "covers (F k) w"
proof -
  obtain vd where vd: "vd \<in> set (entries_of (V k))" "ver_le w (vd_version vd)" using assms(2) by blast
  then obtain v where "V k = Some v" by (cases "V k") auto
  then have "covers (F k) (vd_version vd)" using assms(1) vd(1) unfolding sent_pairs_def by fastforce
  then show ?thesis using vd(2) vv_le_trans by blast
qed

lemma recover_request_sends:
  assumes "ldb_scan E (db (store src)) = (xs, True)" "ldb_scan E (db_deleted (store src)) = (ys, True)" "scan_wf E xs" "scan_wf E ys"
    and "rr_slice m = my_group" "rr_nr_slices m = nr_groups"
  shows "process_recover_request_msg E my_group nr_groups True ub m src =
      map recover_data_message (fst (send_loop E False xs) @ fst (send_loop E True ys)) @
      (if ub = Ret () then [\<lparr>forwarded_within_group = False, body = Recover_termination_msg\<rparr>] else [])"
  using assms send_loop_result[OF assms(3), of False] send_loop_result[OF assms(4), of True]
  by (cases ub) (auto simp: process_recover_request_msg_def send_keys_gt_def split: prod.splits res.splits)

text \<open>
  C7. A peer that recovers ends up with everything. Let the peer that is asked work with the same group and number of groups, have recovered, and
  scan its two databases without an error; let the recovering peer have an empty main database that accepts all writes, and place in its slice every key
  that the other one holds or has deleted. When all messages arrive in order, the recovering peer then covers every version
  that the other one stores, of every key without a recorded deletion, and every deletion that the other one has recorded. This holds whatever
  the undefined behaviour at the end of \<^verbatim>\<open>send_keys_gt\<close> does (\<open>ub\<close>), because it comes after the last of them; but only when that call
  returns is the termination message sent and the transfer counted as complete, otherwise the connection closes without it.
\<close>

theorem recovered_peer_has_everything:
  assumes "accepts_writes E" "env_ok E" "store_wf E (store src)" "store_wf E dst"
    and "ldb_scan E (db (store src)) = (xs, True)" "ldb_scan E (db_deleted (store src)) = (ys, True)"
    and "\<forall>k. main_value E dst k = None"
    and "\<forall>k. main_value E (store src) k \<noteq> None \<or> deleted_value E (store src) k \<noteq> None \<longrightarrow>
           get_slice_for_key E dst k = Ret (slice dst)"
    and "rr_slice m = my_group" "rr_nr_slices m = nr_groups"
  shows "\<exists>dst'. recover_state E (map Received (process_recover_request_msg E my_group nr_groups True ub m src) @ [Disconnected]) dst =
      (Some (ub = Ret ()), dst') \<and> store_wf E dst' \<and>
    (\<forall>k w. deleted_value E (store src) k = None \<longrightarrow> covers (stored E (store src) k) w \<longrightarrow> covers (stored E dst' k) w) \<and>
    (\<forall>k w. covers (stored_deleted E (store src) k) w \<longrightarrow> covers (deleted_entries E dst' k) w)"
proof -
  let ?src = "store src" and ?K = "{k. deleted_value E (store src) k \<noteq> None}"
  let ?ms = "fst (send_loop E False xs)" and ?ds = "fst (send_loop E True ys)"
  have scans: "scan_wf E xs" "scan_wf E ys" using assms(2,3,5,6) db_wf_scan[of E] by (auto simp: store_wf_def)
  have ms: "set ?ms = sent_pairs False (main_value E ?src)" by (rule sent_pairs_scan[OF assms(2,5) scans(1)])
  have ds: "set ?ds = sent_pairs True (deleted_value E ?src)" by (rule sent_pairs_scan[OF assms(2,6) scans(2)])
  have "\<forall>k\<in>fst ` set xs. main_value E dst k = None \<and> get_slice_for_key E dst k = Ret (slice dst)"
  proof
    fix k assume "k \<in> fst ` set xs"
    then obtain b where "(k, b) \<in> set xs" by auto
    then have "main_value E ?src k \<noteq> None"
      using scans(1) env_ok_scan(2)[OF assms(2,5), of k b] by (auto simp: scan_wf_def value_in_def)
    then show "main_value E dst k = None \<and> get_slice_for_key E dst k = Ret (slice dst)" using assms(7,8) by simp
  qed
  then obtain st1 where st1: "transfers E ?ms dst st1"
    "\<forall>kb\<in>set ?ms. covers (stored E st1 (key (fst kb))) (version (fst kb))"
    using transfer_main[OF assms(1,2,4) scans(1) env_ok_scan(3)[OF assms(2,5)]] by blast
  then have wf1: "store_wf E st1" and pl: "same_place dst st1" by (simp_all add: transfers_def)
  have "\<forall>kb\<in>set ?ds. get_slice_for_key E st1 (key (fst kb)) = Ret (slice st1) \<and> key (fst kb) \<in> ?K"
    unfolding ds sent_pairs_def using assms(8) pl by (auto simp: same_place_slice) (auto simp: same_place_def)
  moreover have "\<forall>kb\<in>set ?ds. is_deleted (fst kb)" unfolding ds sent_pairs_def by auto
  ultimately obtain st2 where st2: "transfers E ?ds st1 st2" "main_keeps E ?K st1 st2"
    "\<forall>kb\<in>set ?ds. covers (deleted_entries E st2 (key (fst kb))) (version (fst kb))"
    using transfer_deleted[OF assms(1,2) wf1, of ?ds ?K] by blast
  have "recover_state E (map Received (process_recover_request_msg E my_group nr_groups True ub m src) @ [Disconnected]) dst = (Some (ub = Ret ()), st2)"
    using transfers_append[OF st1(1) st2(1)] recover_request_sends[OF assms(5,6) scans assms(9,10), of ub] unfolding transfers_def
    by (simp add: comp_def)
  moreover have "store_wf E st2" using st2(1) by (simp add: transfers_def)
  moreover have "covers (stored E st2 k) w" if d: "deleted_value E ?src k = None" and c: "covers (stored E ?src k) w" for k w
    using sent_pairs_cover[OF st1(2)[unfolded ms] c] st2(2) d unfolding main_keeps_def by blast
  moreover have "covers (deleted_entries E st2 k) w" if c: "covers (stored_deleted E ?src k) w" for k w
    by (rule sent_pairs_cover[OF st2(3)[unfolded ds] c])
  ultimately show ?thesis by blast
qed

end
