(* ===== verification/Group_Construction.thy ===== *)
theory Group_Construction
  imports Peer_View Kv_Store
begin

text \<open>
  How a peer finds its group: \<^verbatim>\<open>df_core/group_construction.cpp\<close>. Peers have a position in the unit interval, which is
  cut into a number of groups; a peer keeps a view of its own group and doubles or halves the number of groups when the view is
  too large or too small for the configured replication factor. The partition of the store follows.

  Datagrams are values of \<open>pss_send\<close>. Integers are unbounded: ages and the number of groups stay far below
  \<^verbatim>\<open>INT_MAX\<close>.
\<close>

section \<open>State\<close>

datatype pss_type = GETVIEW | NORMAL | RESPONSE | LOCAL | REQUEST_LOCAL | LOADBALANCE | LOADBALANCE_LOCAL | ANNOUNCE | TERMINATION

record pss_message =
  ps_sender_ip :: string
  ps_sender_port :: int
  ps_sender_pos :: rat
  ps_type :: pss_type
  ps_view :: "peer_data list"

type_synonym pss_send = "string \<times> int \<times> pss_message"

record group_state =
  gc_id :: long
  gc_ip :: string
  gc_kv_port :: int
  gc_pss_port :: int
  gc_recover_port :: int
  gc_position :: rat
  gc_nr_groups :: int
  gc_my_group :: int
  replication_factor_min :: int
  replication_factor_max :: int
  max_age :: int
  gc_local :: bool
  local_interval :: int
  gc_cycle :: int
  recovering_local_view :: bool
  local_view :: pview

definition group :: "int \<Rightarrow> rat \<Rightarrow> int" where
  "group nr_groups peer_pos =
     (let temp = \<lceil>of_int nr_groups * peer_pos\<rceil> in if temp = 0 then 1 else temp)"

definition init_group_state :: "string \<Rightarrow> int \<Rightarrow> int \<Rightarrow> int \<Rightarrow> long \<Rightarrow> rat \<Rightarrow> int \<Rightarrow> int \<Rightarrow> int \<Rightarrow> bool \<Rightarrow> int \<Rightarrow> group_state" where
  "init_group_state ip kv_port pss_port recover_port pid position rep_min rep_max maxage loc interval =
     \<lparr>gc_id = pid, gc_ip = ip, gc_kv_port = kv_port, gc_pss_port = pss_port, gc_recover_port = recover_port,
      gc_position = position, gc_nr_groups = 1, gc_my_group = 1, replication_factor_min = rep_min,
      replication_factor_max = rep_max, max_age = maxage, gc_local = loc, local_interval = interval, gc_cycle = 1,
      recovering_local_view = True, local_view = []\<rparr>"

definition gc_has_recovered :: "group_state \<Rightarrow> bool" where
  "gc_has_recovered g \<longleftrightarrow> \<not> recovering_local_view g"

definition get_local_view :: "group_state \<Rightarrow> peer_data list" where
  "get_local_view g = map snd (local_view g)"

text \<open>\<open>set_nr_groups\<close>, \<open>set_my_group (group position)\<close> and \<open>update_partition\<close>, always called in this order.\<close>

definition regroup :: "int \<Rightarrow> group_state \<Rightarrow> 'd kv_store \<Rightarrow> group_state \<times> 'd kv_store" where
  "regroup n g st =
     (let g' = g\<lparr>gc_nr_groups := n, gc_my_group := group n (gc_position g)\<rparr>
      in (g', update_partition (gc_my_group g') (gc_nr_groups g') st))"

section \<open>Taking peers into the view\<close>

definition is_mine :: "group_state \<Rightarrow> peer_data \<Rightarrow> bool" where
  "is_mine g p \<longleftrightarrow> group (gc_nr_groups g) (pd_pos p) = gc_my_group g \<and> pd_id p \<noteq> gc_id g"

definition incorporate_local_peer :: "group_state \<Rightarrow> peer_data \<Rightarrow> pview \<Rightarrow> pview" where
  "incorporate_local_peer g p v =
     (if is_mine g p then
        (case map_of v (pd_id p) of
           Some cur \<Rightarrow> if pd_age cur > pd_age p then view_update (pd_id p) (\<lambda>q. q\<lparr>pd_age := pd_age p\<rparr>) v else v
         | None \<Rightarrow> view_insert p v)
      else v)"

definition incorporate_local_peers :: "peer_data list \<Rightarrow> group_state \<Rightarrow> group_state" where
  "incorporate_local_peers received g = g\<lparr>local_view := fold (incorporate_local_peer g) received (local_view g)\<rparr>"

definition clean_local_view :: "group_state \<Rightarrow> group_state" where
  "clean_local_view g =
     g\<lparr>local_view := filter (\<lambda>(i, p). group (gc_nr_groups g) (pd_pos p) = gc_my_group g \<and> \<not> pd_age p > max_age g) (local_view g)\<rparr>"

text \<open>A division by zero when the view is empty (\<open>None\<close>).\<close>

definition get_random_peer_from_local_view :: "nat \<Rightarrow> group_state \<Rightarrow> peer_data option" where
  "get_random_peer_from_local_view r g =
     (if local_view g = [] then None else Some (snd (local_view g ! (r mod length (local_view g)))))"

section \<open>Recovery of the local view\<close>

definition request_local_message :: "peer_data list \<Rightarrow> group_state \<Rightarrow> pss_send list" where
  "request_local_message received g =
     map (\<lambda>p. (pd_ip p, pd_pss_port p, \<lparr>ps_sender_ip = gc_ip g, ps_sender_port = gc_pss_port g, ps_sender_pos = gc_position g,
                ps_type = REQUEST_LOCAL, ps_view = []\<rparr>))
       (filter (\<lambda>p. pd_id p \<noteq> gc_id g) received)"

definition groups_from_peers :: "peer_data list \<Rightarrow> int" where
  "groups_from_peers received = fold (\<lambda>p n. if pd_nr_slices p > n then pd_nr_slices p else n) received 1"

definition recover_local_view ::
  "peer_data list \<Rightarrow> group_state \<Rightarrow> 'd kv_store \<Rightarrow> pss_send list \<times> group_state \<times> 'd kv_store" where
  "recover_local_view received g0 st0 =
     (let nr_groups_from_peers = groups_from_peers received;
          g = incorporate_local_peers received g0;
          first_estimation = int (length (local_view g))
      in if gc_nr_groups g > nr_groups_from_peers \<and> first_estimation + 1 \<ge> replication_factor_min g then
           (let (g1, st1) = (if first_estimation + 1 > replication_factor_max g then
                               (let (g', st') = regroup (gc_nr_groups g * 2) g st0 in (clean_local_view g', st'))
                             else (g, st0))
            in ([], g1\<lparr>recovering_local_view := False\<rparr>, st1))
         else
           (let (g', st1) = regroup nr_groups_from_peers g st0;
                g1 = clean_local_view g'
            in if nr_groups_from_peers = 1 then ([], g1\<lparr>recovering_local_view := False\<rparr>, st1)
               else (let estimation = int (length (local_view g1)) in
                     if estimation + 1 \<ge> replication_factor_min g1 \<and> estimation + 1 \<le> replication_factor_max g1
                     then ([], g1\<lparr>recovering_local_view := False\<rparr>, st1)
                     else (request_local_message received g1, g1, st1))))"

definition receive_local_message ::
  "peer_data list \<Rightarrow> group_state \<Rightarrow> 'd kv_store \<Rightarrow> pss_send list \<times> group_state \<times> 'd kv_store" where
  "receive_local_message received g st =
     (if recovering_local_view g then recover_local_view received g st
      else ([], incorporate_local_peers received g, st))"

section \<open>A round of group construction\<close>

text \<open>One received peer: the view and the peers not added.\<close>

definition receive_peer :: "group_state \<Rightarrow> peer_data \<Rightarrow> pview \<Rightarrow> pview" where
  "receive_peer g p v =
     (if is_mine g p then
        (case map_of v (pd_id p) of
           Some cur \<Rightarrow> if pd_age cur > pd_age p then view_update (pd_id p) (\<lambda>_. p) v else v
         | None \<Rightarrow> view_insert p v)
      else v)"

definition myself :: "group_state \<Rightarrow> peer_data" where
  "myself g = \<lparr>pd_ip = gc_ip g, pd_kv_port = gc_kv_port g, pd_pss_port = gc_pss_port g, pd_recover_port = gc_recover_port g,
     pd_age = 0, pd_id = gc_id g, pd_nr_slices = gc_nr_groups g, pd_pos = gc_position g, pd_slice = gc_my_group g\<rparr>"

definition local_message :: "group_state \<Rightarrow> pss_message" where
  "local_message g = \<lparr>ps_sender_ip = gc_ip g, ps_sender_port = gc_pss_port g, ps_sender_pos = gc_position g, ps_type = LOCAL,
     ps_view = myself g # get_local_view g\<rparr>"

definition send_local_message :: "string \<Rightarrow> int \<Rightarrow> group_state \<Rightarrow> pss_send" where
  "send_local_message target_ip target_pss_port g = (target_ip, target_pss_port, local_message g)"

text \<open>The number of groups after the search for violations.\<close>

definition adjusted_groups :: "group_state \<Rightarrow> int \<Rightarrow> int" where
  "adjusted_groups g estimation =
     (let n = (if estimation + 1 < replication_factor_min g \<and> gc_nr_groups g > 1 then gc_nr_groups g div 2 else gc_nr_groups g)
      in if estimation + 1 > replication_factor_max g then n * 2 else n)"

definition gc_receive_message ::
  "peer_data list \<Rightarrow> group_state \<Rightarrow> 'd kv_store \<Rightarrow> pss_send list \<times> group_state \<times> 'd kv_store" where
  "gc_receive_message received g st =
     (if recovering_local_view g then recover_local_view received g st
      else
        (let v1 = fold (receive_peer g) received (view_age (local_view g));
             not_added = filter (\<lambda>p. \<not> is_mine g p) received
               @ map snd (filter (\<lambda>(i, p). group (gc_nr_groups g) (pd_pos p) \<noteq> gc_my_group g) v1);
             v2 = filter (\<lambda>(i, p). group (gc_nr_groups g) (pd_pos p) = gc_my_group g \<and> \<not> pd_age p > max_age g) v1;
             (g1, st1) = regroup (adjusted_groups g (int (length v2))) g st;
             g2 = g1\<lparr>local_view := fold (\<lambda>p v. if is_mine g1 p then view_insert p v else v) not_added v2\<rparr>
         in (if gc_local g2 \<and> gc_cycle g2 mod local_interval g2 = 0
             then map (\<lambda>p. (pd_ip p, pd_pss_port p, local_message g2))
                    (filter (\<lambda>p. pd_id p \<noteq> gc_id g2) (myself g2 # get_local_view g2))
             else [], g2, st1)))"

section \<open>Groups\<close>

lemma group_pos: "1 \<le> n \<Longrightarrow> 0 \<le> p \<Longrightarrow> 1 \<le> group n p"
proof -
  assume "1 \<le> n" "0 \<le> p"
  then have "0 \<le> of_int n * p" by simp
  then have "0 \<le> \<lceil>of_int n * p\<rceil>" by linarith
  then show ?thesis unfolding group_def Let_def by (simp only: split: if_split) linarith
qed

lemma group_le: "1 \<le> n \<Longrightarrow> p \<le> 1 \<Longrightarrow> group n p \<le> n"
proof -
  assume n: "1 \<le> n" "p \<le> 1"
  then have "of_int n * p \<le> of_int n" using mult_left_le[of p "of_int n :: rat"] by simp
  then have "\<lceil>of_int n * p\<rceil> \<le> n" by (simp add: ceiling_le_iff)
  then show ?thesis using n(1) by (auto simp: group_def Let_def)
qed

lemma ceiling_double: "(\<lceil>2 * x\<rceil> + 1) div 2 = \<lceil>x\<rceil>" for x :: rat
proof -
  let ?c = "\<lceil>x\<rceil>"
  have "of_int ?c - 1 < x" "x \<le> of_int ?c" by linarith+
  then have "of_int (2 * ?c - 2) < 2 * x" "2 * x \<le> of_int (2 * ?c)" by simp_all
  then have "2 * ?c - 2 < \<lceil>2 * x\<rceil>" "\<lceil>2 * x\<rceil> \<le> 2 * ?c" by (simp_all only: less_ceiling_iff ceiling_le_iff)
  then show ?thesis by linarith
qed

lemma group_double: "(group (2 * n) p + 1) div 2 = group n p" if "0 \<le> n" "0 \<le> p"
proof -
  have e: "of_int (2 * n) * p = 2 * (of_int n * p)" by simp
  have "0 \<le> of_int n * p" using that by simp
  then have z: "\<lceil>2 * (of_int n * p)\<rceil> = 0 \<longleftrightarrow> \<lceil>of_int n * p\<rceil> = 0"
    using ceiling_double[of "of_int n * p"] by (auto simp: ceiling_eq_iff)
  show ?thesis
    using ceiling_double[of "of_int n * p"] z unfolding group_def Let_def e by (auto simp del: of_int_mult)
qed

section \<open>Interfaces: the two ways peers enter the view\<close>

lemma incorporate_local_peer_interface:
  "incorporate (gc_id g) (\<lambda>q. group (gc_nr_groups g) (pd_pos q) = gc_my_group g) (incorporate_local_peer g)"
  by unfold_locales (auto simp: incorporate_local_peer_def is_mine_def split: option.splits intro!: view_all_update)

interpretation lv: incorporate "gc_id g" "\<lambda>q. group (gc_nr_groups g) (pd_pos q) = gc_my_group g" "incorporate_local_peer g" for g
  by (rule incorporate_local_peer_interface)

lemma receive_peer_update_all:
  "view_all ok v \<Longrightarrow> ok p \<Longrightarrow> view_all ok (view_update i (\<lambda>_. p) v)"
  by (rule view_all_update)

interpretation rp: incorporate "gc_id g" "\<lambda>q. group (gc_nr_groups g) (pd_pos q) = gc_my_group g" "receive_peer g" for g
  by unfold_locales (auto simp: receive_peer_def is_mine_def split: option.splits intro!: receive_peer_update_all)

interpretation na: incorporate "gc_id g" "\<lambda>q. group (gc_nr_groups g) (pd_pos q) = gc_my_group g"
    "\<lambda>p v. if is_mine g p then view_insert p v else v" for g
  by unfold_locales (auto simp: is_mine_def)

section \<open>Invariant\<close>

text \<open>There is at least one group, the group of the peer is that of its position, the store has the same
  partition, and the view is well formed.\<close>

definition gc_wf :: "group_state \<Rightarrow> 'd kv_store \<Rightarrow> bool" where
  "gc_wf g st \<longleftrightarrow> 1 \<le> gc_nr_groups g \<and> 0 \<le> gc_position g \<and> gc_position g \<le> 1 \<and>
     gc_my_group g = group (gc_nr_groups g) (gc_position g) \<and>
     slice st = gc_my_group g \<and> nr_slices st = gc_nr_groups g \<and> view_wf (gc_id g) (local_view g)"

definition pow2 :: "int \<Rightarrow> bool" where
  "pow2 n \<longleftrightarrow> (\<exists>e. n = 2 ^ e)"

text \<open>Peers that know the bootstrapper only report no groups; the others report a power of two, as long as all of them do.\<close>

definition peers_ok :: "peer_data list \<Rightarrow> bool" where
  "peers_ok ps \<longleftrightarrow> (\<forall>p\<in>set ps. pd_nr_slices p \<le> 1 \<or> pow2 (pd_nr_slices p))"

lemma pow2_double: "pow2 n \<Longrightarrow> pow2 (n * 2)"
  unfolding pow2_def by (metis mult.commute power_Suc)

lemma pow2_half: "pow2 n \<Longrightarrow> 1 < n \<Longrightarrow> pow2 (n div 2)"
proof -
  assume "pow2 n" "1 < n"
  then obtain e where "n = 2 ^ Suc e" unfolding pow2_def by (metis less_irrefl not0_implies_Suc power_0)
  then show ?thesis by (auto simp: pow2_def)
qed

lemma pow2_one [simp]: "pow2 1"
  unfolding pow2_def by (metis power_0)

lemma incorporate_local_peers_wf: "gc_wf g st \<Longrightarrow> gc_wf (incorporate_local_peers ps g) st"
  by (auto simp: gc_wf_def incorporate_local_peers_def intro: lv.fold_wf)

lemma clean_local_view_wf: "gc_wf g st \<Longrightarrow> gc_wf (clean_local_view g) st"
  by (auto simp: gc_wf_def clean_local_view_def)

lemma regroup_wf: "gc_wf g st \<Longrightarrow> 1 \<le> n \<Longrightarrow> regroup n g st = (g', st') \<Longrightarrow> gc_wf g' st'"
  by (auto simp: gc_wf_def regroup_def Let_def update_partition_def clear_seen_log_def clear_seen_deleted_log_def split: if_splits)

lemma groups_from_peers_ge: "1 \<le> groups_from_peers ps"
proof -
  have "n \<le> fold (\<lambda>p n. if pd_nr_slices p > n then pd_nr_slices p else n) ps n" for n
    by (induction ps arbitrary: n) (auto intro: order_trans less_imp_le)
  from this[of 1] show ?thesis by (simp add: groups_from_peers_def)
qed

lemma groups_from_peers_pow: "peers_ok ps \<Longrightarrow> pow2 (groups_from_peers ps)"
proof -
  have "peers_ok ps \<Longrightarrow> 1 \<le> n \<Longrightarrow> pow2 n \<Longrightarrow> pow2 (fold (\<lambda>p n. if pd_nr_slices p > n then pd_nr_slices p else n) ps n)" for n
    by (induction ps arbitrary: n) (auto simp: peers_ok_def)
  from this[of 1] show "peers_ok ps \<Longrightarrow> ?thesis" by (simp add: groups_from_peers_def)
qed

lemma recovered_wf [simp]: "gc_wf (g\<lparr>recovering_local_view := b\<rparr>) st = gc_wf g st"
  by (simp add: gc_wf_def)

lemma regroup_groups: "regroup n g st = (g', st') \<Longrightarrow> gc_nr_groups g' = n"
  by (auto simp: regroup_def Let_def)

lemma clean_groups [simp]:
  "gc_nr_groups (clean_local_view g) = gc_nr_groups g" "gc_nr_groups (incorporate_local_peers ps g) = gc_nr_groups g"
  by (simp_all add: clean_local_view_def incorporate_local_peers_def)

lemma recover_local_view_wf:
  assumes "gc_wf g st" "recover_local_view ps g st = (acts, g', st')"
  shows "gc_wf g' st' \<and> gc_nr_groups g' \<in> {gc_nr_groups g, gc_nr_groups g * 2, groups_from_peers ps}"
proof -
  let ?g = "incorporate_local_peers ps g"
  have wf: "gc_wf ?g st" using incorporate_local_peers_wf[OF assms(1)] .
  obtain g1 st1 where r1: "regroup (gc_nr_groups ?g * 2) ?g st = (g1, st1)" by fastforce
  obtain g2 st2 where r2: "regroup (groups_from_peers ps) ?g st = (g2, st2)" by fastforce
  have "1 \<le> gc_nr_groups ?g * 2" using wf by (simp add: gc_wf_def)
  from clean_local_view_wf[OF regroup_wf[OF wf this r1]] have "gc_wf (clean_local_view g1) st1" .
  moreover have "gc_wf (clean_local_view g2) st2" using clean_local_view_wf[OF regroup_wf[OF wf groups_from_peers_ge r2]] .
  ultimately show ?thesis
    using assms(2) wf regroup_groups[OF r1] regroup_groups[OF r2] unfolding recover_local_view_def Let_def r1 r2 by (auto split: if_splits)
qed

lemma adjusted_groups_ge: "1 \<le> gc_nr_groups g \<Longrightarrow> 1 \<le> adjusted_groups g n"
  by (auto simp: adjusted_groups_def Let_def)

lemma adjusted_groups_pow: "pow2 (gc_nr_groups g) \<Longrightarrow> pow2 (adjusted_groups g n)"
  by (auto simp: adjusted_groups_def Let_def intro: pow2_double pow2_half)

text \<open>The shape of a round: aging and incorporating, cleaning, adjusting the number of groups, adding what fits now.\<close>

lemma gc_receive_message_shape:
  assumes "\<not> recovering_local_view g" "gc_receive_message ps g st = (acts, g', st')"
  obtains v1 v2 not_added g1 where "v1 = fold (receive_peer g) ps (view_age (local_view g))"
    "v2 = filter (\<lambda>(i, p). group (gc_nr_groups g) (pd_pos p) = gc_my_group g \<and> \<not> pd_age p > max_age g) v1"
    "regroup (adjusted_groups g (int (length v2))) g st = (g1, st')"
    "g' = g1\<lparr>local_view := fold (\<lambda>p v. if is_mine g1 p then view_insert p v else v) not_added v2\<rparr>"
proof -
  define v1 where "v1 = fold (receive_peer g) ps (view_age (local_view g))"
  define v2 where "v2 = filter (\<lambda>(i, p). group (gc_nr_groups g) (pd_pos p) = gc_my_group g \<and> \<not> pd_age p > max_age g) v1"
  obtain g1 st1 where r: "regroup (adjusted_groups g (int (length v2))) g st = (g1, st1)" by fastforce
  from assms show thesis
    unfolding gc_receive_message_def Let_def v1_def[symmetric] v2_def[symmetric] r
    using that[OF v1_def v2_def] r by (auto simp del: fold_append)
qed

lemma receive_all: "view_all ok v \<Longrightarrow> \<forall>p\<in>set ps. ok p \<Longrightarrow> view_all ok (fold (receive_peer g) ps v)"
  by (induction ps arbitrary: v)
    (auto simp: receive_peer_def split: option.splits intro!: receive_peer_update_all)

lemma add_all: "view_all ok v \<Longrightarrow> (\<And>p. is_mine g p \<Longrightarrow> ok p) \<Longrightarrow>
    view_all ok (fold (\<lambda>p v. if is_mine g p then view_insert p v else v) ps v)"
  by (induction ps arbitrary: v) auto

lemma adjusted_groups_cases:
  assumes "gc_nr_groups g = 2 ^ e" "replication_factor_min g \<le> replication_factor_max g" "n = adjusted_groups g k"
  obtains "n = gc_nr_groups g" | "n = 2 * gc_nr_groups g" | "n = gc_nr_groups g div 2" "gc_nr_groups g = 2 * n" "0 \<le> n"
proof -
  have "gc_nr_groups g = 2 * (gc_nr_groups g div 2)" if "gc_nr_groups g > 1" using assms(1) that by (cases e) auto
  note half = this
  consider "k + 1 > replication_factor_max g" | "k + 1 < replication_factor_min g" "gc_nr_groups g > 1" "\<not> k + 1 > replication_factor_max g"
    | "\<not> k + 1 > replication_factor_max g" "\<not> (k + 1 < replication_factor_min g \<and> gc_nr_groups g > 1)" by blast
  then show thesis
  proof cases
    case 2
    then have "n = gc_nr_groups g div 2" by (simp add: assms(3) adjusted_groups_def Let_def)
    then show thesis using half[OF 2(2)] 2(2) by (intro that(3)) auto
  qed (use assms(2) that(1,2) in \<open>auto simp: assms(3) adjusted_groups_def Let_def\<close>)
qed

lemma gc_receive_message_wf:
  assumes "gc_wf g st" "gc_receive_message ps g st = (acts, g', st')"
  shows "gc_wf g' st' \<and> (pow2 (gc_nr_groups g) \<and> peers_ok ps \<longrightarrow> pow2 (gc_nr_groups g'))"
proof (cases "recovering_local_view g")
  case True
  then show ?thesis using recover_local_view_wf[OF assms(1), of ps acts g' st'] assms(2) pow2_double groups_from_peers_pow
    by (auto simp: gc_receive_message_def)
next
  case False
  from False assms(2) obtain v1 v2 not_added g1 where sh: "v1 = fold (receive_peer g) ps (view_age (local_view g))"
    "v2 = filter (\<lambda>(i, p). group (gc_nr_groups g) (pd_pos p) = gc_my_group g \<and> \<not> pd_age p > max_age g) v1"
    "regroup (adjusted_groups g (int (length v2))) g st = (g1, st')"
    "g' = g1\<lparr>local_view := fold (\<lambda>p v. if is_mine g1 p then view_insert p v else v) not_added v2\<rparr>"
    by (rule gc_receive_message_shape)
  have "1 \<le> gc_nr_groups g" using assms(1) by (simp add: gc_wf_def)
  then have wf1: "gc_wf g1 st'" using regroup_wf[OF assms(1) _ sh(3)] adjusted_groups_ge by blast
  have i: "gc_id g1 = gc_id g" using sh(3) by (auto simp: regroup_def Let_def)
  have "view_wf (gc_id g1) v2"
    using rp.fold_wf[of g "view_age (local_view g)" ps] assms(1) unfolding i sh(1,2) gc_wf_def by simp
  then have "view_wf (gc_id g1) (local_view g')" unfolding sh(4) by (simp add: na.fold_wf)
  then show ?thesis using wf1 regroup_groups[OF sh(3)] adjusted_groups_pow by (simp add: gc_wf_def sh(4))
qed

lemma receive_local_message_wf:
  assumes "gc_wf g st" "receive_local_message ps g st = (acts, g', st')"
  shows "gc_wf g' st' \<and> (pow2 (gc_nr_groups g) \<and> peers_ok ps \<longrightarrow> pow2 (gc_nr_groups g'))"
  using assms recover_local_view_wf[OF assms(1), of ps acts g' st'] incorporate_local_peers_wf[OF assms(1), of ps] pow2_double groups_from_peers_pow
  by (auto simp: receive_local_message_def split: if_splits)

section \<open>Properties\<close>

text \<open>
  Groups partition the unit interval, and doubling their number splits each of them in two: for positions in the unit interval
  the group is between 1 and the number of groups, and group \<open>g\<close> out of \<open>n\<close> is the union of groups
  \<open>2 g - 1\<close> and \<open>2 g\<close> out of \<open>2 n\<close>, so a group that halves the number of groups again finds its old members.
\<close>

theorem group_splits:
  assumes "1 \<le> n" "0 \<le> p" "p \<le> 1"
  shows "1 \<le> group n p \<and> group n p \<le> n \<and> group n p = (group (2 * n) p + 1) div 2 \<and>
     (group (2 * n) p = 2 * group n p - 1 \<or> group (2 * n) p = 2 * group n p)"
proof -
  have "(group (2 * n) p + 1) div 2 = group n p" using group_double[of n p] assms by simp
  moreover have "a = 2 * b - 1 \<or> a = 2 * b" if "(a + 1) div 2 = b" for a b :: int using that by presburger
  ultimately show ?thesis using group_pos[OF assms(1,2)] group_le[OF assms(1,3)] by (metis)
qed

text \<open>
  C17. The group construction and the store never disagree: whatever peers a node hears of, in a round of gossip or in a local
  message, while it recovers its view or afterwards, there is at least one group, its group is the one
  of its position, the store has exactly this partition, and the local view lists each peer once and never the node itself. When the
  number of groups is a power of two and every peer heard of reports at most one group or a power of two, it stays a power of two.
\<close>

theorem group_construction_invariant:
  assumes "gc_wf g st"
    and "gc_receive_message ps g st = (acts, g', st') \<or> receive_local_message ps g st = (acts, g', st')"
  shows "gc_wf g' st' \<and> (pow2 (gc_nr_groups g) \<and> peers_ok ps \<longrightarrow> pow2 (gc_nr_groups g'))"
  using assms(2) gc_receive_message_wf[OF assms(1)] receive_local_message_wf[OF assms(1)] by blast

text \<open>
  Who is in the view after a round: a node that has recovered and works with a power of two of groups either keeps, halves or doubles the number of groups,
  and every peer left in its local view belongs to its group, except that right after a doubling the view may
  still list peers of the other half of the group that was split.
\<close>

theorem local_view_members:
  assumes "gc_wf g st" "pow2 (gc_nr_groups g)" "\<not> recovering_local_view g" "gc_receive_message ps g st = (acts, g', st')"
    and "\<forall>p\<in>set ps. 0 \<le> pd_pos p" "\<forall>p\<in>snd ` set (local_view g). 0 \<le> pd_pos p"
    and "replication_factor_min g \<le> replication_factor_max g"
  shows "gc_nr_groups g' \<in> {gc_nr_groups g, gc_nr_groups g div 2, 2 * gc_nr_groups g} \<and>
    (\<forall>p\<in>snd ` set (local_view g').
       group (gc_nr_groups g') (pd_pos p) = gc_my_group g' \<or>
       gc_nr_groups g' = 2 * gc_nr_groups g \<and> group (gc_nr_groups g) (pd_pos p) = gc_my_group g)"
proof -
  from assms(3,4) obtain v1 v2 not_added g1 where sh: "v1 = fold (receive_peer g) ps (view_age (local_view g))"
    "v2 = filter (\<lambda>(i, p). group (gc_nr_groups g) (pd_pos p) = gc_my_group g \<and> \<not> pd_age p > max_age g) v1"
    "regroup (adjusted_groups g (int (length v2))) g st = (g1, st')"
    "g' = g1\<lparr>local_view := fold (\<lambda>p v. if is_mine g1 p then view_insert p v else v) not_added v2\<rparr>"
    by (rule gc_receive_message_shape)
  obtain e where e: "gc_nr_groups g = 2 ^ e" using assms(2) by (auto simp: pow2_def)
  have g1: "gc_nr_groups g1 = adjusted_groups g (int (length v2))" "gc_my_group g1 = group (gc_nr_groups g1) (gc_position g)"
    using sh(3) by (auto simp: regroup_def Let_def)
  define ok where "ok = (\<lambda>p :: peer_data. group (gc_nr_groups g1) (pd_pos p) = gc_my_group g1 \<or>
      gc_nr_groups g1 = 2 * gc_nr_groups g \<and> group (gc_nr_groups g) (pd_pos p) = gc_my_group g)"
  have "view_all (\<lambda>p. 0 \<le> pd_pos p) (view_age (local_view g))" using assms(6) by (auto simp: view_all_def view_age_def)
  then have pos1: "view_all (\<lambda>p. 0 \<le> pd_pos p) v1" unfolding sh(1) using assms(5) by (rule receive_all)
  have m: "gc_my_group g = group (gc_nr_groups g) (gc_position g)" "0 \<le> gc_position g" using assms(1) by (auto simp: gc_wf_def)
  have "ok p" if "p \<in> snd ` set v2" for p
  proof -
    have p: "group (gc_nr_groups g) (pd_pos p) = gc_my_group g" "0 \<le> pd_pos p"
      using that pos1 by (auto simp: sh(2) view_all_def)
    show ?thesis
    proof (rule adjusted_groups_cases[OF e assms(7) g1(1)])
      assume h: "gc_nr_groups g = 2 * gc_nr_groups g1" "0 \<le> gc_nr_groups g1"
      from group_double[OF h(2) p(2)] group_double[OF h(2) m(2)] show ?thesis using h p m g1(2) by (simp add: ok_def)
    qed (use p m g1(2) in \<open>auto simp: ok_def\<close>)
  qed
  then have "view_all ok v2" by (simp add: view_all_def)
  then have "view_all ok (local_view g')"
    unfolding sh(4) by (simp, rule add_all) (simp_all add: ok_def is_mine_def)
  moreover have "gc_nr_groups g1 \<in> {gc_nr_groups g, gc_nr_groups g div 2, 2 * gc_nr_groups g}"
    by (rule adjusted_groups_cases[OF e assms(7) g1(1)]) simp_all
  ultimately show ?thesis by (simp add: view_all_def ok_def sh(4))
qed

section \<open>Witnesses\<close>

text \<open>A peer at position 3/10 that hears of two others while it works with one group of at most two replicas.\<close>

definition gpeer :: "long \<Rightarrow> rat \<Rightarrow> peer_data" where
  "gpeer i pos = \<lparr>pd_ip = ''10.0.0.1'', pd_kv_port = 1, pd_pss_port = 2, pd_recover_port = 3, pd_age = 0, pd_id = i,
     pd_nr_slices = 1, pd_pos = pos, pd_slice = 1\<rparr>"

definition sample_group :: group_state where
  "sample_group = (init_group_state ''10.0.0.9'' 1 2 3 9 (3/10) 1 2 20 False 1)\<lparr>recovering_local_view := False\<rparr>"

definition heard :: "peer_data list" where
  "heard = [gpeer 1 (1/10), gpeer 2 (9/10)]"

lemmas sample_defs = gpeer_def sample_group_def heard_def init_group_state_def

lemma group_samples [simp]:
  "group 1 (3/10) = 1" "group 1 (1/10) = 1" "group 1 (9/10) = 1" "group 2 (3/10) = 1" "group 2 (1/10) = 1" "group 2 (9/10) = 2"
  by (simp_all add: group_def Let_def ceiling_eq_iff)

lemma sample_group_wf: "nr_slices st = 1 \<Longrightarrow> slice st = 1 \<Longrightarrow> gc_wf sample_group st"
  by (simp add: gc_wf_def sample_defs)

lemma heard_ok: "peers_ok heard"
  by (simp add: peers_ok_def heard_def gpeer_def)

lemma sample_round:
  "\<exists>acts g' st'. gc_receive_message heard sample_group st = (acts, g', st') \<and> gc_nr_groups g' = 2 \<and>
     local_view g' = [(1, gpeer 1 (1/10)), (2, gpeer 2 (9/10))]"
  by (simp add: gc_receive_message_def Let_def regroup_def adjusted_groups_def receive_peer_def is_mine_def view_insert_def
      view_age_def sample_defs)

theorem group_splits_witness: "group 2 (3/10) = 1 \<and> 1 = (group (2 * 2) (3/10) + 1) div 2"
  using group_splits[of 2 "3/10"] by simp

definition some_store :: "unit kv_store" where
  "some_store = undefined\<lparr>nr_slices := 1, slice := 1\<rparr>"

lemma some_store [simp]: "nr_slices some_store = 1" "slice some_store = 1"
  by (simp_all add: some_store_def)

theorem group_construction_invariant_witness:
  "\<exists>acts g' st'. gc_receive_message heard sample_group some_store = (acts, g', st') \<and> gc_nr_groups g' = 2 \<and> gc_wf g' st' \<and> pow2 (gc_nr_groups g')"
proof -
  obtain acts g' st' where r: "gc_receive_message heard sample_group some_store = (acts, g', st')" "gc_nr_groups g' = 2"
    using sample_round[of some_store] by blast
  have "gc_wf g' st' \<and> pow2 (gc_nr_groups g')"
    using group_construction_invariant[OF sample_group_wf, of some_store heard acts g' st'] r(1) heard_ok by (simp add: sample_defs)
  with r show ?thesis by blast
qed

theorem local_view_members_witness:
  "\<exists>acts g' st'. gc_receive_message heard sample_group some_store = (acts, g', st') \<and>
     gpeer 2 (9/10) \<in> snd ` set (local_view g') \<and> gc_nr_groups g' \<in> {1, 0, 2} \<and>
     (group (gc_nr_groups g') (9/10) = gc_my_group g' \<or> gc_nr_groups g' = 2 \<and> group 1 (9/10) = 1)"
proof -
  obtain acts g' st' where r: "gc_receive_message heard sample_group some_store = (acts, g', st')"
    "local_view g' = [(1, gpeer 1 (1/10)), (2, gpeer 2 (9/10))]"
    using sample_round[of some_store] by blast
  have p: "gpeer 2 (9/10) \<in> snd ` set (local_view g')" using r(2) by simp
  have s: "\<not> recovering_local_view sample_group" "\<forall>p\<in>set heard. 0 \<le> pd_pos p"
    "\<forall>p\<in>snd ` set (local_view sample_group). 0 \<le> pd_pos p" "replication_factor_min sample_group \<le> replication_factor_max sample_group"
    "gc_nr_groups sample_group = 1" "gc_my_group sample_group = 1"
    by (simp_all add: sample_defs)
  from local_view_members[OF sample_group_wf _ s(1) r(1) s(2,3,4)] p s(5,6)
  have "gc_nr_groups g' \<in> {1, 0, 2} \<and>
     (group (gc_nr_groups g') (9/10) = gc_my_group g' \<or> gc_nr_groups g' = 2 \<and> group 1 (9/10) = 1)"
    by (simp add: r(2) gpeer_def)
  with r(1) p show ?thesis by blast
qed

end
