(* ===== verification/Pss.thy ===== *)
theory Pss
  imports Group_Construction
begin

text \<open>
  The peer sampling service: \<^verbatim>\<open>df_pss/pss.cpp\<close>, a Cyclon-style gossip. A peer keeps a bounded view; in every round it
  sends part of the view to its oldest neighbour and takes over what it receives. \<open>shuffle\<close> stands for
  \<^verbatim>\<open>std::shuffle\<close>. A received peer has no recovery port: \<^verbatim>\<open>process_msg\<close> does not copy the field, \<open>junk\<close> is what the
  uninitialised member holds.
\<close>

section \<open>State\<close>

record pss_state =
  ps_group :: group_state
  ps_view_map :: pview
  last_sent_view :: "peer_data list"
  view_size :: nat
  gossip_size :: nat

abbreviation ps_id :: "pss_state \<Rightarrow> long" where
  "ps_id s \<equiv> gc_id (ps_group s)"

section \<open>Views\<close>

fun select_loop :: "nat \<Rightarrow> peer_data list \<Rightarrow> peer_data list \<Rightarrow> pview \<Rightarrow> peer_data list \<times> pview" where
  "select_loop n [] res v = (res, v)"
| "select_loop n (p # ps) res v =
     (if length res < n then select_loop n ps (res @ [p]) (view_erase (pd_id p) v) else select_loop n ps res v)"

definition select_view_to_send ::
  "(peer_data list \<Rightarrow> peer_data list) \<Rightarrow> string \<Rightarrow> int \<Rightarrow> pss_state \<Rightarrow> peer_data list \<times> pss_state" where
  "select_view_to_send shuffle target_ip target_pss_port s =
     (let my_view_elements = map snd (filter (\<lambda>(i, p). pd_ip p \<noteq> target_ip \<or> pd_pss_port p \<noteq> target_pss_port) (ps_view_map s));
          (res, v) = select_loop (gossip_size s) (shuffle my_view_elements) [myself (ps_group s)] (ps_view_map s)
      in (res, s\<lparr>ps_view_map := v\<rparr>))"

definition pss_have_peer_from_slice :: "int \<Rightarrow> pss_state \<Rightarrow> peer_data list" where
  "pss_have_peer_from_slice sl s =
     map snd (filter (\<lambda>(i, p). group (gc_nr_groups (ps_group s)) (pd_pos p) = sl) (ps_view_map s))"

definition pss_get_view :: "pss_state \<Rightarrow> peer_data list" where
  "pss_get_view s = map snd (ps_view_map s) @ last_sent_view s"

definition pss_get_slice_local_view :: "pss_state \<Rightarrow> peer_data list" where
  "pss_get_slice_local_view s = get_local_view (ps_group s)"

definition age_view_members :: "pss_state \<Rightarrow> pss_state" where
  "age_view_members s = s\<lparr>ps_view_map := view_age (ps_view_map s)\<rparr>"

fun older_loop :: "peer_data option \<Rightarrow> peer_data list \<Rightarrow> peer_data option" where
  "older_loop older [] = older"
| "older_loop older (p # ps) =
     older_loop (case older of None \<Rightarrow> Some p | Some q \<Rightarrow> if pd_age p > pd_age q then Some p else older) ps"

definition get_older_from_view :: "pss_state \<Rightarrow> peer_data option" where
  "get_older_from_view s = older_loop None (map snd (ps_view_map s))"

text \<open>The body of the loop of \<^verbatim>\<open>incorporate_in_view\<close>.\<close>

definition take_in_view :: "long \<Rightarrow> peer_data \<Rightarrow> pview \<Rightarrow> pview" where
  "take_in_view self tmp v =
     (if pd_id tmp \<noteq> self then
        (case map_of v (pd_id tmp) of
           Some cur \<Rightarrow> if pd_age cur > pd_age tmp then view_update (pd_id tmp) (\<lambda>_. tmp) v else v
         | None \<Rightarrow> view_insert tmp v)
      else v)"

fun incorporate_in_view :: "long \<Rightarrow> nat \<Rightarrow> peer_data list \<Rightarrow> pview \<Rightarrow> pview" where
  "incorporate_in_view self vsize [] v = v"
| "incorporate_in_view self vsize (tmp # source) v =
     (if length v < vsize then incorporate_in_view self vsize source (take_in_view self tmp v) else v)"

fun last_sent_loop :: "nat \<Rightarrow> peer_data list \<Rightarrow> pview \<Rightarrow> pview \<times> peer_data list" where
  "last_sent_loop vsize [] v = (v, [])"
| "last_sent_loop vsize (tmp # rest) v =
     (if length v < vsize then last_sent_loop vsize rest (view_insert tmp v) else (v, tmp # rest))"

definition incorporate_last_sent_view :: "pss_state \<Rightarrow> pss_state" where
  "incorporate_last_sent_view s =
     (let (v, rest) = last_sent_loop (view_size s) (last_sent_view s) (ps_view_map s)
      in s\<lparr>ps_view_map := v, last_sent_view := rest\<rparr>)"

text \<open>The ids and the peers reported by \<^verbatim>\<open>get_peers_from_view\<close> and \<^verbatim>\<open>get_peers_from_view_peers\<close>.\<close>

definition get_peers_from_view_peers :: "pss_state \<Rightarrow> peer_data list" where
  "get_peers_from_view_peers s =
     (let res = map snd (ps_view_map s) in res @ take (view_size s - length res) (last_sent_view s))"

definition get_peers_from_view :: "pss_state \<Rightarrow> long list" where
  "get_peers_from_view s = map pd_id (get_peers_from_view_peers s)"

section \<open>Messages\<close>

definition pss_msg :: "pss_state \<Rightarrow> peer_data list \<Rightarrow> pss_type \<Rightarrow> pss_message" where
  "pss_msg s view_to_send t =
     \<lparr>ps_sender_ip = gc_ip (ps_group s), ps_sender_port = gc_pss_port (ps_group s), ps_sender_pos = gc_position (ps_group s),
      ps_type = t, ps_view = view_to_send\<rparr>"

text \<open>One round of \<^verbatim>\<open>operator()\<close>.\<close>

definition pss_round :: "(peer_data list \<Rightarrow> peer_data list) \<Rightarrow> int \<Rightarrow> pss_state \<Rightarrow> pss_send list \<times> pss_state" where
  "pss_round shuffle cycles s0 =
     (let s1 = s0\<lparr>ps_group := (ps_group s0)\<lparr>gc_cycle := cycles\<rparr>\<rparr>;
          s2 = age_view_members (incorporate_last_sent_view s1)
      in case get_older_from_view s2 of
           None \<Rightarrow> ([], s2)
         | Some target \<Rightarrow>
             (let s3 = s2\<lparr>ps_view_map := view_erase (pd_id target) (ps_view_map s2)\<rparr>;
                  (view_to_send, s4) = select_view_to_send shuffle (pd_ip target) (pd_pss_port target) s3
              in ([(pd_ip target, pd_pss_port target, pss_msg s4 view_to_send NORMAL)],
                  s4\<lparr>last_sent_view := filter (\<lambda>p. pd_id p \<noteq> ps_id s4) view_to_send\<rparr>)))"

definition received_peer :: "int \<Rightarrow> peer_data \<Rightarrow> peer_data" where
  "received_peer junk p = p\<lparr>pd_recover_port := junk\<rparr>"

text \<open>What a normal message does to the view before the group construction sees it; the view sent back is the other
  result.\<close>

definition exchange :: "(peer_data list \<Rightarrow> peer_data list) \<Rightarrow> string \<Rightarrow> int \<Rightarrow> peer_data list \<Rightarrow> pss_state \<Rightarrow>
    peer_data list \<times> pss_state" where
  "exchange shuffle sender_ip sender_port recv_view s0 =
     (let (view_to_send, s) = select_view_to_send shuffle sender_ip sender_port (incorporate_last_sent_view s0);
          to_fill_view = filter (\<lambda>p. pd_id p \<noteq> ps_id s) view_to_send;
          v1 = incorporate_in_view (ps_id s) (view_size s) recv_view (ps_view_map s);
          v2 = incorporate_in_view (ps_id s) (view_size s) to_fill_view v1
      in (view_to_send, s\<lparr>ps_view_map := v2\<rparr>))"

definition process_msg ::
  "(peer_data list \<Rightarrow> peer_data list) \<Rightarrow> int \<Rightarrow> pss_message \<Rightarrow> pss_state \<Rightarrow> 'd kv_store \<Rightarrow>
     pss_send list \<times> pss_state \<times> 'd kv_store" where
  "process_msg shuffle junk m s st =
     (let recv_view = map (received_peer junk) (ps_view m); g = ps_group s in
      case ps_type m of
        REQUEST_LOCAL \<Rightarrow>
          (let sl = group (gc_nr_groups g) (ps_sender_pos m) in
           (if gc_my_group g = sl then [send_local_message (ps_sender_ip m) (ps_sender_port m) g]
            else map (\<lambda>p. (pd_ip p, pd_pss_port p, m)) (pss_have_peer_from_slice sl s), s, st))
      | LOCAL \<Rightarrow>
          (let (acts, g', st') = receive_local_message recv_view g st in (acts, s\<lparr>ps_group := g'\<rparr>, st'))
      | LOADBALANCE \<Rightarrow>
          ([(ps_sender_ip m, ps_sender_port m, pss_msg s (pss_get_view s @ [myself g]) LOADBALANCE)], s, st)
      | LOADBALANCE_LOCAL \<Rightarrow> ([send_local_message (ps_sender_ip m) (ps_sender_port m) g], s, st)
      | NORMAL \<Rightarrow>
          (let (view_to_send, s1) = exchange shuffle (ps_sender_ip m) (ps_sender_port m) recv_view s;
               (acts, g', st') = gc_receive_message recv_view (ps_group s1) st
           in ((ps_sender_ip m, ps_sender_port m, pss_msg s1 view_to_send RESPONSE) # acts, s1\<lparr>ps_group := g'\<rparr>, st'))
      | RESPONSE \<Rightarrow>
          (let s1 = incorporate_last_sent_view
                 (s\<lparr>ps_view_map := incorporate_in_view (ps_id s) (view_size s) recv_view (ps_view_map s)\<rparr>);
               (acts, g', st') = gc_receive_message recv_view (ps_group s1) st
           in (acts, s1\<lparr>last_sent_view := [], ps_group := g'\<rparr>, st'))
      | _ \<Rightarrow> ([], s, st))"

section \<open>Lemmas\<close>

text \<open>\<open>view_fits\<close>: a well-formed view within its bound.\<close>

definition view_fits :: "long \<Rightarrow> nat \<Rightarrow> pview \<Rightarrow> bool" where
  "view_fits self n v \<longleftrightarrow> view_wf self v \<and> length v \<le> n"

abbreviation ids :: "pview \<Rightarrow> long set" where
  "ids v \<equiv> fst ` set v"

interpretation tv: incorporate self "\<lambda>_. True" "take_in_view self" for self
  by unfold_locales (auto simp: take_in_view_def view_all_def split: option.splits)

lemma ids_view_insert [simp]: "ids (view_insert p v) = insert (pd_id p) (ids v)"
  by (auto simp: view_insert_def map_of_eq_None_iff image_iff split: if_splits)

lemma length_ids: "view_wf self v \<Longrightarrow> length v = card (ids v)"
  unfolding view_wf_def by (metis distinct_card length_map list.set_map)

lemma length_mono: "view_wf i v \<Longrightarrow> view_wf i w \<Longrightarrow> ids v \<subseteq> ids w \<Longrightarrow> length v \<le> length w"
  by (simp add: length_ids card_mono)

lemma ids_take_in:
  "ids v \<subseteq> ids (take_in_view self p v)" "pd_id p \<noteq> self \<Longrightarrow> pd_id p \<in> ids (take_in_view self p v)"
  by (auto simp: take_in_view_def split: option.splits dest: map_of_SomeD intro: rev_image_eqI)

lemma length_take_in: "length (take_in_view self p v) \<le> length v + 1"
  using length_view_insert[of p v] by (auto simp: take_in_view_def split: option.splits)

lemma incorporate_in_view_fits: "view_fits self n v \<Longrightarrow> view_fits self n (incorporate_in_view self n ps v)"
proof (induction self n ps v rule: incorporate_in_view.induct)
  case (2 self n tmp source v)
  have "view_fits self n (take_in_view self tmp v)" if "length v < n"
    using 2(2) that length_take_in[of self tmp v] tv.step_wf[of self v tmp] by (simp add: view_fits_def)
  then show ?case using 2 by simp
qed simp

lemma incorporate_in_view_ids: "ids v \<subseteq> ids (incorporate_in_view self n ps v)"
proof (induction self n ps v rule: incorporate_in_view.induct)
  case (2 self n tmp source v)
  show ?case
  proof (cases "length v < n")
    case True
    then show ?thesis using subset_trans[OF ids_take_in(1) 2[OF True]] by simp
  qed simp
qed simp

lemma incorporate_in_view_all:
  "length (incorporate_in_view self n ps v) < n \<Longrightarrow> pd_id ` set ps - {self} \<subseteq> ids (incorporate_in_view self n ps v)"
proof (induction self n ps v rule: incorporate_in_view.induct)
  case (2 self n tmp source v)
  then have l: "length v < n" by (cases "length v < n") auto
  have "pd_id tmp \<noteq> self \<Longrightarrow> pd_id tmp \<in> ids (incorporate_in_view self n source (take_in_view self tmp v))"
    using ids_take_in(2)[of tmp self v] incorporate_in_view_ids by blast
  then show ?case using 2 l by auto
qed simp

text \<open>The loop that puts back what was sent last.\<close>

lemma last_sent_loop_fits:
  "last_sent_loop n ps v = (v', rest) \<Longrightarrow> view_fits self n v \<Longrightarrow> \<forall>p\<in>set ps. pd_id p \<noteq> self \<Longrightarrow>
     view_fits self n v' \<and> set rest \<subseteq> set ps \<and> ids v \<subseteq> ids v' \<and> pd_id ` set ps \<subseteq> ids v' \<union> pd_id ` set rest"
proof (induction n ps v arbitrary: v' rest rule: last_sent_loop.induct)
  case (2 n tmp ps v)
  show ?case
  proof (cases "length v < n")
    case True
    then have "view_fits self n (view_insert tmp v)"
      using 2(3,4) length_view_insert[of tmp v] by (simp add: view_fits_def)
    then show ?thesis using 2(1)[OF True] 2(2,4) True by (auto simp: subset_iff)
  qed (use 2 in auto)
qed auto

section \<open>Invariant\<close>

text \<open>The view is within its bound, lists each peer once and never the node itself; neither does the last view sent.\<close>

definition pss_wf :: "pss_state \<Rightarrow> bool" where
  "pss_wf s \<longleftrightarrow> view_fits (ps_id s) (view_size s) (ps_view_map s) \<and> (\<forall>p\<in>set (last_sent_view s). pd_id p \<noteq> ps_id s)"

lemma incorporate_last_sent_view_wf: "pss_wf s \<Longrightarrow> pss_wf (incorporate_last_sent_view s)"
  using last_sent_loop_fits[of "view_size s" "last_sent_view s" "ps_view_map s" _ _ "ps_id s"]
  by (auto simp: pss_wf_def incorporate_last_sent_view_def subset_iff split: prod.splits)

lemma length_view_erase: "length (view_erase i v) \<le> length v"
  by (simp add: view_erase_def)

lemma select_loop_fits: "select_loop n ps res v = (r, v') \<Longrightarrow> view_fits self m v \<Longrightarrow> view_fits self m v'"
  by (induction n ps res v rule: select_loop.induct)
    (auto simp: view_fits_def split: if_splits intro: order_trans[OF length_view_erase])

lemma select_view_wf:
  assumes "pss_wf s" "select_view_to_send shuffle ip port s = (r, s')"
  shows "pss_wf s'" "ps_group s' = ps_group s" "view_size s' = view_size s" "last_sent_view s' = last_sent_view s"
  using assms select_loop_fits[of "gossip_size s" _ _ "ps_view_map s" _ _ "ps_id s" "view_size s"]
  by (auto simp: select_view_to_send_def Let_def pss_wf_def split: prod.splits)

lemma age_wf [simp]: "pss_wf (age_view_members s) = pss_wf s"
  by (auto simp: pss_wf_def age_view_members_def view_fits_def view_wf_def view_age_def comp_def case_prod_beta image_image)

lemma older_loop_in: "older_loop q ps = Some p \<Longrightarrow> p \<in> set ps \<or> q = Some p"
  by (induction q ps rule: older_loop.induct) (auto split: option.splits if_splits)

lemma pss_wf_update:
  "pss_wf (s\<lparr>last_sent_view := ps\<rparr>) \<longleftrightarrow> view_fits (ps_id s) (view_size s) (ps_view_map s) \<and> (\<forall>p\<in>set ps. pd_id p \<noteq> ps_id s)"
  "pss_wf (s\<lparr>ps_view_map := v\<rparr>) \<longleftrightarrow> view_fits (ps_id s) (view_size s) v \<and> (\<forall>p\<in>set (last_sent_view s). pd_id p \<noteq> ps_id s)"
  by (simp_all add: pss_wf_def)

lemma pss_wf_group [simp]: "gc_id g = ps_id s \<Longrightarrow> pss_wf (s\<lparr>ps_group := g\<rparr>) = pss_wf s"
  by (simp add: pss_wf_def)

lemma pss_round_wf: "pss_wf s \<Longrightarrow> pss_round shuffle c s = (acts, s') \<Longrightarrow> pss_wf s'"
proof -
  assume wf: "pss_wf s" and r: "pss_round shuffle c s = (acts, s')"
  define s2 where "s2 = age_view_members (incorporate_last_sent_view (s\<lparr>ps_group := (ps_group s)\<lparr>gc_cycle := c\<rparr>\<rparr>))"
  have wf2: "pss_wf s2" unfolding s2_def using wf by (simp add: incorporate_last_sent_view_wf)
  show ?thesis
  proof (cases "get_older_from_view s2")
    case None
    then show ?thesis using r wf2 by (simp add: pss_round_def Let_def s2_def[symmetric])
  next
    case (Some t)
    let ?s3 = "s2\<lparr>ps_view_map := view_erase (pd_id t) (ps_view_map s2)\<rparr>"
    have wf3: "pss_wf ?s3" using wf2 length_view_erase[of "pd_id t" "ps_view_map s2"] by (auto simp: pss_wf_def view_fits_def)
    obtain ps s4 where s4: "select_view_to_send shuffle (pd_ip t) (pd_pss_port t) ?s3 = (ps, s4)" by fastforce
    have "pss_wf s4" by (rule select_view_wf(1)[OF wf3 s4])
    then have "pss_wf (s4\<lparr>last_sent_view := filter (\<lambda>p. pd_id p \<noteq> ps_id s4) ps\<rparr>)" by (simp add: pss_wf_def)
    then show ?thesis using r Some s4 by (simp add: pss_round_def Let_def s2_def[symmetric])
  qed
qed

lemma exchange_wf:
  assumes "pss_wf s" "exchange shuffle ip port recv s = (ps, s')"
  shows "pss_wf s' \<and> ps_group s' = ps_group s"
proof -
  let ?s0 = "incorporate_last_sent_view s"
  obtain ps' s1 where s1: "select_view_to_send shuffle ip port ?s0 = (ps', s1)" by fastforce
  note sel = select_view_wf[OF incorporate_last_sent_view_wf[OF assms(1)] s1]
  have "ps_group ?s0 = ps_group s" by (simp add: incorporate_last_sent_view_def split: prod.splits)
  moreover have "pss_wf (s1\<lparr>ps_view_map := incorporate_in_view (ps_id s1) (view_size s1) xs
      (incorporate_in_view (ps_id s1) (view_size s1) ys (ps_view_map s1))\<rparr>)" for xs ys
    using sel(1) by (simp add: pss_wf_def incorporate_in_view_fits)
  ultimately show ?thesis using assms(2) s1 sel(2) by (auto simp: exchange_def Let_def)
qed

lemma gc_ids:
  "gc_receive_message ps g st = (acts, g', st') \<Longrightarrow> gc_id g' = gc_id g"
  "receive_local_message ps g st = (acts, g', st') \<Longrightarrow> gc_id g' = gc_id g"
  by (auto simp: gc_receive_message_def receive_local_message_def recover_local_view_def incorporate_local_peers_def
      clean_local_view_def regroup_def Let_def split: if_splits)

lemma incorporate_last_group [simp]: "ps_group (incorporate_last_sent_view s) = ps_group s"
  "view_size (incorporate_last_sent_view s) = view_size s"
  by (simp_all add: incorporate_last_sent_view_def split: prod.splits)

lemma pss_round_group: "ps_group (snd (pss_round shuffle c s)) = (ps_group s)\<lparr>gc_cycle := c\<rparr>"
  by (auto simp: pss_round_def select_view_to_send_def age_view_members_def Let_def split: option.splits prod.splits)

lemma gc_wf_cycle [simp]: "gc_wf (g\<lparr>gc_cycle := c\<rparr>) st = gc_wf g st"
  by (simp add: gc_wf_def)

lemma gc_step:
  assumes "gc_wf (ps_group s) st" "pss_wf s"
    and "gc_receive_message ps (ps_group s) st = (acts, g', st') \<or> receive_local_message ps (ps_group s) st = (acts, g', st')"
  shows "pss_wf (s\<lparr>ps_group := g'\<rparr>) \<and> gc_wf g' st'"
proof -
  have "gc_id g' = ps_id s" using assms(3) gc_ids by blast
  moreover have "gc_wf g' st'" using assms(3) gc_receive_message_wf[OF assms(1)] receive_local_message_wf[OF assms(1)] by blast
  ultimately show ?thesis using assms(2) by simp
qed

lemma process_msg_wf:
  assumes "pss_wf s" "gc_wf (ps_group s) st" "process_msg shuffle junk m s st = (acts, s', st')"
  shows "pss_wf s' \<and> gc_wf (ps_group s') st'"
proof -
  let ?ps = "map (received_peer junk) (ps_view m)"
  show ?thesis
  proof (cases "ps_type m")
    case NORMAL
    obtain vs s1 where e: "exchange shuffle (ps_sender_ip m) (ps_sender_port m) ?ps s = (vs, s1)" by fastforce
    obtain as g' st1 where g: "gc_receive_message ?ps (ps_group s1) st = (as, g', st1)" by (metis prod_cases3)
    have "pss_wf (s1\<lparr>ps_group := g'\<rparr>) \<and> gc_wf g' st1"
      using exchange_wf[OF assms(1) e] assms(2) by (intro gc_step[OF _ _ disjI1[OF g]]) simp_all
    then show ?thesis using assms(3) NORMAL e g by (auto simp: process_msg_def Let_def)
  next
    case RESPONSE
    define s1 where "s1 = incorporate_last_sent_view
       (s\<lparr>ps_view_map := incorporate_in_view (ps_id s) (view_size s) ?ps (ps_view_map s)\<rparr>)"
    have gs: "ps_group s1 = ps_group s" by (simp add: s1_def)
    obtain as g' st1 where g: "gc_receive_message ?ps (ps_group s1) st = (as, g', st1)" by (metis prod_cases3)
    have "pss_wf s1" unfolding s1_def
      using assms(1) by (intro incorporate_last_sent_view_wf) (simp add: pss_wf_def incorporate_in_view_fits)
    then have "pss_wf (s1\<lparr>ps_group := g'\<rparr>) \<and> gc_wf g' st1"
      using assms(2) by (intro gc_step[OF _ _ disjI1[OF g]]) (simp_all add: gs)
    then show ?thesis using assms(3) RESPONSE g[unfolded gs] by (auto simp: process_msg_def Let_def s1_def[symmetric] pss_wf_def gs)
  next
    case LOCAL
    obtain as g' st1 where g: "receive_local_message ?ps (ps_group s) st = (as, g', st1)" by (metis prod_cases3)
    show ?thesis using gc_step[OF assms(2,1), of ?ps as g' st1] assms(3) LOCAL g by (auto simp: process_msg_def Let_def)
  qed (use assms in \<open>auto simp: process_msg_def Let_def\<close>)
qed

text \<open>
  C18. Invariant of the membership service: a round of gossip and every message, of any type and with any view, keep the view within its bound, without
  duplicates and without the node itself, and keep the group construction and the store in agreement.
\<close>

theorem pss_invariant:
  assumes "pss_wf s" "gc_wf (ps_group s) st"
  shows "pss_wf (snd (pss_round shuffle c s)) \<and> gc_wf (ps_group (snd (pss_round shuffle c s))) st \<and>
    (case process_msg shuffle junk m s st of (acts, s', st') \<Rightarrow> pss_wf s' \<and> gc_wf (ps_group s') st')"
  using pss_round_wf[OF assms(1), of shuffle c] process_msg_wf[OF assms] assms(2)
  by (auto simp: pss_round_group split: prod.splits) (metis prod.collapse)

section \<open>An exchange\<close>

text \<open>What \<open>select_view_to_send\<close> takes out of the view is what it sends.\<close>

lemma select_loop_result:
  "select_loop n ps res v = (r, v') \<Longrightarrow> \<exists>k. r = res @ take k ps \<and> v' = fold (\<lambda>p. view_erase (pd_id p)) (take k ps) v \<and>
     length r \<le> max n (length res)"
proof (induction n ps res v rule: select_loop.induct)
  case (2 n p ps res v)
  show ?case
  proof (cases "length res < n")
    case True
    then obtain k where "r = (res @ [p]) @ take k ps" "v' = fold (\<lambda>p. view_erase (pd_id p)) (take k ps) (view_erase (pd_id p) v)"
      "length r \<le> max n (length (res @ [p]))" using 2(1,3) by auto
    then show ?thesis using True by (intro exI[of _ "Suc k"]) auto
  next
    case False
    then obtain k where "r = res @ take k ps" "length r \<le> max n (length res)" using 2(2,3) by auto
    moreover have "select_loop n qs res v = (res, v)" for qs using False by (induction qs) auto
    ultimately show ?thesis using False 2(3) by (intro exI[of _ 0]) auto
  qed
qed auto

lemma ids_erase: "ids (fold (\<lambda>p. view_erase (pd_id p)) ps v) = ids v - pd_id ` set ps"
  by (induction ps arbitrary: v) (auto simp: view_erase_def)

lemma view_wf_not_self: "view_wf self v \<Longrightarrow> p \<in> snd ` set v \<Longrightarrow> pd_id p \<noteq> self"
  unfolding view_wf_def by force

lemma select_view_result:
  assumes "select_view_to_send shuffle ip port s = (sent, s')" "\<And>xs. set (shuffle xs) = set xs"
  shows "\<exists>ps. sent = myself (ps_group s) # ps \<and> length sent \<le> max 1 (gossip_size s) \<and> set ps \<subseteq> snd ` set (ps_view_map s) \<and>
    ids (ps_view_map s') = ids (ps_view_map s) - pd_id ` set ps"
proof -
  let ?el = "map snd (filter (\<lambda>(i, p). pd_ip p \<noteq> ip \<or> pd_pss_port p \<noteq> port) (ps_view_map s))"
  obtain r v where l: "select_loop (gossip_size s) (shuffle ?el) [myself (ps_group s)] (ps_view_map s) = (r, v)" by fastforce
  from select_loop_result[OF l] obtain k where k: "r = myself (ps_group s) # take k (shuffle ?el)"
    "v = fold (\<lambda>p. view_erase (pd_id p)) (take k (shuffle ?el)) (ps_view_map s)" "length r \<le> max (gossip_size s) 1" by auto
  have "set (take k (shuffle ?el)) \<subseteq> snd ` set (ps_view_map s)"
    using set_take_subset[of k "shuffle ?el"] assms(2)[of ?el] by auto
  moreover have "sent = r" "s' = s\<lparr>ps_view_map := v\<rparr>" using assms(1) l by (auto simp: select_view_to_send_def Let_def)
  ultimately show ?thesis using k by (intro exI[of _ "take k (shuffle ?el)"]) (auto simp: ids_erase max.commute)
qed

text \<open>When there is room, the peers received and the peers sent are all in the view at the end.\<close>

lemma exchange_room:
  assumes "view_fits i n (incorporate_in_view i n recv v)" "ids v = ids v0 - pd_id ` set ps" "i \<notin> pd_id ` set ps"
    and "length (incorporate_in_view i n (filter (\<lambda>p. pd_id p \<noteq> i) (me # ps)) (incorporate_in_view i n recv v)) < n"
  shows "ids v0 \<union> (pd_id ` set recv - {i}) \<subseteq>
    ids (incorporate_in_view i n (filter (\<lambda>p. pd_id p \<noteq> i) (me # ps)) (incorporate_in_view i n recv v))"
proof -
  let ?v1 = "incorporate_in_view i n recv v" and ?sent = "filter (\<lambda>p. pd_id p \<noteq> i) (me # ps)"
  let ?v2 = "incorporate_in_view i n ?sent ?v1"
  have fits: "view_fits i n ?v2" by (rule incorporate_in_view_fits[OF assms(1)])
  have old: "ids ?v1 \<subseteq> ids ?v2" by (rule incorporate_in_view_ids)
  have "length ?v1 \<le> length ?v2" using length_mono[of i ?v1 ?v2] old assms(1) fits by (simp add: view_fits_def)
  then have got: "pd_id ` set recv - {i} \<subseteq> ids ?v1" using assms(4) incorporate_in_view_all[of i n recv v] by simp
  have "pd_id ` set ?sent - {i} \<subseteq> ids ?v2" using assms(4) by (rule incorporate_in_view_all)
  moreover have "pd_id ` set ps \<subseteq> pd_id ` set ?sent - {i}" using assms(3) by (fastforce simp: image_iff)
  ultimately have sent: "pd_id ` set ps \<subseteq> ids ?v2" by (rule subset_trans[rotated])
  have kept: "ids v \<subseteq> ids ?v1" by (rule incorporate_in_view_ids)
  have "A \<union> R \<subseteq> V" if "A - P \<subseteq> U" "P \<subseteq> V" "R \<subseteq> U" "U \<subseteq> V" for A P R U V :: "long set" using that by blast
  from this[OF kept[unfolded assms(2)] sent got old] show ?thesis .
qed

text \<open>
  An exchange never shrinks the view: a node that answers a gossip message sends at most the configured number of peers,
  itself first with age zero and otherwise peers of its view, and afterwards its view has at least as many
  peers as before; if there is still room, none of the peers it knew or received is missing.
\<close>

theorem exchange_keeps_view:
  assumes "pss_wf s" "\<And>xs. set (shuffle xs) = set xs" "exchange shuffle ip port recv s = (sent, s')"
  shows "length sent \<le> max 1 (gossip_size s) \<and> hd sent = myself (ps_group s) \<and>
    length (ps_view_map s) \<le> length (ps_view_map s') \<and> length (ps_view_map s') \<le> view_size s \<and>
    (length (ps_view_map s') < view_size s \<longrightarrow>
       ids (ps_view_map s) \<union> (pd_id ` set recv - {ps_id s}) \<subseteq> ids (ps_view_map s'))"
proof -
  define s0 where "s0 = incorporate_last_sent_view s"
  have wf0: "pss_wf s0" unfolding s0_def by (rule incorporate_last_sent_view_wf[OF assms(1)])
  have s0: "ps_group s0 = ps_group s" "view_size s0 = view_size s" "gossip_size s0 = gossip_size s"
    by (simp_all add: s0_def) (simp add: incorporate_last_sent_view_def split: prod.splits)
  obtain v0 rest where l0: "last_sent_loop (view_size s) (last_sent_view s) (ps_view_map s) = (v0, rest)" by fastforce
  have sub0: "ids (ps_view_map s) \<subseteq> ids (ps_view_map s0)"
    using last_sent_loop_fits[OF l0, of "ps_id s"] assms(1) l0 by (simp add: s0_def incorporate_last_sent_view_def pss_wf_def)
  obtain s1 where s1: "select_view_to_send shuffle ip port s0 = (sent, s1)"
    using assms(3) by (auto simp: exchange_def s0_def Let_def split: prod.splits)
  note sel = select_view_wf[OF wf0 s1]
  obtain ps where ps: "sent = myself (ps_group s) # ps" "length sent \<le> max 1 (gossip_size s)"
    "set ps \<subseteq> snd ` set (ps_view_map s0)" "ids (ps_view_map s1) = ids (ps_view_map s0) - pd_id ` set ps"
    using select_view_result[OF s1 assms(2)] s0 by auto
  let ?n = "view_size s" and ?i = "ps_id s"
  define v1 where "v1 = incorporate_in_view ?i ?n recv (ps_view_map s1)"
  define v2 where "v2 = incorporate_in_view ?i ?n (filter (\<lambda>p. pd_id p \<noteq> ?i) sent) v1"
  have s': "ps_view_map s' = v2" "ps_id s' = ?i"
    using assms(3) s1 sel(2,3) s0 by (auto simp: exchange_def Let_def s0_def[symmetric] v1_def v2_def)
  have "view_fits ?i ?n (ps_view_map s1)" using sel(1,2,3) s0 by (simp add: pss_wf_def)
  then have f1: "view_fits ?i ?n v1" unfolding v1_def by (rule incorporate_in_view_fits)
  then have f2: "view_fits ?i ?n v2" unfolding v2_def by (rule incorporate_in_view_fits)
  have "view_wf ?i (ps_view_map s0)" using wf0 s0 by (simp add: pss_wf_def view_fits_def)
  then have self: "?i \<notin> pd_id ` set ps"
    using view_wf_not_self[of ?i "ps_view_map s0"] subsetD[OF ps(3)] by (metis imageE)
  have room: "ids (ps_view_map s0) \<union> (pd_id ` set recv - {?i}) \<subseteq> ids v2" if "length v2 < ?n"
    using exchange_room[OF _ ps(4) self, of ?n recv "myself (ps_group s)"] that f1 f2 unfolding v2_def v1_def ps(1) by blast
  have "length (ps_view_map s) \<le> length v2"
  proof (cases "length v2 < ?n")
    case True
    then have "ids (ps_view_map s) \<subseteq> ids v2" using room sub0 by blast
    then show ?thesis using length_mono[of ?i "ps_view_map s" v2] f2 assms(1) by (simp add: view_fits_def pss_wf_def)
  next
    case False
    then show ?thesis using assms(1) by (auto simp: pss_wf_def view_fits_def)
  qed
  moreover have "ids (ps_view_map s) \<union> (pd_id ` set recv - {?i}) \<subseteq> ids v2" if "length v2 < ?n"
    by (rule subset_trans[OF Un_mono[OF sub0 subset_refl] room[OF that]])
  ultimately show ?thesis using ps(1,2) s' f2 by (simp add: view_fits_def)
qed

section \<open>Witnesses\<close>

definition sample_pss :: pss_state where
  "sample_pss = \<lparr>ps_group = sample_group, ps_view_map = [(1, gpeer 1 (1/10))], last_sent_view = [gpeer 3 (1/2)],
     view_size = 3, gossip_size = 2\<rparr>"

lemma sample_pss_wf: "pss_wf sample_pss"
  by (simp add: sample_pss_def pss_wf_def view_fits_def view_wf_def sample_defs)

theorem pss_invariant_witness:
  "pss_wf (snd (pss_round (\<lambda>xs. xs) 1 sample_pss)) \<and>
   (\<exists>acts s' st'. process_msg (\<lambda>xs. xs) 0 \<lparr>ps_sender_ip = ''10.0.0.2'', ps_sender_port = 2, ps_sender_pos = 1/2, ps_type = NORMAL,
      ps_view = heard\<rparr> sample_pss some_store = (acts, s', st') \<and> pss_wf s' \<and> gc_wf (ps_group s') st')"
proof -
  let ?m = "\<lparr>ps_sender_ip = ''10.0.0.2'', ps_sender_port = 2, ps_sender_pos = 1/2, ps_type = NORMAL, ps_view = heard\<rparr>"
  have g: "gc_wf (ps_group sample_pss) some_store" by (simp add: sample_pss_def sample_group_wf)
  obtain acts s' st' where p: "process_msg (\<lambda>xs. xs) 0 ?m sample_pss some_store = (acts, s', st')" by (metis prod_cases3)
  from pss_invariant[OF sample_pss_wf g, of "\<lambda>xs. xs" 1 0 ?m] p show ?thesis by auto
qed

theorem exchange_keeps_view_witness:
  "\<exists>sent s'. exchange (\<lambda>xs. xs) ''10.0.0.2'' 2 [gpeer 2 (9/10)] sample_pss = (sent, s') \<and> hd sent = myself sample_group \<and>
     1 \<le> length (ps_view_map s') \<and> length (ps_view_map s') \<le> 3"
proof -
  obtain sent s' where e: "exchange (\<lambda>xs. xs) ''10.0.0.2'' 2 [gpeer 2 (9/10)] sample_pss = (sent, s')" by fastforce
  from exchange_keeps_view[OF sample_pss_wf _ e] show ?thesis using e by (auto simp: sample_pss_def)
qed

end
