(* ===== verification/Peer.thy ===== *)
theory Peer
  imports State_Transfer Pss
begin

text \<open>
  A peer as a state machine: the threads of \<^verbatim>\<open>df_core/peer.cpp\<close> take turns on the store and the views. A state has the phase of
  the anti-entropy thread, the node with its store, and the membership service with the group construction; a step is one message
  handled, one round of anti-entropy, the start or the recovery of the peer, a round of gossip or a gossip message. The
  data handler waits for the phase to be \<open>Operating\<close> before it reads its socket. Steps are atomic: the interleaving of two
  threads inside an operation is not modelled.
\<close>

section \<open>Steps and runs\<close>

record 'd peer =
  pr_phase :: Phase
  pr_node :: "'d node"
  pr_pss :: pss_state

definition views_of :: "pss_state \<Rightarrow> peer_data views" where
  "views_of s = \<lparr>have_peer_from_slice = (\<lambda>sl. pss_have_peer_from_slice sl s),
     get_slice_local_view = pss_get_slice_local_view s, get_view = pss_get_view s\<rparr>"

datatype peer_event =
    Handle kv_message
  | Start
  | Recover "attempt list"
  | Round
  | Gossip
  | Gossip_message pss_message

inductive peer_step :: "'d env \<Rightarrow> bool \<Rightarrow> 'd peer \<Rightarrow> peer_event \<Rightarrow> 'd peer \<Rightarrow> bool" for E recover_database where
  handle: "pr_phase p = Operating \<Longrightarrow> process_message E (views_of (pr_pss p)) lucky junk msg (pr_node p) = (r, nd') \<Longrightarrow>
    peer_step E recover_database p (Handle msg) (p\<lparr>pr_node := nd'\<rparr>)"
| start: "pr_phase p = Starting \<Longrightarrow>
    peer_step E recover_database p Start
      (p\<lparr>pr_phase := phase_starting (gc_has_recovered (ps_group (pr_pss p))) recover_database Starting\<rparr>)"
| recover: "pr_phase p = Recovering \<Longrightarrow> phase_recovering E as (store (pr_node p)) = (ph, st) \<Longrightarrow>
    peer_step E recover_database p (Recover as) (p\<lparr>pr_phase := ph, pr_node := (pr_node p)\<lparr>store := st\<rparr>\<rparr>)"
| round: "pr_phase p = Operating \<Longrightarrow>
    phase_operating E byte_size percentage pick pick_deleted (views_of (pr_pss p)) (pr_node p) = (r, nd') \<Longrightarrow>
    peer_step E recover_database p Round (p\<lparr>pr_node := nd'\<rparr>)"
| gossip: "pss_round shuffle cycles (pr_pss p) = (acts, s') \<Longrightarrow>
    peer_step E recover_database p Gossip (p\<lparr>pr_pss := s'\<rparr>)"
| gossip_message: "process_msg shuffle junk_port m (pr_pss p) (store (pr_node p)) = (acts, s', st') \<Longrightarrow>
    peer_step E recover_database p (Gossip_message m) (p\<lparr>pr_pss := s', pr_node := (pr_node p)\<lparr>store := st'\<rparr>\<rparr>)"

inductive peer_run :: "'d env \<Rightarrow> bool \<Rightarrow> 'd peer \<Rightarrow> peer_event list \<Rightarrow> 'd peer \<Rightarrow> bool" for E recover_database p where
  run_nil: "peer_run E recover_database p [] p"
| run_snoc: "peer_run E recover_database p es p' \<Longrightarrow> peer_step E recover_database p' e p'' \<Longrightarrow>
    peer_run E recover_database p (es @ [e]) p''"

text \<open>The keys of which an event may remove versions.\<close>

fun recv_removes :: "recv \<Rightarrow> string set" where
  "recv_removes (Received msg) =
     (case body msg of Recover_data_msg sk data \<Rightarrow> if sk_is_deleted sk then {pk_key (sk_key sk)} else {} | _ \<Rightarrow> {})"
| "recv_removes _ = {}"

fun attempt_removes :: "attempt \<Rightarrow> string set" where
  "attempt_removes (Connected evs) = \<Union> (recv_removes ` set evs)"
| "attempt_removes _ = {}"

fun event_removes :: "'d env \<Rightarrow> peer_event \<Rightarrow> string set" where
  "event_removes E (Handle msg) = removes E msg"
| "event_removes E (Recover as) = \<Union> (attempt_removes ` set as)"
| "event_removes E _ = {}"

section \<open>No step forgets, and no store operation moves the partition\<close>

definition good_step :: "'d env \<Rightarrow> string set \<Rightarrow> 'd kv_store \<Rightarrow> 'd kv_store \<Rightarrow> bool" where
  "good_step E K st st' \<longleftrightarrow> store_wf E st' \<and> main_keeps E K st st' \<and> deleted_keeps E st st'"

lemma main_keeps_mono: "main_keeps E K st st' \<Longrightarrow> K \<subseteq> K' \<Longrightarrow> main_keeps E K' st st'"
  unfolding main_keeps_def by blast

lemma good_step_trans:
  "good_step E K a b \<Longrightarrow> good_step E K' b c \<Longrightarrow> good_step E (K \<union> K') a c"
  unfolding good_step_def by (meson keeps_trans main_keeps_mono Un_upper1 Un_upper2)

lemma good_step_mono: "good_step E K st st' \<Longrightarrow> K \<subseteq> K' \<Longrightarrow> good_step E K' st st'"
  unfolding good_step_def using main_keeps_mono by blast

lemma good_step_refl [simp]: "good_step E K st st = store_wf E st"
  by (simp add: good_step_def)

lemma good_step_same: "store_wf E st \<Longrightarrow> same_dbs st st' \<Longrightarrow> good_step E K st st'"
  using same_dbs_keeps[of st st'] store_wf_cong[of st' st E] by (simp add: good_step_def same_dbs_def)

lemma recover_one_good:
  assumes "env_ok E" "store_wf E st"
  shows "good_step E (if sk_is_deleted sk then {pk_key (sk_key sk)} else {}) st (snd (recover_one E sk data st))"
    "same_place st (snd (recover_one E sk data st))"
  using put_wf[OF assms] kv_remove_wf[OF assms] put_keeps[OF assms] kv_remove_keeps[OF assms(1)]
    kv_remove_deleted_keeps[OF assms(1)] keeps_same_db(2)[OF put_deleted_same] put_place kv_remove_place
  by (auto simp: good_step_def recover_one_def key_of_store_key_def Let_def)

lemma recover_state_good:
  assumes "env_ok E" "store_wf E st"
  shows "good_step E (\<Union> (recv_removes ` set evs)) st (snd (recover_state E evs st)) \<and> same_place st (snd (recover_state E evs st))"
  using assms
proof (induction E evs st rule: recover_state.induct)
  case (4 E msg evs st)
  show ?case
  proof (cases "\<exists>sk data. body msg = Recover_data_msg sk data")
    case True
    then obtain sk data where b: "body msg = Recover_data_msg sk data" by blast
    obtain r st1 where r: "recover_one E sk data st = (r, st1)" by fastforce
    have g1: "good_step E (recv_removes (Received msg)) st st1" "same_place st st1"
      using recover_one_good[OF "4.prems", of sk data] r by (simp_all add: b)
    then have wf1: "store_wf E st1" by (simp add: good_step_def)
    show ?thesis
    proof (cases "r = Hang")
      case True
      then show ?thesis using b r g1 by (auto intro: good_step_mono)
    next
      case False
      then have e: "recover_state E (Received msg # evs) st = recover_state E evs st1" using b r by (cases r) auto
      have "good_step E (\<Union> (recv_removes ` set evs)) st1 (snd (recover_state E evs st1)) \<and>
          same_place st1 (snd (recover_state E evs st1))"
        using "4.IH" b r False "4.prems"(1) wf1 by (cases r) auto
      then show ?thesis
        unfolding e using good_step_trans[OF g1(1)] same_place_trans[OF g1(2)] by simp
    qed
  next
    case False
    then show ?thesis using "4.IH" "4.prems" by (cases "body msg") (auto intro: good_step_mono)
  qed
qed auto

lemma phase_recovering_good:
  assumes "env_ok E" "store_wf E st"
  shows "good_step E (\<Union> (attempt_removes ` set as)) st (snd (phase_recovering E as st)) \<and>
    same_place st (snd (phase_recovering E as st))"
  using assms
proof (induction E as st rule: phase_recovering.induct)
  case (4 E evs as st)
  obtain r st1 where r: "recover_state E evs st = (r, st1)" by fastforce
  have g1: "good_step E (attempt_removes (Connected evs)) st st1" "same_place st st1"
    using recover_state_good[OF "4.prems", of evs] r by simp_all
  then have wf1: "store_wf E st1" by (simp add: good_step_def)
  show ?case
  proof (cases "r = Some False")
    case True
    then have e: "phase_recovering E (Connected evs # as) st = phase_recovering E as st1" using r by simp
    have "good_step E (\<Union> (attempt_removes ` set as)) st1 (snd (phase_recovering E as st1)) \<and>
        same_place st1 (snd (phase_recovering E as st1))"
      using "4.IH" r True "4.prems"(1) wf1 by auto
    then show ?thesis unfolding e using good_step_trans[OF g1(1)] same_place_trans[OF g1(2)] by simp
  next
    case False
    then have "snd (phase_recovering E (Connected evs # as) st) = st1" using r by (auto split: option.splits bool.splits)
    then show ?thesis using g1 good_step_mono by fastforce
  qed
qed auto

lemma recover_state_termination:
  "recover_state E evs st = (Some True, st') \<Longrightarrow> \<exists>msg. Received msg \<in> set evs \<and> body msg = Recover_termination_msg"
proof (induction evs arbitrary: st)
  case (Cons ev evs)
  then show ?case
    by (cases ev) (fastforce split: kv_body.splits prod.splits res.splits dest: Cons.IH)+
qed simp

lemma recovered_by_termination:
  "phase_recovering E as st = (Operating, st') \<Longrightarrow>
     \<exists>evs msg. Connected evs \<in> set as \<and> Received msg \<in> set evs \<and> body msg = Recover_termination_msg"
proof (induction as arbitrary: st)
  case (Cons a as)
  show ?case
  proof (cases a)
    case (Connected evs)
    then show ?thesis
      using Cons recover_state_termination[of E evs st]
      by (auto split: prod.splits option.splits bool.splits if_splits) (metis)+
  qed (use Cons in \<open>auto dest!: Cons.IH\<close>)
qed simp

section \<open>Placement under the handlers\<close>

lemma put_metadata_child_place: "same_place st (snd (put_metadata_child E k c cr d st))"
  unfolding put_metadata_child_def Let_def by (auto intro!: on_ret_place split: option.splits)

lemma tmp_place:
  "same_place st (snd (tmp_put E k b st))"
  "same_place st (snd (delete_metadata_from_tmp_anti_entropy E b2 kc n st))"
  by (simp_all add: tmp_put_def delete_metadata_from_tmp_anti_entropy_def same_place_def Let_def split: prod.splits)

lemma put_tmp_place:
  "same_place st (snd (put_tmp_anti_entropy E b k d st))" "same_place st (snd (put_tmp_key_entry_size E k n st))"
  by (auto intro!: on_ret_place tmp_place
      simp: put_tmp_anti_entropy_def put_tmp_key_entry_size_def Let_def split: prod.splits)

lemma case_place:
  "same_place s (snd x) \<Longrightarrow> same_place s (snd (case x of (r, st') \<Rightarrow> on_ret st' r (\<lambda>_. (a, st'))))"
  by (cases x) (auto intro: on_ret_place)

lemma get_incomplete_place: "same_place st (snd (get_incomplete_blks E k n st))"
  unfolding get_incomplete_blks_def Let_def
  by (auto intro!: on_ret_place case_place tmp_place split: ldb_result.splits)

lemma check_blks_place: "same_place st (snd (check_if_have_all_blks_and_put_metadata E b k n st))"
  unfolding check_if_have_all_blks_and_put_metadata_def Let_def
  by (auto intro!: on_ret_place case_place put_place kv_remove_place split: option.splits)

lemma incorporate_blk_place: "same_place st (snd (incorporate_blk E k d st))"
proof -
  let ?b = "snd (get_base_path (regex_search E) (key k) [])"
  obtain r1 st1 where s1: "put_tmp_anti_entropy E ?b k d st = (r1, st1)" by fastforce
  then have p1: "same_place st st1" using put_tmp_place(1) by (metis snd_conv)
  have 2: "same_place st st2" if "check_if_have_all_blks_and_put_metadata E ?b k n st1 = (r2, st2)" for n r2 st2
    using check_blks_place[of st1 E ?b k n] that same_place_trans[OF p1] by simp
  have 3: "same_place st (snd (delete_metadata_from_tmp_anti_entropy E ?b k n st2))" if "same_place st st2" for n st2
    using same_place_trans[OF that tmp_place(2)] .
  show ?thesis unfolding incorporate_blk_def Let_def s1 prod.case
    by (auto intro!: on_ret_place p1 3 dest!: 2 split: option.splits prod.splits)
qed

lemma request_keys_place: "request_keys E m keys blks nd = (acts, r, nd') \<Longrightarrow> same_place (store nd) (store nd')"
proof (induction keys arbitrary: blks nd acts r nd')
  case (Cons p keys)
  obtain k sz where p: "p = (k, sz)" by (cases p)
  show ?case
  proof (cases "f_type k = DIRECTORY \<and> sz > BLK_SIZE")
    case True
    obtain r1 st1 where s1: "get_incomplete_blks E k sz (store nd) = (r1, st1)" by fastforce
    have 1: "same_place (store nd) st1" using get_incomplete_place[of "store nd" E k sz] s1 by simp
    show ?thesis
    proof (cases r1)
      case (Ret q)
      obtain inc new_blks where q: "q = (inc, new_blks)" by (cases q)
      obtain r2 st2 where s2: "(if inc then (Ret True, st1) else put_tmp_key_entry_size E k sz st1) = (r2, st2)" by fastforce
      have 2: "same_place (store nd) st2"
        using 1 s2 put_tmp_place(2)[of st1 E k sz] by (auto split: if_splits intro: same_place_trans)
      show ?thesis
        using Cons.prems(1) True s1 s2 Ret q p 2
        by (auto simp: Let_def split: res.splits prod.splits dest!: request_blks_wf Cons.IH intro: same_place_trans)
    qed (use Cons.prems True s1 1 p in \<open>auto split: prod.splits\<close>)
  next
    case False
    then show ?thesis using Cons.prems p by (auto split: prod.splits dest!: next_req_wf Cons.IH)
  qed
qed simp

lemma log_place [simp]:
  "same_place s (log_req r st) = same_place s st" "same_place s (log_anti_entropy_req r st) = same_place s st"
  by (simp_all add: same_place_def)

lemma read_handlers_place:
  "same_place (store nd) (store (snd (process_get_message E V lucky msg m1 nd)))"
  "same_place (store nd) (store (snd (process_get_latest_version_msg E V lucky msg m2 nd)))"
  "same_place (store nd) (store (snd (process_get_latest_metadata_stat_msg E V lucky msg m3 nd)))"
  "same_place (store nd) (store (snd (process_get_latest_metadata_size_msg E V lucky msg m3 nd)))"
  "same_place (store nd) (store (snd (process_get_metadata_message E V lucky msg m4 nd)))"
  "same_place (store nd) (store (snd (process_anti_entropy_get_message E V junk msg m5 nd)))"
  "same_place (store nd) (store (snd (process_anti_entropy_get_metadata_message E V junk msg m5 nd)))"
  by (simp_all add: process_get_message_def process_get_latest_version_msg_def process_get_latest_metadata_stat_msg_def
      process_get_latest_metadata_size_msg_def process_get_metadata_message_def process_anti_entropy_get_message_def
      process_anti_entropy_get_metadata_message_def latest_handler_def Let_def)

lemma write_handlers_place:
  "same_place (store nd) (store (snd (process_put_message E V lucky msg m1 nd)))"
  "same_place (store nd) (store (snd (process_delete_message E V lucky msg m2 nd)))"
  "same_place (store nd) (store (snd (process_put_child_message E V lucky msg m3 nd)))"
  "same_place (store nd) (store (snd (process_anti_entropy_get_reply_message E junk m4 nd)))"
  "same_place (store nd) (store (snd (process_anti_entropy_get_metadata_reply_message E junk m4 nd)))"
  by (auto simp: process_put_message_def process_delete_message_def process_put_child_message_def write_handler_snd
      process_anti_entropy_get_reply_message_def process_anti_entropy_get_metadata_reply_message_def Let_def
      put_place kv_remove_place put_metadata_child_place incorporate_blk_place)

lemma anti_entropy_message_place: "same_place (store nd) (store (snd (process_anti_entropy_message E m nd)))"
  by (auto simp: process_anti_entropy_message_def split: prod.splits res.splits
      dest!: request_deleted_wf dest: request_keys_place)

lemma process_message_place: "same_place (store nd) (store (snd (process_message E V lucky junk msg nd)))"
  by (cases "body msg"; simp only: process_message.simps kv_body.case same_place_refl snd_conv
      read_handlers_place write_handlers_place anti_entropy_message_place)

section \<open>The rounds of anti-entropy\<close>

text \<open>Counting and sampling keys only moves counters.\<close>

definition quiet :: "'d kv_store \<Rightarrow> 'd kv_store \<Rightarrow> bool" where
  "quiet st st' \<longleftrightarrow> same_dbs st st' \<and> same_place st st'"

lemma quiet_trans: "quiet a b \<Longrightarrow> quiet b c \<Longrightarrow> quiet a c"
  unfolding quiet_def using same_dbs_trans same_place_trans by blast

lemma quiet_counters [simp]:
  "quiet st st" "quiet st (st\<lparr>record_count := n\<rparr>)" "quiet st (st\<lparr>deleted_record_count := n\<rparr>)"
  "quiet st (st\<lparr>record_count_cycle := n\<rparr>)" "quiet st (st\<lparr>deleted_record_count_cycle := n\<rparr>)"
  by (simp_all add: quiet_def same_dbs_def same_place_def)

lemma on_ret_quiet: "quiet s st \<Longrightarrow> (\<And>a. m = Ret a \<Longrightarrow> quiet s (snd (f a))) \<Longrightarrow> quiet s (snd (on_ret st m f))"
  by (cases m) auto

lemma refresh_quiet: "quiet st (snd (refresh_nr_main_keys_count E st))" "quiet st (snd (refresh_nr_deleted_keys_count E st))"
  unfolding refresh_nr_main_keys_count_def refresh_nr_deleted_keys_count_def by (auto intro!: on_ret_quiet)

lemma get_keys_quiet: "quiet st (snd (get_keys E pick st))"
proof -
  let ?st1 = "st\<lparr>record_count_cycle := record_count_cycle st + 1\<rparr>"
  let ?x = "if record_count_cycle st mod record_refresh_rate = 0 then refresh_nr_main_keys_count E ?st1 else (Ret (), ?st1)"
  obtain r st2 where x: "?x = (r, st2)" by fastforce
  have "quiet ?st1 (snd ?x)" using refresh_quiet(1)[of ?st1 E] by simp
  then have "quiet st (snd ?x)" by (rule quiet_trans[OF quiet_counters(4)])
  then have "quiet st st2" by (simp only: x snd_conv)
  then show ?thesis unfolding get_keys_def Let_def x prod.case by (auto intro!: on_ret_quiet)
qed

lemma get_deleted_keys_quiet: "quiet st (snd (get_deleted_keys E pick st))"
proof -
  let ?st1 = "st\<lparr>deleted_record_count_cycle := deleted_record_count_cycle st + 1\<rparr>"
  let ?x = "if deleted_record_count_cycle st mod record_refresh_rate = 0 then refresh_nr_deleted_keys_count E ?st1 else (Ret (), ?st1)"
  obtain r st2 where x: "?x = (r, st2)" by fastforce
  have "quiet ?st1 (snd ?x)" using refresh_quiet(2)[of ?st1 E] by simp
  then have "quiet st (snd ?x)" by (rule quiet_trans[OF quiet_counters(5)])
  then have "quiet st st2" by (simp only: x snd_conv)
  then show ?thesis unfolding get_deleted_keys_def Let_def x prod.case by (auto intro!: on_ret_quiet)
qed

lemma phase_operating_quiet: "quiet (store nd) (store (snd (phase_operating E sz pc pick pick_deleted V nd)))"
proof -
  obtain r1 st1 where k: "get_keys E pick (store nd) = (r1, st1)" by fastforce
  obtain r2 st2 where d: "get_deleted_keys E pick_deleted st1 = (r2, st2)" by fastforce
  have 1: "quiet (store nd) st1" using get_keys_quiet[of "store nd" E pick] k by simp
  moreover have "quiet (store nd) st2" using quiet_trans[OF 1] get_deleted_keys_quiet[of st1 E pick_deleted] d by simp
  ultimately show ?thesis unfolding phase_operating_def k d Let_def prod.case by (auto intro!: on_ret_quiet)
qed

section \<open>Runs\<close>

text \<open>The invariant of a peer.\<close>

definition peer_wf :: "'d env \<Rightarrow> 'd peer \<Rightarrow> bool" where
  "peer_wf E p \<longleftrightarrow> store_wf E (store (pr_node p)) \<and> pss_wf (pr_pss p) \<and> gc_wf (ps_group (pr_pss p)) (store (pr_node p))"

lemma gc_wf_place: "gc_wf g st \<Longrightarrow> same_place st st' \<Longrightarrow> gc_wf g st'"
  by (simp add: gc_wf_def same_place_def)

lemma update_partition_dbs [simp]: "db (update_partition a n st) = db st" "db_deleted (update_partition a n st) = db_deleted st"
  by (simp_all add: update_partition_def clear_seen_log_def clear_seen_deleted_log_def)

lemma gc_same_dbs:
  "gc_receive_message ps g st = (acts, g', st') \<Longrightarrow> same_dbs st st'"
  "receive_local_message ps g st = (acts, g', st') \<Longrightarrow> same_dbs st st'"
  by (auto simp: gc_receive_message_def receive_local_message_def recover_local_view_def regroup_def Let_def same_dbs_def
      split: if_splits)

lemma process_msg_same: "process_msg shuffle junk m s st = (acts, s', st') \<Longrightarrow> same_dbs st st'"
  by (cases "ps_type m") (auto simp: process_msg_def Let_def split: prod.splits dest: gc_same_dbs)

lemma peer_step_good:
  assumes "peer_step E rd p e p'" "env_ok E" "peer_wf E p"
  shows "peer_wf E p' \<and> good_step E (event_removes E e) (store (pr_node p)) (store (pr_node p'))"
  using assms
proof (cases rule: peer_step.cases)
  case (handle lucky junk msg r nd')
  have wf: "store_wf E (store (pr_node p))" using assms(3) by (simp add: peer_wf_def)
  have "good_step E (removes E msg) (store (pr_node p)) (store nd')"
    using process_message_wf[OF assms(2) wf, of "views_of (pr_pss p)" lucky junk msg] handle(4)
      process_message_keeps(1)[OF assms(2) wf, of msg "views_of (pr_pss p)" lucky junk]
      process_message_keeps(2)[OF assms(2) wf, of "views_of (pr_pss p)" lucky junk msg]
    by (simp add: good_step_def)
  moreover have "same_place (store (pr_node p)) (store nd')"
    using process_message_place[of "pr_node p" E "views_of (pr_pss p)" lucky junk msg] handle(4) by simp
  ultimately show ?thesis using assms(3) handle gc_wf_place by (auto simp: peer_wf_def good_step_def)
next
  case (recover as ph st)
  have wf: "store_wf E (store (pr_node p))" using assms(3) by (simp add: peer_wf_def)
  show ?thesis using phase_recovering_good[OF assms(2) wf, of as] recover assms(3) gc_wf_place
    by (auto simp: peer_wf_def good_step_def)
next
  case (round sz pc pick pick_deleted r nd')
  have wf: "store_wf E (store (pr_node p))" using assms(3) by (simp add: peer_wf_def)
  have "quiet (store (pr_node p)) (store nd')" 
    using phase_operating_quiet[of "pr_node p" E sz pc pick pick_deleted "views_of (pr_pss p)"] round(4) by simp
  then show ?thesis using round assms(3) gc_wf_place good_step_same[OF wf] by (auto simp: peer_wf_def quiet_def good_step_def)
next
  case (gossip shuffle cycles acts s')
  then show ?thesis using assms(3) pss_round_wf[of "pr_pss p" shuffle cycles acts s'] pss_round_group[of shuffle cycles "pr_pss p"]
    by (auto simp: peer_wf_def)
next
  case (gossip_message shuffle jp m acts s' st')
  have wf: "store_wf E (store (pr_node p))" using assms(3) by (simp add: peer_wf_def)
  show ?thesis
    using process_msg_same[OF gossip_message(3)] process_msg_wf[OF _ _ gossip_message(3)] good_step_same[OF wf] assms(3) gossip_message(1,2)
    by (auto simp: peer_wf_def good_step_def)
qed (use assms(3) in \<open>auto simp: peer_wf_def\<close>)

lemma peer_run_good:
  assumes "peer_run E rd p es p'" "env_ok E" "peer_wf E p"
  shows "peer_wf E p' \<and> good_step E (\<Union> (event_removes E ` set es)) (store (pr_node p)) (store (pr_node p'))"
  using assms
proof (induction rule: peer_run.induct)
  case run_nil
  then show ?case by (simp add: peer_wf_def)
next
  case (run_snoc es p' e p'')
  then have 1: "peer_wf E p'" "good_step E (\<Union> (event_removes E ` set es)) (store (pr_node p)) (store (pr_node p'))" by simp_all
  have 2: "peer_wf E p''" "good_step E (event_removes E e) (store (pr_node p')) (store (pr_node p''))"
    using peer_step_good[OF run_snoc.hyps(2) run_snoc.prems(1) 1(1)] by simp_all
  show ?case using good_step_trans[OF 1(2) 2(2)] 2(1) by (simp add: Un_commute)
qed

text \<open>
  C4. Durability over a whole run. Along every interleaving of requests, gossip, anti-entropy and recovery, whatever the outcomes of
  the database, the network and the random draws: the databases of a peer stay readable, its partition agrees with its group,
  its views stay well formed; a version that is covered once stays covered as long as no event of the run carries a
  deletion of its key; a recorded deletion is never forgotten.
\<close>

theorem run_never_forgets:
  assumes "peer_run E recover_database p es p'" "env_ok E" "peer_wf E p"
  shows "peer_wf E p' \<and>
    (\<forall>k w. (\<forall>e\<in>set es. k \<notin> event_removes E e) \<longrightarrow> covers (stored E (store (pr_node p)) k) w \<longrightarrow>
       covers (stored E (store (pr_node p')) k) w) \<and>
    (\<forall>k w. covers (deleted_entries E (store (pr_node p)) k) w \<longrightarrow> covers (deleted_entries E (store (pr_node p')) k) w)"
  using peer_run_good[OF assms] unfolding good_step_def main_keeps_def deleted_keeps_def by blast

definition was_recovered :: "peer_event list \<Rightarrow> bool" where
  "was_recovered es \<longleftrightarrow> (\<exists>as evs msg. Recover as \<in> set es \<and> Connected evs \<in> set as \<and> Received msg \<in> set evs \<and>
     body msg = Recover_termination_msg)"

lemma was_recovered_append: "was_recovered es \<Longrightarrow> was_recovered (es @ es')"
  by (auto simp: was_recovered_def)

lemma step_phase:
  "peer_step E True p e p' \<Longrightarrow> pr_phase p' = Operating \<Longrightarrow> pr_phase p = Operating \<or> was_recovered [e]"
  by (cases rule: peer_step.cases, assumption)
    (auto simp: was_recovered_def phase_starting_def dest!: recovered_by_termination split: if_splits)

lemma run_phase:
  "peer_run E True p es p' \<Longrightarrow> pr_phase p = Starting \<Longrightarrow> pr_phase p' = Operating \<Longrightarrow> was_recovered es"
proof (induction rule: peer_run.induct)
  case (run_snoc es p' e p'')
  from step_phase[OF run_snoc.hyps(2) run_snoc.prems(2)] show ?case
  proof
    assume "pr_phase p' = Operating"
    then show ?thesis using run_snoc.IH run_snoc.prems(1) was_recovered_append by blast
  next
    assume "was_recovered [e]"
    then show ?thesis by (auto simp: was_recovered_def)
  qed
qed simp

text \<open>
  C22. A peer configured to recover its database serves nobody before it has: in every run from the start in which a request
  is handled or keys are offered, some attempt to recover before that received the termination message of a state transfer.
\<close>

theorem recovers_before_serving:
  assumes "peer_run E True p (es @ e # es') p'" "pr_phase p = Starting" "e = Round \<or> (\<exists>msg. e = Handle msg)"
  shows "was_recovered es"
proof -
  have "\<exists>q q'. peer_run E True p es q \<and> peer_step E True q e q'"
    using assms(1)
  proof (induction "es @ e # es'" p' arbitrary: es' rule: peer_run.induct)
    case (run_snoc es0 q f q')
    show ?case
    proof (cases es' rule: rev_exhaust)
      case Nil
      then show ?thesis using run_snoc.hyps by auto
    next
      case (snoc xs x)
      then show ?thesis using run_snoc.hyps(2)[of xs] run_snoc.hyps(4) by simp
    qed
  qed simp
  then obtain q q' where q: "peer_run E True p es q" "peer_step E True q e q'" by blast
  have "pr_phase q = Operating" using q(2) assms(3) by (auto elim: peer_step.cases)
  then show ?thesis using run_phase[OF q(1) assms(2)] by blast
qed

end
