(* ===== verification/Node_Witnesses.thy ===== *)
theory Node_Witnesses
  imports Store_Witnesses Peer
begin

text \<open>
  The properties of the peer applied to concrete nodes over the reference environment.
\<close>

section \<open>A node and its messages\<close>

type_synonym ref_db = "(string, bytes) smap"

definition ref_node :: "ref_db kv_store \<Rightarrow> ref_db node" where
  "ref_node st = \<lparr>nd_ip = ''10.0.0.9'', nd_port = 5, nd_id = 9, smart_forward = False, store = st, anti_entropy_req_count = 0\<rparr>"

definition no_views :: "peer_data views" where
  "no_views = \<lparr>have_peer_from_slice = (\<lambda>_. []), get_slice_local_view = [], get_view = []\<rparr>"

definition put_req :: put_message where
  "put_req = \<lparr>m_ip = ''10.0.0.2'', m_port = 7, m_id = 1, pm_key = key_msg ''/a'' ver1, pm_type = FILE, pm_data = ''x'',
     pm_extra_reply = False\<rparr>"

definition delete_req :: delete_message where
  "delete_req = \<lparr>m_ip = ''10.0.0.2'', m_port = 7, m_id = 1, dm_key = key_msg ''/a'' ver1, dm_type = FILE, dm_extra_reply = False\<rparr>"

definition to_msg :: "kv_body \<Rightarrow> kv_message" where
  "to_msg b = \<lparr>forwarded_within_group = False, body = b\<rparr>"

lemmas node_defs = ref_node_def no_views_def put_req_def delete_req_def to_msg_def

lemma fresh_store [simp]: "\<not> have_seen ref_store k" "\<not> have_seen_deleted ref_store k"
  by (simp_all add: have_seen_def have_seen_deleted_def ref_store_def)

lemma fkey_eq: "\<lparr>key = ''/a'', version = v, f_type = FILE, is_deleted = False\<rparr> = fkey v"
  by (simp add: fkey_def)

lemma put_run:
  obtains st1 where "put ref_env (fkey ver1) ''x'' ref_store = (Ret True, st1)" "ready st1"
  using put_file_ref[of ref_store "fkey ver1" "''x''"] by auto

lemma put_handled:
  assumes "put ref_env (fkey ver1) ''x'' ref_store = (Ret True, st1)"
  shows "\<exists>acts. process_put_message ref_env no_views True (to_msg (Put_msg put_req)) put_req (ref_node ref_store) =
      (Ret acts, ref_node st1) \<and> (\<exists>r. Reply_client ''10.0.0.2'' 7 r \<in> set acts)"
  using assms
  by (simp add: process_put_message_def write_handler_def Let_def node_defs fkey_eq catch_exn_def reply_client_def)

theorem acknowledged_put_witness:
  "\<exists>acts nd'. process_put_message ref_env no_views True (to_msg (Put_msg put_req)) put_req (ref_node ref_store) = (Ret acts, nd') \<and>
     covers (stored ref_env (store nd') ''/a'') ver1"
proof -
  obtain st1 where st1: "put ref_env (fkey ver1) ''x'' ref_store = (Ret True, st1)" by (rule put_run)
  then obtain acts r where a: "process_put_message ref_env no_views True (to_msg (Put_msg put_req)) put_req (ref_node ref_store) =
      (Ret acts, ref_node st1)" "Reply_client ''10.0.0.2'' 7 r \<in> set acts" using put_handled by blast
  have "store_wf ref_env (store (ref_node ref_store))" by (simp add: ref_node_def)
  from acknowledged_put[OF env_ok_ref this a] have "covers (stored ref_env (store (ref_node st1)) ''/a'') ver1"
    by (simp add: put_req_def ref_node_def fkey_eq)
  with a(1) show ?thesis by blast
qed

lemma accepts_ref [simp]: "accepts_writes ref_env"
  by (simp add: accepts_writes_def)

theorem acknowledged_delete_witness:
  "\<exists>acts nd'. process_delete_message ref_env no_views True (to_msg (Delete_msg delete_req)) delete_req (ref_node ref_store) =
      (Ret acts, nd') \<and> covers (deleted_entries ref_env (store nd') ''/a'') ver1"
proof -
  let ?k = "\<lparr>key = ''/a'', version = ver1, f_type = FILE, is_deleted = True\<rparr>"
  have "fst (kv_remove ref_env ?k ref_store) = Ret True"
    by (rule kv_remove_accepted) (simp_all add: ready_slice)
  then obtain st1 where st1: "kv_remove ref_env ?k ref_store = (Ret True, st1)" by (metis prod.collapse)
  then have "\<exists>acts. process_delete_message ref_env no_views True (to_msg (Delete_msg delete_req)) delete_req (ref_node ref_store) =
      (Ret acts, ref_node st1) \<and> (\<exists>r. Reply_client ''10.0.0.2'' 7 r \<in> set acts)"
    by (simp add: process_delete_message_def write_handler_def Let_def node_defs catch_exn_def reply_client_def)
  then obtain acts r where a: "process_delete_message ref_env no_views True (to_msg (Delete_msg delete_req)) delete_req (ref_node ref_store) =
      (Ret acts, ref_node st1)" "Reply_client ''10.0.0.2'' 7 r \<in> set acts" by blast
  have wf: "store_wf ref_env (store (ref_node ref_store))" by (simp add: ref_node_def)
  have "\<not> have_seen_deleted (store (ref_node ref_store)) \<lparr>key = pk_key (dm_key delete_req), version = version_of_msg (dm_key delete_req),
      f_type = dm_type delete_req, is_deleted = True\<rparr>" by (simp add: ref_node_def)
  with acknowledged_delete[OF env_ok_ref wf a] have "covers (deleted_entries ref_env (store (ref_node st1)) ''/a'') ver1"
    by (simp add: delete_req_def)
  with a(1) show ?thesis by blast
qed

text \<open>A node that holds a version handles a read request.\<close>

theorem peer_never_forgets_witness:
  "\<exists>st1 r nd'. put ref_env (fkey ver1) ''x'' ref_store = (Ret True, st1) \<and>
     process_message ref_env no_views True FILE (to_msg (Put_msg put_req)) (ref_node st1) = (r, nd') \<and>
     store_wf ref_env (store nd') \<and> covers (stored ref_env (store nd') ''/a'') ver1"
proof -
  obtain st1 where st1: "put ref_env (fkey ver1) ''x'' ref_store = (Ret True, st1)" "ready st1" by (rule put_run)
  have cov: "covers (stored ref_env (store (ref_node st1)) ''/a'') ver1"
    using put_covers[OF env_ok_ref store_wf_ref st1(1)] by (simp add: ref_node_def)
  obtain r nd' where h: "process_message ref_env no_views True FILE (to_msg (Put_msg put_req)) (ref_node st1) = (r, nd')" by fastforce
  have wf: "store_wf ref_env (store (ref_node st1))" using st1(2) by (simp add: ready_def ref_node_def)
  have "''/a'' \<notin> removes ref_env (to_msg (Put_msg put_req))" by (simp add: removes.simps to_msg_def)
  with peer_never_forgets[OF env_ok_ref wf h] cov have "store_wf ref_env (store nd') \<and> covers (stored ref_env (store nd') ''/a'') ver1"
    by blast
  with st1(1) h show ?thesis by blast
qed

section \<open>Recovery\<close>

definition recover_req :: recover_request_message where
  "recover_req = \<lparr>m_ip = ''10.0.0.2'', m_port = 0, m_id = 0, rr_recover_port = 4, rr_nr_slices = 1, rr_slice = 1\<rparr>"

theorem recovered_peer_has_everything_witness:
  "\<exists>st1 dst'. put ref_env (fkey ver1) ''x'' ref_store = (Ret True, st1) \<and>
     recover_state ref_env (map Received (process_recover_request_msg ref_env 1 1 True (Ret ()) recover_req (ref_node st1)) @ [Disconnected]) ref_store =
       (Some True, dst') \<and> covers (stored ref_env dst' ''/a'') ver1"
proof -
  obtain st1 where st1: "put ref_env (fkey ver1) ''x'' ref_store = (Ret True, st1)" "ready st1" by (rule put_run)
  have wf: "store_wf ref_env (store (ref_node st1))" using st1(2) by (simp add: ready_def ref_node_def)
  have del: "deleted_value ref_env (store (ref_node st1)) ''/a'' = None"
    using put_file_stored(3)[OF env_ok_ref store_wf_ref _ st1(1)] ref_values(2)[of "''/a''"] by (simp add: ref_node_def)
  have "\<exists>dst'. recover_state ref_env (map Received (process_recover_request_msg ref_env 1 1 True (Ret ()) recover_req (ref_node st1)) @ [Disconnected]) ref_store =
      (Some (Ret () = (Ret () :: unit res)), dst') \<and> store_wf ref_env dst' \<and>
    (\<forall>k w. deleted_value ref_env (store (ref_node st1)) k = None \<longrightarrow> covers (stored ref_env (store (ref_node st1)) k) w \<longrightarrow>
       covers (stored ref_env dst' k) w) \<and>
    (\<forall>k w. covers (stored_deleted ref_env (store (ref_node st1)) k) w \<longrightarrow> covers (deleted_entries ref_env dst' k) w)"
    by (rule recovered_peer_has_everything[OF accepts_ref env_ok_ref wf store_wf_ref])
      (auto simp: recover_req_def ready_slice)
  moreover have "covers (stored ref_env (store (ref_node st1)) ''/a'') ver1"
    using put_covers[OF env_ok_ref store_wf_ref st1(1)] by (simp add: ref_node_def)
  ultimately show ?thesis using st1(1) del unfolding simp_thms by blast
qed

section \<open>Rounds and runs\<close>

text \<open>A node that holds a version and whose counters are not due for a refresh.\<close>

definition offering :: "ref_db kv_store \<Rightarrow> ref_db kv_store" where
  "offering st = st\<lparr>record_count_cycle := 1, deleted_record_count_cycle := 1, record_count := 2, deleted_record_count := 0\<rparr>"

theorem anti_entropy_round_witness:
  "\<exists>st main_keys deleted_keys st1 st2 acts.
     get_keys ref_env (\<lambda>_. 0) (store (ref_node st)) = (Ret main_keys, st1) \<and>
     get_deleted_keys ref_env (\<lambda>_. 0) st1 = (Ret deleted_keys, st2) \<and>
     phase_operating ref_env (\<lambda>_. 100) 50 (\<lambda>_. 0) (\<lambda>_. 0) no_views (ref_node st) = (Ret acts, (ref_node st)\<lparr>store := st2\<rparr>) \<and>
     filter (\<lambda>k. \<not> sk_is_deleted k) (concat (map offers_of acts)) = map offer_main main_keys"
proof -
  obtain st where st: "put ref_env (fkey ver1) ''x'' ref_store = (Ret True, st)" "ready st" by (rule put_run)
  let ?st = "offering st"
  have wf: "db_wf ref_env (db st)" "db_wf ref_env (db_deleted st)" using st(2) by (simp_all add: ready_def store_wf_def)
  obtain ks where ks: "sample_keys ref_env 0 (\<lambda>_. 0) 2 (anti_entropy_max_keys_to_send_percentage st) 80 (db st) = Ret ks"
    using sample_keys_sound[OF env_ok_ref wf(1) ref_env_simps(6)] by blast
  obtain ds where ds: "sample_keys ref_env 1 (\<lambda>_. 0) 0 (anti_entropy_max_keys_to_send_percentage st) 20 (db_deleted st) = Ret ds"
    using sample_keys_sound[OF env_ok_ref wf(2) ref_env_simps(6)] by blast
  have g: "get_keys ref_env (\<lambda>_. 0) (store (ref_node ?st)) = (Ret ks, ?st\<lparr>record_count_cycle := 2\<rparr>)"
    using ks by (simp add: get_keys_def offering_def ref_node_def record_refresh_rate_def anti_entropy_num_keys_percentage_def)
  have d: "get_deleted_keys ref_env (\<lambda>_. 0) (?st\<lparr>record_count_cycle := 2\<rparr>) =
      (Ret (map fst ds), ?st\<lparr>record_count_cycle := 2, deleted_record_count_cycle := 2\<rparr>)"
    using ds by (simp add: get_deleted_keys_def offering_def record_refresh_rate_def anti_entropy_num_deleted_keys_percentage_def)
  have "0 \<le> (50 :: int)" by simp
  from anti_entropy_round[OF this g d, of "\<lambda>_. 100" no_views] g d show ?thesis by blast
qed

definition sample_peer :: "Phase \<Rightarrow> ref_db kv_store \<Rightarrow> ref_db peer" where
  "sample_peer ph st = \<lparr>pr_phase = ph, pr_node = ref_node st, pr_pss = sample_pss\<rparr>"

lemma sample_peer_wf: "ready st \<Longrightarrow> peer_wf ref_env (sample_peer ph st)"
  by (simp add: peer_wf_def sample_peer_def ref_node_def ready_def sample_pss_wf)
    (simp add: sample_pss_def sample_group_wf)

lemma handle_run:
  assumes "peer_run E rd q es p" "pr_phase p = Operating"
  shows "\<exists>p'. peer_run E rd q (es @ [Handle msg]) p'"
proof -
  obtain r nd' where "process_message E (views_of (pr_pss p)) True FILE msg (pr_node p) = (r, nd')" by fastforce
  then show ?thesis using run_snoc[OF assms(1) peer_step.handle[OF assms(2)]] by blast
qed

theorem run_never_forgets_witness:
  "\<exists>st p'. put ref_env (fkey ver1) ''x'' ref_store = (Ret True, st) \<and>
     peer_run ref_env True (sample_peer Operating st) [Handle (to_msg (Put_msg put_req))] p' \<and>
     covers (stored ref_env (store (pr_node p')) ''/a'') ver1"
proof -
  obtain st where st: "put ref_env (fkey ver1) ''x'' ref_store = (Ret True, st)" "ready st" by (rule put_run)
  let ?p = "sample_peer Operating st" and ?e = "Handle (to_msg (Put_msg put_req))"
  obtain p' where r: "peer_run ref_env True ?p [?e] p'"
    using handle_run[OF run_nil, of ?p ref_env True] by (auto simp: sample_peer_def)
  have cov: "covers (stored ref_env (store (pr_node ?p)) ''/a'') ver1"
    using put_covers[OF env_ok_ref store_wf_ref st(1)] by (simp add: sample_peer_def ref_node_def)
  have "\<forall>e\<in>set [?e]. ''/a'' \<notin> event_removes ref_env e" by (simp add: removes.simps to_msg_def)
  with run_never_forgets[OF r env_ok_ref sample_peer_wf[OF st(2)]] cov
  have "covers (stored ref_env (store (pr_node p')) ''/a'') ver1" by blast
  with st(1) r show ?thesis by blast
qed

definition completed :: attempt where
  "completed = Connected [Received (to_msg Recover_termination_msg)]"

theorem recovers_before_serving_witness:
  "(\<exists>p'. peer_run ref_env True (sample_peer Starting ref_store) ([Start, Recover [completed]] @ Handle (to_msg (Put_msg put_req)) # []) p') \<and>
   was_recovered [Start, Recover [completed]]"
proof -
  let ?p = "sample_peer Starting ref_store"
  have 1: "peer_run ref_env True ?p [Start] (sample_peer Recovering ref_store)"
    using run_snoc[OF run_nil peer_step.start[of ?p ref_env True]]
    by (simp add: sample_peer_def phase_starting_def gc_has_recovered_def sample_pss_def sample_group_def)
  have "phase_recovering ref_env [completed] (store (pr_node (sample_peer Recovering ref_store))) = (Operating, ref_store)"
    by (simp add: completed_def to_msg_def sample_peer_def ref_node_def)
  from run_snoc[OF 1 peer_step.recover[OF _ this]]
  have "peer_run ref_env True ?p [Start, Recover [completed]] (sample_peer Operating ref_store)"
    by (simp add: sample_peer_def ref_node_def)
  then obtain p' where r: "peer_run ref_env True ?p ([Start, Recover [completed]] @ Handle (to_msg (Put_msg put_req)) # []) p'"
    using handle_run by (fastforce simp: sample_peer_def)
  have "pr_phase ?p = Starting" by (simp add: sample_peer_def)
  from recovers_before_serving[OF r this] r show ?thesis by blast
qed

end
