(* ===== verification/End_To_End.thy ===== *)
theory End_To_End
  imports Client Node_Witnesses
begin

text \<open>
  Client and peers together: what a client may conclude about the state of the peers from the outcome of its operations. The
  network may lose, delay, duplicate and forward datagrams; it does not forge replies: a reply the client counts was sent by a peer that
  handled a request of this client.
\<close>

text \<open>Some peer in a good state handled a request out of \<open>reqs\<close>, answered \<open>rep\<close>, and is now, after any events that do
  not delete the key, in state \<open>final\<close>.\<close>

definition acked_by :: "'d env \<Rightarrow> bool \<Rightarrow> kv_body set \<Rightarrow> kv_body \<Rightarrow> string \<Rightarrow> 'd peer \<Rightarrow> bool" where
  "acked_by E rd reqs rep k final \<longleftrightarrow> (\<exists>p lucky junk msg acts nd' ip port es.
     peer_wf E p \<and> pr_phase p = Operating \<and> body msg \<in> reqs \<and>
     process_message E (views_of (pr_pss p)) lucky junk msg (pr_node p) = (Ret acts, nd') \<and>
     Reply_client ip port \<lparr>forwarded_within_group = False, body = rep\<rparr> \<in> set acts \<and>
     peer_run E rd (p\<lparr>pr_node := nd'\<rparr>) es final \<and> (\<forall>e\<in>set es. k \<notin> event_removes E e))"

lemma first_round_requests:
  assumes "client_put c k v t data n [x] = (Some (Ret ()), c', ds)" "d \<in> set ds"
  shows "body (snd d) = build_put_message (cl_ip c) (cl_kv_port c) (cl_id c) k (new_version c v) t data False"
proof -
  have "d \<in> set ds \<Longrightarrow> \<exists>ps. d \<in> set (snd (send_put c k (new_version c v) t data False x ps))"
    using assms(1)
    by (auto simp: client_put_def Let_def after_sending_def split: prod.splits res.splits if_splits) (metis snd_conv)
  then obtain ps where "d \<in> set (snd (send_put c k (new_version c v) t data False x ps))" using assms(2) by blast
  then show ?thesis
    using send_all_datagrams[OF surjective_pairing, of "fst d" "snd d"] by (fastforce simp: send_put_def)
qed

lemma put_reply_covers:
  assumes "env_ok E" "peer_wf E p" "pr_phase p = Operating"
    and "process_message E (views_of (pr_pss p)) lucky junk msg (pr_node p) = (Ret acts, nd')"
    and "body msg = build_put_message ip0 port0 id0 k w t data False" "Reply_client ip port r \<in> set acts"
    and "peer_run E rd (p\<lparr>pr_node := nd'\<rparr>) es final" "\<forall>e\<in>set es. k \<notin> event_removes E e"
  shows "covers (stored E (store (pr_node final)) k) w"
proof -
  have wf: "store_wf E (store (pr_node p))" using assms(2) by (simp add: peer_wf_def)
  let ?k = "\<lparr>key = k, version = w, f_type = t, is_deleted = False\<rparr>"
  have "process_put_message E (views_of (pr_pss p)) lucky msg \<lparr>m_ip = ip0, m_port = port0, m_id = id0, pm_key = key_msg k w, pm_type = t,
       pm_data = data, pm_extra_reply = False\<rparr> (pr_node p) = (Ret acts, nd')"
    using assms(4,5) by (simp add: process_message.simps build_put_message_def)
  from write_handler_reply(2)[OF this[unfolded process_put_message_def Let_def] assms(6)]
  have "put E ?k data (store (pr_node p)) = (Ret True, store nd')" by simp
  then have c: "covers (stored E (store nd') k) w" using put_covers[OF assms(1) wf] by force
  have "peer_wf E (p\<lparr>pr_node := nd'\<rparr>)"
    using peer_step_good[OF peer_step.handle[OF assms(3,4)] assms(1,2)] by simp
  from peer_run_good[OF assms(7,1) this] assms(8) c show ?thesis
    by (auto simp: good_step_def main_keeps_def)
qed

text \<open>
  C1. A write that succeeds without a retry is durable. When \<^verbatim>\<open>client::put\<close> returns after its first round, there are at least as many peers as
  it required, all different, whose stores cover the version it wrote, and they still do after any further messages, gossip,
  anti-entropy and recovery, as long as nothing deletes the key.
\<close>

theorem durable_write:
  assumes "env_ok E" "client_put c k v t data n [x] = (Some (Ret ()), c', ds)"
    and "put_replies (handler c) (put_key_of c k v t) = None" "0 < max_timeouts c"
    and "\<forall>m\<in>set (received [x]). \<forall>i. put_ack m = Some (put_key_of c k v t, i) \<longrightarrow>
      acked_by E rd ((body \<circ> snd) ` set ds) m k (final i)"
  shows "\<exists>I. finite I \<and> n \<le> card I \<and> (\<forall>i\<in>I. covers (stored E (store (pr_node (final i))) k) (new_version c v))"
proof -
  let ?I = "puts.peers (put_key_of c k v t) (received [x])"
  have "n \<le> card ?I"
    using client_put_counts[OF assms(3,4), of n "[x]" data] assms(2) by (simp add: puts.put_outcome_def)
  moreover have "covers (stored E (store (pr_node (final i))) k) (new_version c v)" if i: "i \<in> ?I" for i
  proof -
    obtain m where "m \<in> set (received [x])" "put_ack m = Some (put_key_of c k v t, i)"
      using i unfolding puts.peers_def by blast
    then have "acked_by E rd ((body \<circ> snd) ` set ds) m k (final i)" using assms(5) by blast
    then show ?thesis
      unfolding acked_by_def using put_reply_covers[OF assms(1)] first_round_requests[OF assms(2)] by (fastforce simp: comp_def)
  qed
  ultimately show ?thesis by (intro exI[of _ ?I]) simp
qed

definition sample_request :: kv_message where
  "sample_request = to_msg (build_put_message ''10.0.0.1'' 5 1 ''/a'' ver1 FILE ''x'' False)"

definition node9_reply :: kv_body where
  "node9_reply = build_put_reply_message ''10.0.0.9'' 5 9 ''/a'' ver1 FILE"

lemma sample_version: "new_version sample_client default_version = ver1"
  using sample_put_key by (simp add: put_key_of_def sample_key_def ver1_def)

lemma node9_acks: "acked_by ref_env True {body sample_request} node9_reply ''/a'' p"
  if "put ref_env (fkey ver1) ''x'' ref_store = (Ret True, st1)" "p = sample_peer Operating st1" for st1
proof -
  let ?p = "sample_peer Operating ref_store"
  have "process_message ref_env (views_of (pr_pss ?p)) True FILE sample_request (pr_node ?p) =
      (Ret [Reply_client ''10.0.0.1'' 5 \<lparr>forwarded_within_group = False, body = node9_reply\<rparr>,
            Forward_message (get_slice_local_view (views_of (pr_pss ?p))) (sample_request\<lparr>forwarded_within_group := True\<rparr>)],
       ref_node st1)"
    using that(1) by (simp add: process_message.simps process_put_message_def write_handler_def sample_request_def node9_reply_def
        build_put_message_def sample_peer_def Let_def node_defs fkey_eq catch_exn_def reply_client_def)
  moreover have "peer_run ref_env True (?p\<lparr>pr_node := ref_node st1\<rparr>) [] p"
    using run_nil[of ref_env True p] by (simp add: that(2) sample_peer_def)
  moreover have "peer_wf ref_env ?p" by (rule sample_peer_wf) simp
  moreover have "pr_phase ?p = Operating" by (simp add: sample_peer_def)
  ultimately show ?thesis unfolding acked_by_def by fastforce
qed

theorem durable_write_witness:
  "\<exists>c' ds (p :: ref_db peer). client_put sample_client ''/a'' default_version FILE ''x'' 1 [sample_io True [node9_reply]] = (Some (Ret ()), c', ds) \<and>
     covers (stored ref_env (store (pr_node p)) ''/a'') ver1"
proof -
  have ack: "put_ack node9_reply = Some (sample_key, 9)"
    by (simp add: node9_reply_def build_put_reply_message_def put_key_def sample_key_def ver1_def)
  have q: "1 \<le> card (puts.peers sample_key [node9_reply])" by (simp add: ack)
  obtain c' ds where r: "client_put sample_client ''/a'' default_version FILE ''x'' 1 [sample_io True [node9_reply]] =
      (Some (Ret ()), c', ds)" "(body \<circ> snd) ` set ds = {body sample_request}"
    by (rule sample_put[OF q]) (auto simp: sample_request_def sample_version to_msg_def)
  obtain st1 where st1: "put ref_env (fkey ver1) ''x'' ref_store = (Ret True, st1)" by (rule put_run)
  let ?p = "sample_peer Operating st1"
  have net: "\<forall>m\<in>set (received [sample_io True [node9_reply]]). \<forall>i.
      put_ack m = Some (put_key_of sample_client ''/a'' default_version FILE, i) \<longrightarrow>
      acked_by ref_env True ((body \<circ> snd) ` set ds) m ''/a'' ?p"
    unfolding r(2) using node9_acks[OF st1 refl] by (simp add: sample_io_def)
  have m: "0 < max_timeouts sample_client" by (simp add: sample_client_def)
  from durable_write[where final = "\<lambda>_. ?p", OF env_ok_ref r(1) sample_unregistered m net, unfolded sample_version]
  obtain I :: "long set" where I: "finite I \<and> 1 \<le> card I \<and> (\<forall>i\<in>I. covers (stored ref_env (store (pr_node ?p)) ''/a'') ver1)" by (rule exE)
  then have "card I \<noteq> 0" by linarith
  then obtain i where "i \<in> I" by fastforce
  with conjunct2[OF conjunct2[OF I]] have "covers (stored ref_env (store (pr_node ?p)) ''/a'') ver1" by (rule bspec)
  with r(1) show ?thesis by blast
qed

end
