(* ===== verification/Load_Balancer.thy ===== *)
theory Load_Balancer
  imports Group_Construction Ref_Env "HOL-Library.Sublist"
begin

text \<open>
  The load balancers of the client: which peers it sends its requests to. The dynamic one, \<^verbatim>\<open>df_loadbalancing/dynamic_load_balancer.cpp\<close>, draws
  from the last view it was sent. The smart one, \<^verbatim>\<open>smart_load_balancer.cpp\<close>, takes part in the group construction of the peers, keeps a view per
  group, ordered by age, and asks the group that stores a key.

  Random draws are natural numbers, reduced to the range that is drawn from; the draws of a loop are a list. The contract of
  \<^verbatim>\<open>load_balancer.h\<close> is the locale of \<open>Balanced_Client\<close>.
\<close>

section \<open>The dynamic load balancer\<close>

record dynamic_lb =
  dl_view :: "peer_data list"
  dl_ip :: string
  dl_pss_port :: int

definition empty_view_message :: string where
  "empty_view_message = ''Empty View Received''"

definition dl_init :: "string \<Rightarrow> int \<Rightarrow> pss_message \<Rightarrow> dynamic_lb" where
  "dl_init ip port rcv = \<lparr>dl_view = ps_view rcv, dl_ip = ip, dl_pss_port = port\<rparr>"

definition dl_get_random_peer :: "nat \<Rightarrow> dynamic_lb \<Rightarrow> peer_data res" where
  "dl_get_random_peer r s =
     (if dl_view s = [] then Throw (Message empty_view_message) else Ret (dl_view s ! (r mod length (dl_view s))))"

definition dl_get_peer :: "nat \<Rightarrow> string \<Rightarrow> dynamic_lb \<Rightarrow> peer_data res" where
  "dl_get_peer r k s = dl_get_random_peer r s"

text \<open>\<^verbatim>\<open>std::sample\<close> for forward iterators: an element is taken when the draw among the remaining ones is below the number still wanted.\<close>

fun std_sample :: "(nat \<Rightarrow> nat) \<Rightarrow> 'a list \<Rightarrow> nat \<Rightarrow> 'a list" where
  "std_sample r [] n = []"
| "std_sample r (x # xs) n =
     (if r (length xs) mod Suc (length xs) < n then x # std_sample r xs (n - 1) else std_sample r xs n)"

definition dl_get_n_random_peers :: "(nat \<Rightarrow> nat) \<Rightarrow> int \<Rightarrow> dynamic_lb \<Rightarrow> peer_data list res" where
  "dl_get_n_random_peers r nr_peers s =
     (if dl_view s = [] then Throw (Message empty_view_message)
      else Ret (std_sample r (dl_view s) (nat (min (int (length (dl_view s))) nr_peers))))"

definition dl_get_n_peers :: "(nat \<Rightarrow> nat) \<Rightarrow> string \<Rightarrow> int \<Rightarrow> dynamic_lb \<Rightarrow> peer_data list res" where
  "dl_get_n_peers r k nr_peers s = dl_get_n_random_peers r nr_peers s"

definition dl_process_msg :: "pss_message \<Rightarrow> dynamic_lb \<Rightarrow> dynamic_lb" where
  "dl_process_msg m s = (if ps_view m \<noteq> [] then s\<lparr>dl_view := ps_view m\<rparr> else s)"

text \<open>A round of the thread of the balancer; with an empty view it does nothing.\<close>

definition dl_round :: "nat \<Rightarrow> dynamic_lb \<Rightarrow> pss_send list" where
  "dl_round r s =
     (case dl_get_peer r [] s of
        Ret p \<Rightarrow> [(pd_ip p, pd_pss_port p, \<lparr>ps_sender_ip = dl_ip s, ps_sender_port = dl_pss_port s, ps_sender_pos = 0,
                     ps_type = LOADBALANCE, ps_view = []\<rparr>)]
      | _ \<Rightarrow> [])"

section \<open>The smart load balancer\<close>

record smart_lb =
  sl_view :: "peer_data list list"
  sl_local_view :: pview
  nr_saved_peers_by_group :: nat
  sl_local :: bool
  sl_local_interval :: int
  sl_cycle :: int
  sl_position :: rat
  sl_nr_groups :: int
  sl_my_group :: int
  sl_rep_max :: int
  sl_rep_min :: int
  sl_max_age :: int
  max_smart_view_age :: int
  sl_recovering :: bool
  sl_ip :: string
  sl_pss_port :: int

text \<open>The view that the bootstrapper answers is the list of the only group.\<close>

definition sl_first_view :: "pss_message \<Rightarrow> peer_data list list" where
  "sl_first_view rcv = [ps_view rcv]"

definition sl_init :: "string \<Rightarrow> int \<Rightarrow> int \<Rightarrow> int \<Rightarrow> int \<Rightarrow> int \<Rightarrow> nat \<Rightarrow> bool \<Rightarrow> int \<Rightarrow> rat \<Rightarrow> pss_message \<Rightarrow> smart_lb" where
  "sl_init ip port rep_max rep_min maxage smart_age saved loc interval pos rcv =
     \<lparr>sl_view = sl_first_view rcv, sl_local_view = [], nr_saved_peers_by_group = saved, sl_local = loc, sl_local_interval = interval, sl_cycle = 1,
      sl_position = pos, sl_nr_groups = 1, sl_my_group = 1, sl_rep_max = rep_max, sl_rep_min = rep_min, sl_max_age = maxage,
      max_smart_view_age = smart_age, sl_recovering = True, sl_ip = ip, sl_pss_port = port\<rparr>"

subsection \<open>Views ordered by age\<close>

fun insert_by_age :: "peer_data \<Rightarrow> peer_data list \<Rightarrow> peer_data list" where
  "insert_by_age p [] = [p]"
| "insert_by_age p (q # qs) = (if pd_age q \<ge> pd_age p then p # q # qs else q # insert_by_age p qs)"

function insert_peer_data_with_order :: "peer_data list \<Rightarrow> peer_data \<Rightarrow> peer_data list" where
  "insert_peer_data_with_order view p =
     (case find (\<lambda>q. pd_id q = pd_id p) view of
        Some q \<Rightarrow> if pd_age q > pd_age p then insert_peer_data_with_order (remove1 q view) p else view
      | None \<Rightarrow> insert_by_age p view)"
  by pat_completeness auto
termination
  by (relation "measure (\<lambda>(view, _). length view)") (auto simp: find_Some_iff length_remove1)

declare insert_peer_data_with_order.simps [simp del]

subsection \<open>The view of the own group\<close>

definition sl_is_mine :: "smart_lb \<Rightarrow> peer_data \<Rightarrow> bool" where
  "sl_is_mine s p \<longleftrightarrow> group (sl_nr_groups s) (pd_pos p) = sl_my_group s"

definition sl_incorporate_local_peer :: "smart_lb \<Rightarrow> peer_data \<Rightarrow> pview \<Rightarrow> pview" where
  "sl_incorporate_local_peer s p v =
     (if sl_is_mine s p then
        (case map_of v (pd_id p) of
           Some cur \<Rightarrow> if pd_age cur > pd_age p then view_update (pd_id p) (\<lambda>q. q\<lparr>pd_age := pd_age p\<rparr>) v else v
         | None \<Rightarrow> view_insert p v)
      else v)"

definition sl_incorporate_local_peers :: "peer_data list \<Rightarrow> smart_lb \<Rightarrow> smart_lb" where
  "sl_incorporate_local_peers received s = s\<lparr>sl_local_view := fold (sl_incorporate_local_peer s) received (sl_local_view s)\<rparr>"

definition sl_clean_local_view :: "smart_lb \<Rightarrow> smart_lb" where
  "sl_clean_local_view s =
     s\<lparr>sl_local_view := filter (\<lambda>(i, p). sl_is_mine s p \<and> \<not> pd_age p > sl_max_age s) (sl_local_view s)\<rparr>"

subsection \<open>The views of all groups\<close>

text \<open>Changing the view of one group. An index out of range is undefined behaviour; the invariant \<open>sl_wf\<close> excludes it.\<close>

definition at_group :: "int \<Rightarrow> (peer_data list \<Rightarrow> peer_data list) \<Rightarrow> peer_data list list \<Rightarrow> peer_data list list" where
  "at_group g f v = (if 1 \<le> g \<and> nat (g - 1) < length v then v[nat (g - 1) := f (v ! nat (g - 1))] else v)"

definition clean_group :: "smart_lb \<Rightarrow> peer_data list \<Rightarrow> peer_data list" where
  "clean_group s v =
     (let nr_elem_to_keep = length (takeWhile (\<lambda>p. pd_age p < max_smart_view_age s) v)
      in take (min (nr_saved_peers_by_group s) nr_elem_to_keep) v)"

definition incorporate_peers_in_view :: "peer_data list \<Rightarrow> smart_lb \<Rightarrow> smart_lb" where
  "incorporate_peers_in_view received s =
     (let v = fold (\<lambda>p. at_group (group (sl_nr_groups s) (pd_pos p)) (\<lambda>g. insert_peer_data_with_order g p)) received (sl_view s)
      in s\<lparr>sl_view := map (clean_group s) v\<rparr>)"

text \<open>Two neighbouring groups become one; a group without a neighbour is dropped.\<close>

fun merge_pairs :: "nat \<Rightarrow> peer_data list list \<Rightarrow> peer_data list list" where
  "merge_pairs n (a # b # rest) = take n (fold (\<lambda>p v. insert_peer_data_with_order v p) b a) # merge_pairs n rest"
| "merge_pairs n _ = []"

definition merge_groups_from_view :: "nat \<Rightarrow> peer_data list list \<Rightarrow> peer_data list list" where
  "merge_groups_from_view saved v = (if length v = 1 then v else merge_pairs saved v)"

fun split_from :: "int \<Rightarrow> int \<Rightarrow> peer_data list list \<Rightarrow> peer_data list list" where
  "split_from next_size current_group [] = []"
| "split_from next_size current_group (g # gs) =
     filter (\<lambda>p. group next_size (pd_pos p) \<noteq> current_group + 1) g #
     fold (\<lambda>p v. insert_peer_data_with_order v p) (filter (\<lambda>p. group next_size (pd_pos p) = current_group + 1) g) [] #
     split_from next_size (current_group + 2) gs"

definition split_groups_from_view :: "peer_data list list \<Rightarrow> peer_data list list" where
  "split_groups_from_view v = split_from (int (length v) * 2) 1 v"

text \<open>The loops of \<^verbatim>\<open>reconfigure_view_if_needed\<close> run until the numbers agree.\<close>

partial_function (option) merge_loop :: "nat \<Rightarrow> int \<Rightarrow> int \<Rightarrow> peer_data list list \<Rightarrow> peer_data list list option" where
  "merge_loop saved current n v =
     (if n = current then Some v else merge_loop saved current (n div 2) (merge_groups_from_view saved v))"

partial_function (option) split_loop :: "int \<Rightarrow> int \<Rightarrow> peer_data list list \<Rightarrow> peer_data list list option" where
  "split_loop current n v = (if n = current then Some v else split_loop current (n * 2) (split_groups_from_view v))"

definition reconfigure_view_if_needed :: "smart_lb \<Rightarrow> smart_lb option" where
  "reconfigure_view_if_needed s =
     (let current = sl_nr_groups s; n = int (length (sl_view s)) in
      if n = current then Some s
      else map_option (\<lambda>v. s\<lparr>sl_view := v\<rparr>)
             (if n > current then merge_loop (nr_saved_peers_by_group s) current n (sl_view s) else split_loop current n (sl_view s)))"

subsection \<open>Messages\<close>

definition sl_regroup :: "int \<Rightarrow> smart_lb \<Rightarrow> smart_lb" where
  "sl_regroup n s = s\<lparr>sl_nr_groups := n, sl_my_group := group n (sl_position s)\<rparr>"

definition sl_message :: "smart_lb \<Rightarrow> pss_type \<Rightarrow> peer_data \<Rightarrow> pss_send" where
  "sl_message s t p = (pd_ip p, pd_pss_port p,
     \<lparr>ps_sender_ip = sl_ip s, ps_sender_port = sl_pss_port s, ps_sender_pos = sl_position s, ps_type = t, ps_view = []\<rparr>)"

definition sl_request_local_message :: "peer_data list \<Rightarrow> smart_lb \<Rightarrow> pss_send list" where
  "sl_request_local_message received s = map (sl_message s REQUEST_LOCAL) received"

text \<open>\<open>None\<close>: the call does not return.\<close>

definition sl_recover_local_view :: "peer_data list \<Rightarrow> smart_lb \<Rightarrow> (pss_send list \<times> smart_lb) option" where
  "sl_recover_local_view received s0 =
     (let nr_groups_from_peers = groups_from_peers received;
          s = sl_incorporate_local_peers received s0;
          first_estimation = int (length (sl_local_view s))
      in if sl_nr_groups s > nr_groups_from_peers \<and> first_estimation \<ge> sl_rep_min s then
           (if first_estimation > sl_rep_max s then
              map_option (\<lambda>s1. ([], (sl_clean_local_view (incorporate_peers_in_view received s1))\<lparr>sl_recovering := False\<rparr>))
                (reconfigure_view_if_needed (sl_regroup (sl_nr_groups s * 2) s))
            else Some ([], s\<lparr>sl_recovering := False\<rparr>))
         else
           map_option (\<lambda>s1.
             (let s2 = sl_clean_local_view (incorporate_peers_in_view received s1);
                  s3 = (if nr_groups_from_peers = 1 then s2\<lparr>sl_recovering := False\<rparr> else s2);
                  estimation = int (length (sl_local_view s3))
              in if estimation \<ge> sl_rep_min s3 \<and> estimation \<le> sl_rep_max s3 then ([], s3\<lparr>sl_recovering := False\<rparr>)
                 else (sl_request_local_message received s3, s3)))
             (reconfigure_view_if_needed (sl_regroup nr_groups_from_peers s)))"

definition sl_receive_peer :: "smart_lb \<Rightarrow> peer_data \<Rightarrow> pview \<Rightarrow> pview" where
  "sl_receive_peer s p v =
     (if sl_is_mine s p then
        (case map_of v (pd_id p) of
           Some cur \<Rightarrow> if pd_age cur > pd_age p then view_update (pd_id p) (\<lambda>_. p) v else v
         | None \<Rightarrow> view_insert p v)
      else v)"

text \<open>The groups are merged or split when the own group is too small or too large.\<close>

definition sl_adjust_groups :: "smart_lb \<Rightarrow> smart_lb" where
  "sl_adjust_groups s =
     (let estimation = int (length (sl_local_view s));
          s1 = (if estimation < sl_rep_min s \<and> sl_nr_groups s > 1
                then s\<lparr>sl_nr_groups := sl_nr_groups s div 2, sl_view := merge_groups_from_view (nr_saved_peers_by_group s) (sl_view s)\<rparr> else s)
      in if estimation > sl_rep_max s1
         then s1\<lparr>sl_nr_groups := sl_nr_groups s1 * 2, sl_view := split_groups_from_view (sl_view s1)\<rparr> else s1)"

definition sl_receive_message :: "peer_data list \<Rightarrow> smart_lb \<Rightarrow> (pss_send list \<times> smart_lb) option" where
  "sl_receive_message received s0 =
     (if sl_recovering s0 then sl_recover_local_view received s0
      else
        (let v1 = fold (sl_receive_peer s0) received (view_age (sl_local_view s0));
             not_added = filter (\<lambda>p. \<not> sl_is_mine s0 p) received @ map snd (filter (\<lambda>(_, p). \<not> sl_is_mine s0 p) v1);
             v2 = filter (\<lambda>(_, p). sl_is_mine s0 p \<and> \<not> pd_age p > sl_max_age s0) v1;
             aged = map (map (\<lambda>p. p\<lparr>pd_age := pd_age p + 1\<rparr>)) (sl_view s0);
             s1 = sl_adjust_groups (s0\<lparr>sl_local_view := v2, sl_view := aged\<rparr>);
             s2 = s1\<lparr>sl_my_group := group (sl_nr_groups s1) (sl_position s1)\<rparr>;
             s3 = s2\<lparr>sl_local_view := fold (sl_receive_peer s2) not_added (sl_local_view s2)\<rparr>
         in Some ([], incorporate_peers_in_view received s3)))"

definition sl_receive_local_message :: "peer_data list \<Rightarrow> smart_lb \<Rightarrow> (pss_send list \<times> smart_lb) option" where
  "sl_receive_local_message received s =
     (if sl_recovering s then sl_recover_local_view received s else Some ([], sl_incorporate_local_peers received s))"

definition sl_has_recovered :: "smart_lb \<Rightarrow> bool" where
  "sl_has_recovered s \<longleftrightarrow> \<not> sl_recovering s"

definition sl_process_msg :: "pss_message \<Rightarrow> smart_lb \<Rightarrow> (pss_send list \<times> smart_lb) option" where
  "sl_process_msg m s =
     (if ps_type m = LOCAL then sl_receive_local_message (ps_view m) s else sl_receive_message (ps_view m) s)"

subsection \<open>Choosing peers\<close>

definition get_random_local_peer :: "nat \<Rightarrow> smart_lb \<Rightarrow> peer_data res" where
  "get_random_local_peer r s =
     (if sl_local_view s = [] then Throw (Message ''EMPTY VIEW EXCEPTION'')
      else Ret (snd (sl_local_view s ! (r mod length (sl_local_view s)))))"

definition group_at :: "nat \<Rightarrow> smart_lb \<Rightarrow> peer_data list" where
  "group_at i s = (if i < length (sl_view s) then sl_view s ! i else [])"

text \<open>Drawing groups until one is not empty: the draws of the group and of the peer in it.\<close>

fun sl_get_random_peer :: "(nat \<times> nat) list \<Rightarrow> smart_lb \<Rightarrow> peer_data res" where
  "sl_get_random_peer [] s = Hang"
| "sl_get_random_peer ((r, i) # rs) s =
     (let slice_group = group_at (r mod nat (sl_nr_groups s)) s in
      if slice_group = [] then sl_get_random_peer rs s else Ret (slice_group ! (i mod length slice_group)))"

text \<open>The slice of a key, as the peers compute it.\<close>

definition sl_slice :: "'d env \<Rightarrow> string \<Rightarrow> smart_lb \<Rightarrow> int option" where
  "sl_slice E k s =
     (let step = (- 1 :: 64 word) div word_of_int (sl_nr_groups s)
      in map_option (\<lambda>sl. if sl > sl_nr_groups s then sl_nr_groups s - 1 else sl) (slice_loop (std_hash E k) step (0 + step) 1))"

definition sl_get_peer :: "'d env \<Rightarrow> string \<Rightarrow> nat \<Rightarrow> (nat \<times> nat) list \<Rightarrow> smart_lb \<Rightarrow> peer_data res" where
  "sl_get_peer E k i rs s =
     (case sl_slice E k s of
        None \<Rightarrow> Hang
      | Some sl \<Rightarrow>
          (let slice_group = group_at (nat (sl - 1)) s in
           if slice_group = [] then sl_get_random_peer rs s else Ret (slice_group ! (i mod length slice_group))))"

text \<open>The loop of \<^verbatim>\<open>get_n_random_peers\<close>: the set of peers, ordered by their ids, the number of insertions and of further attempts. The
  draw of a peer in the group is not used.\<close>

fun random_peers_loop :: "nat list \<Rightarrow> smart_lb \<Rightarrow> (long, peer_data) smap \<Rightarrow> nat \<Rightarrow> nat \<Rightarrow> peer_data list res" where
  "random_peers_loop [] s temp nr_insertions tries = Hang"
| "random_peers_loop (r # rs) s temp nr_insertions tries =
     (case group_at (r mod nat (sl_nr_groups s)) s of
        [] \<Rightarrow> random_peers_loop rs s temp nr_insertions tries
      | front # _ \<Rightarrow>
          (let temp' = semplace (pd_id front) front temp in
           if ssize temp' = nr_insertions
           then (if tries - 1 = 0 then Ret (map snd (entries temp')) else random_peers_loop rs s temp' nr_insertions (tries - 1))
           else random_peers_loop rs s temp' (nr_insertions + 1) tries))"

definition sl_get_n_random_peers :: "nat list \<Rightarrow> int \<Rightarrow> smart_lb \<Rightarrow> peer_data list res" where
  "sl_get_n_random_peers rs nr_peers s = random_peers_loop rs s sempty 0 3"

definition sl_get_n_peers :: "'d env \<Rightarrow> (nat \<Rightarrow> nat) \<Rightarrow> nat list \<Rightarrow> string \<Rightarrow> int \<Rightarrow> smart_lb \<Rightarrow> peer_data list res" where
  "sl_get_n_peers E r rs k nr_peers s =
     (case sl_slice E k s of
        None \<Rightarrow> Hang
      | Some sl \<Rightarrow>
          (let slice_group = group_at (nat (sl - 1)) s in
           if slice_group = [] then sl_get_n_random_peers rs nr_peers s
           else Ret (std_sample r slice_group (nat (min (int (length slice_group)) nr_peers)))))"

text \<open>A round of the thread of the balancer. A remainder by zero does not return (\<open>None\<close>); an empty view does nothing.\<close>

definition sl_round :: "nat \<Rightarrow> (nat \<times> nat) list \<Rightarrow> smart_lb \<Rightarrow> (pss_send list \<times> smart_lb) option" where
  "sl_round r rs s0 =
     (let s = s0\<lparr>sl_cycle := sl_cycle s0 + 1\<rparr> in
      if sl_local s \<and> sl_local_interval s = 0 then None
      else
        (let (t, choice) = (if sl_local s \<and> sl_cycle s mod sl_local_interval s = 0
                            then (LOADBALANCE_LOCAL, get_random_local_peer r s) else (LOADBALANCE, sl_get_random_peer rs s))
         in case choice of
              Ret p \<Rightarrow> Some ([sl_message s t p], s)
            | Throw _ \<Rightarrow> Some ([], s)
            | Hang \<Rightarrow> None))"

section \<open>Views ordered by age\<close>

definition ordered :: "peer_data list \<Rightarrow> bool" where
  "ordered v \<longleftrightarrow> sorted (map pd_age v) \<and> distinct (map pd_id v)"

lemma set_insert_by_age [simp]: "set (insert_by_age p v) = insert p (set v)"
  by (induction v) auto

lemma sorted_insert_by_age: "sorted (map pd_age v) \<Longrightarrow> sorted (map pd_age (insert_by_age p v))"
  by (induction v) auto

lemma distinct_insert_by_age: "distinct (map pd_id v) \<Longrightarrow> pd_id p \<notin> pd_id ` set v \<Longrightarrow> distinct (map pd_id (insert_by_age p v))"
  by (induction v) auto

lemma insert_order_subset: "set (insert_peer_data_with_order v p) \<subseteq> insert p (set v)"
proof (induction v p rule: insert_peer_data_with_order.induct)
  case (1 v p)
  show ?case
  proof (cases "find (\<lambda>q. pd_id q = pd_id p) v")
    case None
    then show ?thesis by (subst insert_peer_data_with_order.simps) simp
  next
    case (Some q)
    then show ?thesis using 1[OF Some] set_remove1_subset[of q v] by (subst insert_peer_data_with_order.simps) auto
  qed
qed

lemma distinct_remove1_ids: "distinct (map pd_id v) \<Longrightarrow> distinct (map pd_id (remove1 q v))"
  by (induction v) (auto dest: set_remove1_subset[THEN subsetD])

lemma sorted_remove1_ages: "sorted (map pd_age v) \<Longrightarrow> sorted (map pd_age (remove1 q v))"
  by (induction v) (auto dest: set_remove1_subset[THEN subsetD])

lemma ordered_cases:
  assumes "ordered v"
  shows "(\<exists>q\<in>set v. pd_id q = pd_id p \<and> pd_age q \<le> pd_age p) \<and> insert_peer_data_with_order v p = v \<or>
    (\<exists>w. insert_peer_data_with_order v p = insert_by_age p w \<and> ordered w \<and> pd_id p \<notin> pd_id ` set w \<and>
       (w = v \<or> (\<exists>q\<in>set v. pd_id q = pd_id p \<and> pd_age p < pd_age q \<and> w = remove1 q v)))"
proof (cases "find (\<lambda>q. pd_id q = pd_id p) v")
  case None
  then have "pd_id p \<notin> pd_id ` set v" by (auto simp: find_None_iff)
  moreover have "insert_peer_data_with_order v p = insert_by_age p v" using None by (subst insert_peer_data_with_order.simps) simp
  ultimately show ?thesis using assms by blast
next
  case (Some q)
  then have q: "q \<in> set v" "pd_id q = pd_id p" by (auto simp: find_Some_iff)
  show ?thesis
  proof (cases "pd_age q > pd_age p")
    case False
    then have "insert_peer_data_with_order v p = v" using Some by (subst insert_peer_data_with_order.simps) simp
    then show ?thesis using False q by (auto intro!: bexI[of _ q])
  next
    case True
    have d: "distinct v" "inj_on pd_id (set v)" using assms by (auto simp: ordered_def distinct_map)
    then have n: "pd_id p \<notin> pd_id ` set (remove1 q v)" using q by (auto simp: inj_on_def)
    then have "find (\<lambda>x. pd_id x = pd_id p) (remove1 q v) = None" unfolding find_None_iff by (metis image_eqI)
    then have "insert_peer_data_with_order (remove1 q v) p = insert_by_age p (remove1 q v)"
      by (subst insert_peer_data_with_order.simps) simp
    then have "insert_peer_data_with_order v p = insert_by_age p (remove1 q v)"
      using Some True by (subst insert_peer_data_with_order.simps) simp
    then show ?thesis using q True n assms by (auto simp: ordered_def distinct_remove1_ids sorted_remove1_ages)
  qed
qed

lemma insert_ordered: "ordered v \<Longrightarrow> ordered (insert_peer_data_with_order v p)"
  using ordered_cases[of v p] by (auto simp: ordered_def sorted_insert_by_age distinct_insert_by_age)

lemma fold_insert_ordered: "ordered v \<Longrightarrow> ordered (fold (\<lambda>p v. insert_peer_data_with_order v p) ps v)"
  by (induction ps arbitrary: v) (auto simp: insert_ordered)

lemma fold_insert_subset: "set (fold (\<lambda>p v. insert_peer_data_with_order v p) ps v) \<subseteq> set ps \<union> set v"
proof (induction ps arbitrary: v)
  case (Cons p ps)
  then show ?case using insert_order_subset[of v p] by fastforce
qed simp

lemma ordered_take: "ordered v \<Longrightarrow> ordered (take n v)"
  by (simp add: ordered_def take_map[symmetric] sorted_wrt_take)

lemma ordered_filter: "ordered v \<Longrightarrow> ordered (filter P v)"
  by (simp add: ordered_def distinct_map_filter sorted_filter)

lemma ordered_Nil [simp]: "ordered []"
  by (simp add: ordered_def)

section \<open>Groups of the view\<close>

definition in_unit :: "peer_data \<Rightarrow> bool" where
  "in_unit p \<longleftrightarrow> 0 \<le> pd_pos p \<and> pd_pos p \<le> 1"

definition view_groups :: "int \<Rightarrow> peer_data list list \<Rightarrow> bool" where
  "view_groups n v \<longleftrightarrow> int (length v) = n \<and> (\<forall>i<length v. \<forall>p\<in>set (v ! i). in_unit p \<and> group n (pd_pos p) = int i + 1)"

definition sl_wf :: "smart_lb \<Rightarrow> bool" where
  "sl_wf s \<longleftrightarrow> (\<exists>e. sl_nr_groups s = 2 ^ e) \<and> view_groups (sl_nr_groups s) (sl_view s) \<and>
     sl_my_group s = group (sl_nr_groups s) (sl_position s)"

lemma merge_pairs_props:
  "length (merge_pairs n v) = length v div 2"
  "i < length v div 2 \<Longrightarrow> set (merge_pairs n v ! i) \<subseteq> set (v ! (2 * i)) \<union> set (v ! (2 * i + 1))"
proof (induction n v arbitrary: i rule: merge_pairs.induct)
  case (1 n a b rest)
  {
    case 1 show ?case using "1.IH"(1) by simp
  next
    case 2
    show ?case
    proof (cases i)
      case 0
      then show ?thesis using fold_insert_subset[of b a] by (auto dest!: in_set_takeD)
    next
      case (Suc j)
      then show ?thesis using 2 "1.IH"(2)[of j] by simp
    qed
  }
qed auto

lemma merge_view_groups:
  assumes "view_groups (2 * n) v" "1 \<le> n"
  shows "view_groups n (merge_groups_from_view saved v)"
proof -
  have len: "int (length v) = 2 * n" using assms(1) by (simp add: view_groups_def)
  then have m: "merge_groups_from_view saved v = merge_pairs saved v" using assms(2) by (auto simp: merge_groups_from_view_def)
  have "in_unit p \<and> group n (pd_pos p) = int i + 1" if i: "i < length v div 2" and p: "p \<in> set (merge_pairs saved v ! i)" for i p
  proof -
    have "p \<in> set (v ! (2 * i)) \<or> p \<in> set (v ! (2 * i + 1))" using merge_pairs_props(2)[OF i] p by blast
    moreover have "2 * i < length v" "2 * i + 1 < length v" using i by simp_all
    then have "\<forall>p\<in>set (v ! (2 * i)). in_unit p \<and> group (2 * n) (pd_pos p) = int (2 * i) + 1"
      "\<forall>p\<in>set (v ! (2 * i + 1)). in_unit p \<and> group (2 * n) (pd_pos p) = int (2 * i + 1) + 1"
      using assms(1) unfolding view_groups_def by blast+
    ultimately have g: "in_unit p" "group (2 * n) (pd_pos p) = 2 * int i + 1 \<or> group (2 * n) (pd_pos p) = 2 * int i + 2" by auto
    then have "group n (pd_pos p) = (group (2 * n) (pd_pos p) + 1) div 2"
      using group_double[of n "pd_pos p"] assms(2) by (simp add: in_unit_def)
    then show ?thesis using g by auto
  qed
  then show ?thesis using len by (auto simp: view_groups_def m merge_pairs_props(1))
qed

lemma merge_ordered: "\<forall>g\<in>set v. ordered g \<Longrightarrow> \<forall>g\<in>set (merge_groups_from_view saved v). ordered g"
proof -
  have "\<forall>g\<in>set v. ordered g \<Longrightarrow> \<forall>g\<in>set (merge_pairs saved v). ordered g"
    by (induction saved v rule: merge_pairs.induct) (auto intro: ordered_take fold_insert_ordered)
  then show "\<forall>g\<in>set v. ordered g \<Longrightarrow> ?thesis" by (simp add: merge_groups_from_view_def)
qed

lemma split_from_props:
  "length (split_from m c v) = 2 * length v"
  "i < length v \<Longrightarrow> p \<in> set (split_from m c v ! (2 * i)) \<Longrightarrow> p \<in> set (v ! i) \<and> group m (pd_pos p) \<noteq> c + 2 * int i + 1"
  "i < length v \<Longrightarrow> p \<in> set (split_from m c v ! (2 * i + 1)) \<Longrightarrow> p \<in> set (v ! i) \<and> group m (pd_pos p) = c + 2 * int i + 1"
proof (induction m c v arbitrary: i rule: split_from.induct)
  case (2 m c g gs)
  {
    case 1 show ?case using "2.IH"(1) by simp
  next
    case 2
    show ?case
    proof (cases i)
      case (Suc j)
      then show ?thesis using 2 "2.IH"(2)[of j] by simp
    qed (use 2 in auto)
  next
    case 3
    show ?case
    proof (cases i)
      case 0
      then show ?thesis using 3 fold_insert_subset[of "filter (\<lambda>p. group m (pd_pos p) = c + 1) g" "[]"] by auto
    next
      case (Suc j)
      then show ?thesis using 3 "2.IH"(3)[of j] by simp
    qed
  }
qed auto

lemma split_view_groups:
  assumes "view_groups n v" "1 \<le> n"
  shows "view_groups (2 * n) (split_groups_from_view v)"
proof -
  have len: "int (length v) = n" using assms(1) by (simp add: view_groups_def)
  let ?v = "split_from (n * 2) 1 v"
  have g: "in_unit p \<and> (group (2 * n) (pd_pos p) = 2 * int i + 1 \<or> group (2 * n) (pd_pos p) = 2 * int i + 2)"
    if "i < length v" "p \<in> set (v ! i)" for i p
  proof -
    have "in_unit p" "group n (pd_pos p) = int i + 1" using that assms(1) by (auto simp: view_groups_def)
    moreover from this have "(group (2 * n) (pd_pos p) + 1) div 2 = int i + 1" using group_double[of n "pd_pos p"] assms(2) by (simp add: in_unit_def)
    ultimately show ?thesis by presburger
  qed
  have "in_unit p \<and> group (2 * n) (pd_pos p) = int i + 1" if i: "i < length ?v" "p \<in> set (?v ! i)" for i p
  proof (cases "even i")
    case True
    then obtain j where "i = 2 * j" by (rule evenE)
    then show ?thesis using i g[of j p] split_from_props(1)[of "n * 2" 1 v] split_from_props(2)[of j v p "n * 2" 1] by (auto simp: mult.commute)
  next
    case False
    then obtain j where "i = 2 * j + 1" by (rule oddE)
    then show ?thesis using i g[of j p] split_from_props(1)[of "n * 2" 1 v] split_from_props(3)[of j v p "n * 2" 1] by (auto simp: mult.commute)
  qed
  then show ?thesis using len split_from_props(1)[of "n * 2" 1 v] by (auto simp: view_groups_def split_groups_from_view_def)
qed

lemma split_ordered: "\<forall>g\<in>set v. ordered g \<Longrightarrow> \<forall>g\<in>set (split_groups_from_view v). ordered g"
proof -
  have "\<forall>g\<in>set v. ordered g \<Longrightarrow> \<forall>g\<in>set (split_from m c v). ordered g" for m c
    by (induction m c v rule: split_from.induct) (auto intro: ordered_filter fold_insert_ordered)
  then show "\<forall>g\<in>set v. ordered g \<Longrightarrow> ?thesis" by (simp add: split_groups_from_view_def)
qed

text \<open>Both loops of the reconfiguration end when both numbers are powers of two.\<close>

definition good_view :: "int \<Rightarrow> bool \<Rightarrow> peer_data list list \<Rightarrow> bool" where
  "good_view n b v \<longleftrightarrow> view_groups n v \<and> (b \<longrightarrow> (\<forall>g\<in>set v. ordered g))"

lemma merge_loop_good:
  "good_view (2 ^ (e + d)) b v \<Longrightarrow> \<exists>v'. merge_loop saved (2 ^ e) (2 ^ (e + d)) v = Some v' \<and> good_view (2 ^ e) b v'"
proof (induction d arbitrary: v)
  case 0
  then show ?case by (subst merge_loop.simps) simp
next
  case (Suc d)
  have "good_view (2 ^ (e + d)) b (merge_groups_from_view saved v)"
    using Suc.prems merge_view_groups[of "2 ^ (e + d)" v saved] merge_ordered[of v saved] by (simp add: good_view_def)
  moreover have "(2 :: int) ^ e < 2 ^ (e + Suc d)" by (intro power_strict_increasing) simp_all
  ultimately show ?case using Suc.IH[of "merge_groups_from_view saved v"] by (subst merge_loop.simps) simp
qed

lemma split_loop_good:
  "good_view (2 ^ e) b v \<Longrightarrow> \<exists>v'. split_loop (2 ^ (e + d)) (2 ^ e) v = Some v' \<and> good_view (2 ^ (e + d)) b v'"
proof (induction d arbitrary: e v)
  case 0
  then show ?case by (subst split_loop.simps) simp
next
  case (Suc d)
  have "good_view (2 ^ Suc e) b (split_groups_from_view v)"
    using Suc.prems split_view_groups[of "2 ^ e" v] split_ordered[of v] by (simp add: good_view_def)
  moreover have "(2 :: int) ^ e < 2 ^ (e + Suc d)" by (intro power_strict_increasing) simp_all
  ultimately show ?case using Suc.IH[of "Suc e" "split_groups_from_view v"] by (subst split_loop.simps) (simp add: mult.commute)
qed

lemma reconfigure_good:
  assumes "good_view (2 ^ a) b (sl_view s)" "sl_nr_groups s = 2 ^ e"
  shows "\<exists>v. reconfigure_view_if_needed s = Some (s\<lparr>sl_view := v\<rparr>) \<and> good_view (2 ^ e) b v"
proof -
  have len: "int (length (sl_view s)) = 2 ^ a" using assms(1) by (simp add: good_view_def view_groups_def)
  consider "a = e" | d where "a = e + d" "0 < d" | d where "e = a + d" "0 < d" by (metis less_imp_add_positive linorder_neqE_nat)
  then show ?thesis
  proof cases
    case 1
    then show ?thesis using assms len by (intro exI[of _ "sl_view s"]) (simp add: reconfigure_view_if_needed_def)
  next
    case 2
    have "(2 :: int) ^ e < 2 ^ (e + d)" using 2(2) by (intro power_strict_increasing) simp_all
    then show ?thesis using merge_loop_good[of e d b "sl_view s" "nr_saved_peers_by_group s"] assms len 2
      by (auto simp: reconfigure_view_if_needed_def Let_def)
  next
    case 3
    have "(2 :: int) ^ a < 2 ^ (a + d)" using 3(2) by (intro power_strict_increasing) simp_all
    then show ?thesis using split_loop_good[of a b "sl_view s" d] assms len 3
      by (auto simp: reconfigure_view_if_needed_def Let_def)
  qed
qed

lemma at_group_good:
  assumes "good_view n b v" "in_unit p"
  shows "good_view n b (at_group (group n (pd_pos p)) (\<lambda>g. insert_peer_data_with_order g p) v)"
proof -
  let ?g = "group n (pd_pos p)"
  show ?thesis
  proof (cases "1 \<le> ?g \<and> nat (?g - 1) < length v")
    case True
    let ?i = "nat (?g - 1)"
    let ?v = "v[?i := insert_peer_data_with_order (v ! ?i) p]"
    have at: "at_group ?g (\<lambda>g. insert_peer_data_with_order g p) v = ?v" using True by (simp add: at_group_def)
    have "in_unit q \<and> group n (pd_pos q) = int i + 1" if i: "i < length v" and q: "q \<in> set (?v ! i)" for i q
    proof (cases "q \<in> set (v ! i)")
      case in_v: True
      then show ?thesis using assms(1) i by (simp add: good_view_def view_groups_def)
    next
      case False
      have "i = ?i" by (rule ccontr) (use False q i in simp)
      moreover from this have "q \<in> set (insert_peer_data_with_order (v ! ?i) p)" using q i by simp
      then have "q = p" using False insert_order_subset[of "v ! ?i" p] \<open>i = ?i\<close> by blast
      ultimately show ?thesis using True assms(2) by simp
    qed
    moreover have "int (length v) = n" using assms(1) by (simp add: good_view_def view_groups_def)
    ultimately have "view_groups n ?v" unfolding view_groups_def length_list_update by blast
    moreover have "\<forall>g\<in>set ?v. ordered g" if b
    proof -
      have o: "\<forall>g\<in>set v. ordered g" using that assms(1) by (simp add: good_view_def)
      then have "ordered (v ! ?i)" using True by simp
      then have "ordered (insert_peer_data_with_order (v ! ?i) p)" by (rule insert_ordered)
      with o show ?thesis using set_update_subset_insert[of v ?i "insert_peer_data_with_order (v ! ?i) p"] by blast
    qed
    ultimately show ?thesis unfolding at good_view_def by blast
  next
    case False
    then show ?thesis using assms(1) by (simp only: at_group_def if_False)
  qed
qed

lemma incorporate_good:
  assumes "good_view (sl_nr_groups s) b (sl_view s)" "\<forall>p\<in>set ps. in_unit p"
  shows "\<exists>v. incorporate_peers_in_view ps s = s\<lparr>sl_view := v\<rparr> \<and> good_view (sl_nr_groups s) b v"
proof -
  have "good_view n b (fold (\<lambda>p. at_group (group n (pd_pos p)) (\<lambda>g. insert_peer_data_with_order g p)) ps v)" if "good_view n b v" for n v
    using assms(2) that by (induction ps arbitrary: v) (auto simp: at_group_good)
  note f = this[OF assms(1)]
  have "good_view n b (map (clean_group s) v)" if "good_view n b v" for n v
    using that by (auto simp: good_view_def view_groups_def clean_group_def Let_def ordered_take dest: in_set_takeD)
  from this[OF f] show ?thesis by (auto simp: incorporate_peers_in_view_def Let_def)
qed

lemma age_good:
  assumes "good_view n b v"
  shows "good_view n b (map (map (\<lambda>p. p\<lparr>pd_age := pd_age p + 1\<rparr>)) v)"
proof -
  have "ordered (map (\<lambda>p. p\<lparr>pd_age := pd_age p + 1\<rparr>) g)" if "ordered g" for g
    using that by (auto simp: ordered_def comp_def sorted_iff_nth_mono)
  then show ?thesis using assms by (fastforce simp: good_view_def view_groups_def in_unit_def)
qed

section \<open>The invariant\<close>

text \<open>The invariant, and with it that the groups are ordered when \<open>b\<close> holds.\<close>

definition sl_good :: "bool \<Rightarrow> smart_lb \<Rightarrow> bool" where
  "sl_good b s \<longleftrightarrow> sl_wf s \<and> (b \<longrightarrow> (\<forall>g\<in>set (sl_view s). ordered g))"

lemma sl_good_iff:
  "sl_good b s \<longleftrightarrow> (\<exists>e. sl_nr_groups s = 2 ^ e) \<and> good_view (sl_nr_groups s) b (sl_view s) \<and>
     sl_my_group s = group (sl_nr_groups s) (sl_position s)"
  by (auto simp: sl_good_def sl_wf_def good_view_def)

lemma sl_good_frame [simp]:
  "sl_good b (s\<lparr>sl_recovering := r\<rparr>) = sl_good b s" "sl_good b (s\<lparr>sl_local_view := v\<rparr>) = sl_good b s"
  "sl_good b (s\<lparr>sl_cycle := n\<rparr>) = sl_good b s" "sl_good b (sl_clean_local_view s) = sl_good b s"
  "sl_good b (sl_incorporate_local_peers ps s) = sl_good b s"
  by (simp_all add: sl_good_iff sl_clean_local_view_def sl_incorporate_local_peers_def)

lemma regroup_good:
  assumes "sl_good b s" "n = 2 ^ e" "\<forall>p\<in>set ps. in_unit p"
  shows "\<exists>s1. reconfigure_view_if_needed (sl_regroup n s) = Some s1 \<and> sl_good b (incorporate_peers_in_view ps s1)"
proof -
  obtain a where a: "good_view (2 ^ a) b (sl_view s)" using assms(1) by (auto simp: sl_good_iff)
  obtain v where v: "reconfigure_view_if_needed (sl_regroup n s) = Some ((sl_regroup n s)\<lparr>sl_view := v\<rparr>)" "good_view (2 ^ e) b v"
    using reconfigure_good[of a b "sl_regroup n s" e] a assms(2) by (auto simp: sl_regroup_def)
  let ?s = "(sl_regroup n s)\<lparr>sl_view := v\<rparr>"
  obtain w where "incorporate_peers_in_view ps ?s = ?s\<lparr>sl_view := w\<rparr>" "good_view (2 ^ e) b w"
    using incorporate_good[of ?s b ps] v(2) assms(2,3) by (auto simp: sl_regroup_def)
  then show ?thesis using v(1) assms(2) by (auto simp: sl_good_iff sl_regroup_def)
qed

lemma recover_good:
  assumes "sl_good b s" "\<forall>p\<in>set ps. in_unit p" "peers_ok ps"
  shows "\<exists>acts s'. sl_recover_local_view ps s = Some (acts, s') \<and> sl_good b s'"
proof -
  let ?s = "sl_incorporate_local_peers ps s"
  have s: "sl_good b ?s" using assms(1) by simp
  obtain e where e: "sl_nr_groups ?s = 2 ^ e" using s by (auto simp: sl_good_iff)
  obtain d where d: "groups_from_peers ps = 2 ^ d" using groups_from_peers_pow[OF assms(3)] by (auto simp: pow2_def)
  note u = assms(2)
  obtain s1 where s1: "reconfigure_view_if_needed (sl_regroup (sl_nr_groups ?s * 2) ?s) = Some s1" "sl_good b (incorporate_peers_in_view ps s1)"
    using regroup_good[OF s, of "sl_nr_groups ?s * 2" "Suc e" ps] u e by auto
  obtain s2 where s2: "reconfigure_view_if_needed (sl_regroup (groups_from_peers ps) ?s) = Some s2" "sl_good b (incorporate_peers_in_view ps s2)"
    using regroup_good[OF s d u] by auto
  show ?thesis using s s1 s2 by (auto simp: sl_recover_local_view_def Let_def)
qed

lemma adjust_good:
  assumes "sl_good b s"
  defines "s1 \<equiv> sl_adjust_groups s"
  shows "(\<exists>e. sl_nr_groups s1 = 2 ^ e) \<and> good_view (sl_nr_groups s1) b (sl_view s1)"
proof -
  obtain e where e: "sl_nr_groups s = 2 ^ e" using assms(1) by (auto simp: sl_good_iff)
  have m: "\<exists>d. sl_nr_groups s div 2 = 2 ^ d \<and> good_view (2 ^ d) b (merge_groups_from_view k (sl_view s))" if g: "sl_nr_groups s > 1" for k
  proof -
    obtain d where d: "e = Suc d" using g e by (cases e) auto
    then show ?thesis using assms(1) e merge_view_groups[of "2 ^ d" "sl_view s" k] merge_ordered[of "sl_view s" k]
      by (intro exI[of _ d]) (simp add: sl_good_iff good_view_def)
  qed
  have sp: "\<exists>d'. 2 ^ d * 2 = (2 :: int) ^ d' \<and> good_view (2 ^ d') b (split_groups_from_view v)" if "good_view (2 ^ d) b v" for d v
    using that split_view_groups[of "2 ^ d" v] split_ordered[of v] by (intro exI[of _ "Suc d"]) (simp add: good_view_def)
  have g0: "good_view (2 ^ e) b (sl_view s)" using assms(1) e by (simp add: sl_good_iff)
  show ?thesis
  proof (cases "int (length (sl_local_view s)) < sl_rep_min s \<and> sl_nr_groups s > 1")
    case True
    then obtain d where d: "sl_nr_groups s div 2 = 2 ^ d" "good_view (2 ^ d) b (merge_groups_from_view (nr_saved_peers_by_group s) (sl_view s))"
      using m by blast
    then show ?thesis using True sp[OF d(2)] by (auto simp: s1_def sl_adjust_groups_def Let_def)
  next
    case False
    then show ?thesis using sp[OF g0] g0 e by (auto simp: s1_def sl_adjust_groups_def Let_def)
  qed
qed

lemma adjust_frame: "sl_position (sl_adjust_groups s) = sl_position s"
  by (simp add: sl_adjust_groups_def Let_def)

lemma receive_good:
  assumes "sl_good b s" "\<forall>p\<in>set ps. in_unit p" "sl_recovering s \<Longrightarrow> peers_ok ps"
  shows "\<exists>acts s'. sl_receive_message ps s = Some (acts, s') \<and> sl_good b s'"
proof (cases "sl_recovering s")
  case False
  define lv where "lv = filter (\<lambda>(_, p). sl_is_mine s p \<and> \<not> pd_age p > sl_max_age s) (fold (sl_receive_peer s) ps (view_age (sl_local_view s)))"
  define s0 where "s0 = s\<lparr>sl_local_view := lv, sl_view := map (map (\<lambda>p. p\<lparr>pd_age := pd_age p + 1\<rparr>)) (sl_view s)\<rparr>"
  have "sl_good b s0" using assms(1) age_good by (auto simp: s0_def sl_good_iff)
  from adjust_good[OF this] have a: "\<exists>e. sl_nr_groups (sl_adjust_groups s0) = 2 ^ e"
    "good_view (sl_nr_groups (sl_adjust_groups s0)) b (sl_view (sl_adjust_groups s0))" by auto
  have "\<exists>acts s'. Some ([], incorporate_peers_in_view ps ((sl_adjust_groups s0)\<lparr>sl_my_group := group (sl_nr_groups (sl_adjust_groups s0)) (sl_position (sl_adjust_groups s0)),
      sl_local_view := w\<rparr>)) = Some (acts, s') \<and> sl_good b s'" for w
    using incorporate_good[of "(sl_adjust_groups s0)\<lparr>sl_my_group := group (sl_nr_groups (sl_adjust_groups s0)) (sl_position (sl_adjust_groups s0)),
      sl_local_view := w\<rparr>" b ps] a assms(2) by (auto simp: sl_good_iff)
  then show ?thesis using False
    unfolding sl_receive_message_def Let_def lv_def[symmetric] s0_def[symmetric] by (simp add: s0_def lv_def)
qed (use recover_good[OF assms] in \<open>simp add: sl_receive_message_def\<close>)

section \<open>Properties\<close>

text \<open>
  C19. The invariant of the smart load balancer. When the positions in a message are in the unit interval and, while the balancer is still
  recovering, each number of groups reported in it is a power of two or at most 1 (the bootstrapper reports 0), then handling the message
  returns (the reconfiguration of the view ends), the view has exactly one list per group, every peer in a list belongs to that
  group, and lists ordered by age without repeated peers stay so. After the recovery the reported numbers are not used, so that any are
  allowed; during it another number makes the reconfiguration run forever. The invariant holds after construction (\<open>sl_init_wf\<close>).
\<close>

theorem smart_balancer_invariant:
  assumes "sl_wf s" "\<forall>p\<in>set (ps_view m). in_unit p" "sl_recovering s \<Longrightarrow> peers_ok (ps_view m)"
  shows "\<exists>acts s'. sl_process_msg m s = Some (acts, s') \<and> sl_wf s' \<and>
    ((\<forall>g\<in>set (sl_view s). ordered g) \<longrightarrow> (\<forall>g\<in>set (sl_view s'). ordered g))"
proof -
  have "sl_good (\<forall>g\<in>set (sl_view s). ordered g) s" using assms(1) by (simp add: sl_good_def)
  moreover have "\<exists>acts s'. sl_process_msg m s = Some (acts, s') \<and> sl_good b s'" if "sl_good b s" for b
    using receive_good[OF that assms(2,3)] recover_good[OF that assms(2)] assms(3) that
    by (auto simp: sl_process_msg_def sl_receive_local_message_def)
  ultimately show ?thesis by (fastforce simp: sl_good_def)
qed

text \<open>A balancer that knows two groups of one peer each.\<close>

definition sample_lb :: smart_lb where
  "sample_lb = (sl_init ''10.0.0.1'' 5 2 1 20 20 3 False 1 (3/10) \<lparr>ps_sender_ip = [], ps_sender_port = 0, ps_sender_pos = 0, ps_type = NORMAL, ps_view = []\<rparr>)
     \<lparr>sl_view := [[gpeer 1 (1/10)], [gpeer 2 (9/10)]], sl_nr_groups := 2, sl_recovering := False\<rparr>"

lemma sample_lb_wf: "sl_wf sample_lb"
proof -
  have "group 2 (1/10) = 1" "group 2 (9/10) = 2" "group 2 (3/10) = 1" by (simp_all add: group_def ceiling_eq_iff)
  then show ?thesis
    by (auto simp: sl_wf_def sample_lb_def sl_init_def sl_first_view_def view_groups_def in_unit_def gpeer_def less_Suc_eq intro: exI[of _ 1])
qed

text \<open>A recovering balancer that hears of a peer as the bootstrapper describes it.\<close>

theorem smart_balancer_invariant_witness:
  "\<exists>acts s'. sl_process_msg \<lparr>ps_sender_ip = [], ps_sender_port = 0, ps_sender_pos = 0, ps_type = NORMAL,
       ps_view = [(gpeer 3 (7/10))\<lparr>pd_nr_slices := 0\<rparr>]\<rparr> (sample_lb\<lparr>sl_recovering := True\<rparr>) =
     Some (acts, s') \<and> sl_wf s' \<and> (\<forall>g\<in>set (sl_view s'). ordered g)"
proof -
  have "sl_wf (sample_lb\<lparr>sl_recovering := True\<rparr>)" using sample_lb_wf by (simp add: sl_wf_def)
  moreover have "\<forall>g\<in>set (sl_view sample_lb). ordered g" by (simp add: sample_lb_def ordered_def)
  ultimately show ?thesis
    using smart_balancer_invariant[of "sample_lb\<lparr>sl_recovering := True\<rparr>" "\<lparr>ps_sender_ip = [], ps_sender_port = 0, ps_sender_pos = 0,
        ps_type = NORMAL, ps_view = [(gpeer 3 (7/10))\<lparr>pd_nr_slices := 0\<rparr>]\<rparr>"]
    by (simp add: peers_ok_def in_unit_def gpeer_def)
qed

lemma sl_init_wf:
  assumes "\<forall>p\<in>set (ps_view rcv). in_unit p" "0 \<le> pos" "pos \<le> 1"
  shows "sl_wf (sl_init ip port rep_max rep_min maxage smart_age saved loc interval pos rcv)"
proof -
  have "group 1 q = 1" if "0 \<le> q" "q \<le> 1" for q :: rat
    using group_pos[of 1 q] group_le[of 1 q] that by simp
  then show ?thesis using assms
    by (auto simp: sl_wf_def sl_init_def sl_first_view_def view_groups_def in_unit_def intro: exI[of _ 0])
qed

lemma std_sample_subseq: "n \<le> length xs \<Longrightarrow> subseq (std_sample r xs n) xs \<and> length (std_sample r xs n) = n"
proof (induction xs arbitrary: n)
  case (Cons x xs)
  show ?case
  proof (cases "r (length xs) mod Suc (length xs) < n")
    case True
    then show ?thesis using Cons.IH[of "n - 1"] Cons.prems by auto
  next
    case False
    moreover have "r (length xs) mod Suc (length xs) \<le> length xs" by (simp add: less_Suc_eq_le[symmetric])
    ultimately have "n \<le> length xs" by linarith
    then show ?thesis using Cons.IH False by auto
  qed
qed simp

lemma std_sample_subset: "set (std_sample r xs n) \<subseteq> set xs"
  by (induction xs arbitrary: n) (auto dest: subsetD)

lemma subseq_distinct_ids:
  assumes "subseq xs ys" "distinct (map pd_id ys)"
  shows "distinct (map pd_id xs)"
proof -
  obtain N where "xs = nths ys N" using assms(1) by (auto simp: subseq_conv_nths)
  then have "map pd_id xs = nths (map pd_id ys) N" by (simp add: nths_map)
  then show ?thesis using assms(2) by (simp add: distinct_nthsI)
qed

lemma slice_loop_ge:
  assumes "slice_loop t step nxt a = Some r"
  shows "a \<le> r"
  by (rule slice_loop.raw_induct[where P = "\<lambda>t step nxt a r. a \<le> r", OF _ assms]) (fastforce simp: Let_def split: if_splits)

lemma slice_agrees:
  assumes "nr_slices st = sl_nr_groups s" "sl_nr_groups s = 2 ^ e" "get_slice_for_key E st k = Ret sl"
  shows "sl_slice E k s = Some sl \<and> 1 \<le> sl"
proof (cases "e = 0")
  case True
  have "slice_loop t (- 1) (- 1) 1 = Some 1" for t :: "64 word" by (subst slice_loop.simps) (simp add: word_not_simps(2)[of t])
  then show ?thesis using assms True by (simp add: sl_slice_def get_slice_for_key_def)
next
  case False
  then have "2 \<le> sl_nr_groups s" using assms(2) by (cases e) auto
  then show ?thesis using assms(1,3) slice_loop_ge
    by (force simp: sl_slice_def get_slice_for_key_def Let_def split: option.splits if_splits)
qed

lemma group_peers:
  assumes "sl_wf s" "nr_slices st = sl_nr_groups s" "get_slice_for_key E st k = Ret sl" "group_at (nat (sl - 1)) s \<noteq> []"
  shows "sl_get_n_peers E r rs k n s = Ret (std_sample r (group_at (nat (sl - 1)) s) (nat (min (int (length (group_at (nat (sl - 1)) s))) n)))"
    and "sl_get_n_peers E r rs k n s = Ret ps \<Longrightarrow> p \<in> set ps \<Longrightarrow> group (nr_slices st) (pd_pos p) = sl"
proof -
  let ?g = "group_at (nat (sl - 1)) s"
  obtain e where e: "sl_nr_groups s = 2 ^ e" using assms(1) by (auto simp: sl_wf_def)
  have sl: "sl_slice E k s = Some sl" "1 \<le> sl" using slice_agrees[OF assms(2) e assms(3)] by auto
  then show r: "sl_get_n_peers E r rs k n s = Ret (std_sample r ?g (nat (min (int (length ?g)) n)))"
    using assms(4) by (simp add: sl_get_n_peers_def Let_def)
  assume p: "sl_get_n_peers E r rs k n s = Ret ps" "p \<in> set ps"
  have "p \<in> set ?g" using std_sample_subset[of r ?g] p r by auto
  moreover have i: "nat (sl - 1) < length (sl_view s)" "?g = sl_view s ! nat (sl - 1)"
    using assms(4) by (auto simp: group_at_def split: if_splits)
  moreover have "\<forall>i<length (sl_view s). \<forall>p\<in>set (sl_view s ! i). group (nr_slices st) (pd_pos p) = int i + 1"
    using assms(1,2) unfolding sl_wf_def view_groups_def by metis
  ultimately have "group (nr_slices st) (pd_pos p) = int (nat (sl - 1)) + 1" by metis
  then show "group (nr_slices st) (pd_pos p) = sl" using sl(2) by simp
qed

lemma empty_group_random:
  assumes "sl_wf s" "nr_slices st = sl_nr_groups s" "get_slice_for_key E st k = Ret sl" "group_at (nat (sl - 1)) s = []"
  shows "sl_get_n_peers E r rs k n s = sl_get_n_random_peers rs n s"
proof -
  obtain e where "sl_nr_groups s = 2 ^ e" using assms(1) by (auto simp: sl_wf_def)
  from slice_agrees[OF assms(2) this assms(3)] assms(4) show ?thesis by (simp add: sl_get_n_peers_def Let_def)
qed

text \<open>
  C32. The smart load balancer asks the group that stores the key, as long as it has as many groups as the peers. When it knows a peer of the
  group that they compute for the key, the peers it chooses all have their position in that group, there are as many of them as
  asked for or as are known, and no peer is chosen twice. When it knows no peer of the group, it answers as for random peers
  instead, with peers of other groups.
\<close>

theorem asks_group_of_key:
  assumes "sl_wf s" "nr_slices st = sl_nr_groups s" "get_slice_for_key E st k = Ret sl" "ordered (group_at (nat (sl - 1)) s)" "0 \<le> n"
  shows "(group_at (nat (sl - 1)) s \<noteq> [] \<longrightarrow>
      (\<exists>ps. sl_get_n_peers E r rs k n s = Ret ps \<and> (\<forall>p\<in>set ps. group (nr_slices st) (pd_pos p) = sl) \<and>
        int (length ps) = min (int (length (group_at (nat (sl - 1)) s))) n \<and> distinct (map pd_id ps))) \<and>
    (group_at (nat (sl - 1)) s = [] \<longrightarrow> sl_get_n_peers E r rs k n s = sl_get_n_random_peers rs n s)"
proof (intro conjI impI)
  let ?g = "group_at (nat (sl - 1)) s"
  let ?m = "nat (min (int (length ?g)) n)"
  assume ne: "?g \<noteq> []"
  note g = group_peers[OF assms(1-3) ne, of r rs n]
  have m: "?m \<le> length ?g" by simp
  have sub: "subseq (std_sample r ?g ?m) ?g" "length (std_sample r ?g ?m) = ?m" using std_sample_subseq[OF m, of r] by blast+
  moreover have "distinct (map pd_id (std_sample r ?g ?m))" using subseq_distinct_ids[OF sub(1)] assms(4) by (simp add: ordered_def)
  moreover have "int ?m = min (int (length ?g)) n" using assms(5) by simp
  ultimately show "\<exists>ps. sl_get_n_peers E r rs k n s = Ret ps \<and> (\<forall>p\<in>set ps. group (nr_slices st) (pd_pos p) = sl) \<and>
      int (length ps) = min (int (length ?g)) n \<and> distinct (map pd_id ps)"
    using g(1) g(2)[OF g(1)] by auto
qed (rule empty_group_random[OF assms(1-3)])

definition upper_env :: "(string, bytes) smap env" where
  "upper_env = ref_env\<lparr>std_hash := \<lambda>_. 0x8000000000000005\<rparr>"

lemma upper_slice: "get_slice_for_key upper_env (ref_store\<lparr>nr_slices := 2\<rparr>) k = Ret 2"
proof -
  obtain s where "get_slice_for_key upper_env (ref_store\<lparr>nr_slices := 2\<rparr>) k = Ret (int s)" "1 \<le> s" "s \<le> 2" "unat (std_hash upper_env k) \<le> s * slice_step 2"
    using get_slice_for_key_range[of "ref_store\<lparr>nr_slices := 2\<rparr>" 2 upper_env k] by (auto simp: upper_env_def slice_step_def)
  moreover have "s \<noteq> 1" using calculation(4) by (auto simp: upper_env_def slice_step_def)
  ultimately show ?thesis by (auto simp: le_Suc_eq numeral_2_eq_2)
qed

theorem asks_group_of_key_witness:
  "\<exists>ps. sl_get_n_peers upper_env (\<lambda>n. n) [] ''/f:0'' 2 sample_lb = Ret ps \<and> (\<forall>p\<in>set ps. group 2 (pd_pos p) = 2) \<and> length ps = 1"
proof -
  have "nr_slices (ref_store\<lparr>nr_slices := 2\<rparr>) = sl_nr_groups sample_lb" "group_at (nat (2 - 1)) sample_lb = [gpeer 2 (9/10)]"
    by (simp_all add: sample_lb_def group_at_def)
  then show ?thesis
    using asks_group_of_key[OF sample_lb_wf _ upper_slice, of 2 "\<lambda>n. n" "[]" "''/f:0''"] by (auto simp: ordered_def)
qed

section \<open>Random peers\<close>

definition fronts :: "smart_lb \<Rightarrow> peer_data set" where
  "fronts s = hd ` set (filter (\<lambda>g. g \<noteq> []) (sl_view s))"

definition hits :: "nat list \<Rightarrow> smart_lb \<Rightarrow> nat" where
  "hits rs s = length (filter (\<lambda>r. group_at (r mod nat (sl_nr_groups s)) s \<noteq> []) rs)"

lemma front_in:
  assumes "group_at i s = p # ps"
  shows "p \<in> fronts s"
proof -
  have "i < length (sl_view s)" "sl_view s ! i = p # ps" using assms by (simp_all add: group_at_def split: if_splits)
  then have "p # ps \<in> set (sl_view s)" by (metis nth_mem)
  then show ?thesis unfolding fronts_def by (intro image_eqI[of _ _ "p # ps"]) simp_all
qed

text \<open>The set of the loop: fronts under their ids.\<close>

definition drawn :: "smart_lb \<Rightarrow> (long, peer_data) smap \<Rightarrow> bool" where
  "drawn s temp \<longleftrightarrow> (\<forall>i p. slookup temp i = Some p \<longrightarrow> pd_id p = i \<and> p \<in> fronts s)"

lemma drawn_emplace: "drawn s temp \<Longrightarrow> p \<in> fronts s \<Longrightarrow> drawn s (semplace (pd_id p) p temp)"
  by (auto simp: drawn_def slookup_semplace split: option.splits if_splits)

lemma ssize_emplace: "ssize (semplace i p temp) = (if slookup temp i = None then ssize temp + 1 else ssize temp)"
proof -
  have "slookup (semplace i p temp) = (if slookup temp i = None then (slookup temp)(i \<mapsto> p) else slookup temp)"
    by (rule ext) (auto simp: slookup_semplace split: option.splits)
  then have d: "dom (slookup (semplace i p temp)) = (if slookup temp i = None then insert i (dom (slookup temp)) else dom (slookup temp))"
    by simp
  show ?thesis by (cases "slookup temp i = None") (auto simp: ssize_card d domIff card_insert_if)
qed

lemma drawn_size:
  assumes "drawn s temp"
  shows "ssize temp \<le> card (pd_id ` fronts s)"
proof -
  have "finite (fronts s)" by (simp add: fronts_def)
  moreover have "dom (slookup temp) \<subseteq> pd_id ` fronts s" using assms by (force simp: drawn_def)
  ultimately show ?thesis by (simp add: ssize_card card_mono)
qed

lemma random_loop_sound:
  assumes "random_peers_loop rs s temp (ssize temp) tries = Ret ps" "drawn s temp"
  shows "\<exists>temp'. drawn s temp' \<and> ps = map snd (entries temp') \<and> ps \<noteq> []"
  using assms
proof (induction rs arbitrary: temp tries)
  case (Cons r rs)
  show ?case
  proof (cases "group_at (r mod nat (sl_nr_groups s)) s")
    case Nil
    then show ?thesis using Cons by simp
  next
    case (Cons front rest)
    let ?t = "semplace (pd_id front) front temp"
    have d: "drawn s ?t" using drawn_emplace[OF Cons.prems(2)[unfolded Cons]] front_in[OF Cons] by simp
    have "slookup ?t (pd_id front) \<noteq> None" by (simp add: slookup_semplace split: option.splits)
    then have "entries ?t \<noteq> []" by (metis empty_iff in_entries_iff list.set(1) not_Some_eq)
    then show ?thesis using Cons.prems(1) Cons.IH[of ?t] d Cons ssize_emplace[of "pd_id front" front temp]
      by (auto simp: Let_def split: if_splits)
  qed
qed simp

lemma random_loop_returns:
  assumes "drawn s temp" "0 < tries" "card (pd_id ` fronts s) - ssize temp + tries \<le> hits rs s"
  shows "\<exists>ps. random_peers_loop rs s temp (ssize temp) tries = Ret ps"
  using assms
proof (induction rs arbitrary: temp tries)
  case Nil
  then show ?case by (simp add: hits_def)
next
  case (Cons r rs)
  show ?case
  proof (cases "group_at (r mod nat (sl_nr_groups s)) s")
    case Nil
    then show ?thesis using Cons by (simp add: hits_def)
  next
    case g: (Cons front rest)
    let ?t = "semplace (pd_id front) front temp"
    have d: "drawn s ?t" using drawn_emplace[OF Cons.prems(1) front_in[OF g]] .
    have h: "hits (r # rs) s = Suc (hits rs s)" using g by (simp add: hits_def)
    show ?thesis
    proof (cases "slookup temp (pd_id front) = None")
      case True
      then have "ssize ?t = ssize temp + 1" by (simp add: ssize_emplace)
      then show ?thesis using Cons.IH[OF d Cons.prems(2)] drawn_size[OF d] Cons.prems(3) h g by (simp add: Let_def)
    next
      case False
      then have "ssize ?t = ssize temp" by (simp add: ssize_emplace)
      then show ?thesis using Cons.IH[OF d, of "tries - 1"] Cons.prems(2,3) h g by (simp add: Let_def)
    qed
  qed
qed

lemma random_loop_empty: "fronts s = {} \<Longrightarrow> random_peers_loop rs s temp n tries = Hang"
proof (induction rs arbitrary: temp n tries)
  case (Cons r rs)
  then show ?case using front_in[of "r mod nat (sl_nr_groups s)" s] by (cases "group_at (r mod nat (sl_nr_groups s)) s") auto
qed simp

lemma random_peers_hang: "fronts s = {} \<Longrightarrow> sl_get_n_random_peers rs n s = Hang"
  by (simp add: sl_get_n_random_peers_def random_loop_empty)

lemma drawn_sempty [simp]: "drawn s sempty" "ssize (sempty :: (long, peer_data) smap) = 0"
  by (simp_all add: drawn_def ssize_card dom_def)

lemma random_peers_known:
  assumes "sl_get_n_random_peers rs n s = Ret ps"
  shows "ps \<noteq> [] \<and> set ps \<subseteq> fronts s \<and> distinct (map pd_id ps)"
proof -
  obtain t where t: "drawn s t" "ps = map snd (entries t)" "ps \<noteq> []"
    using random_loop_sound[of rs s sempty 3 ps] assms by (auto simp: sl_get_n_random_peers_def)
  have e: "pd_id p = i \<and> p \<in> fronts s" if "(i, p) \<in> set (entries t)" for i p
    using t(1) that by (simp add: drawn_def in_entries_iff)
  then have "set ps \<subseteq> fronts s" "map pd_id ps = map fst (entries t)" using t(2) by (auto intro!: map_cong)
  then show ?thesis using t(3) by (metis distinct_entries)
qed

text \<open>
  C35. What a request for random peers gives. It does not depend on the number of peers asked for: when it returns, the result is a non-empty
  list of distinct peers, each the youngest known of its group. It returns once enough draws met groups with known peers, and it never returns
  while no peer is known; the caller then holds the lock of the view forever.
\<close>

theorem random_peers_outcome:
  "(sl_get_n_random_peers rs n s = Ret ps \<longrightarrow>
      ps \<noteq> [] \<and> set ps \<subseteq> fronts s \<and> distinct (map pd_id ps) \<and> sl_get_n_random_peers rs n' s = Ret ps) \<and>
    (card (pd_id ` fronts s) + 3 \<le> hits rs s \<longrightarrow> (\<exists>ps. sl_get_n_random_peers rs n s = Ret ps)) \<and>
    (fronts s = {} \<longrightarrow> sl_get_n_random_peers rs n s = Hang)"
  using random_peers_known[of rs n s ps] random_peers_hang[of s rs n] random_loop_returns[of s sempty 3 rs]
  by (auto simp: sl_get_n_random_peers_def)

theorem random_peers_outcome_witness:
  "\<exists>ps. sl_get_n_random_peers [0, 1, 0, 1, 0] 1 sample_lb = Ret ps \<and> ps \<noteq> [] \<and> set ps \<subseteq> {gpeer 1 (1/10), gpeer 2 (9/10)} \<and>
     sl_get_n_random_peers [0, 1, 0, 1, 0] 7 sample_lb = Ret ps"
proof -
  have f: "fronts sample_lb = {gpeer 1 (1/10), gpeer 2 (9/10)}" by (simp add: fronts_def sample_lb_def)
  have "card (pd_id ` fronts sample_lb) \<le> 2" unfolding f by (simp add: card_insert_if)
  moreover have "hits [0, 1, 0, 1, 0] sample_lb = 5" by (simp add: hits_def group_at_def sample_lb_def)
  ultimately have "card (pd_id ` fronts sample_lb) + 3 \<le> hits [0, 1, 0, 1, 0] sample_lb" by simp
  note o = random_peers_outcome[of "[0, 1, 0, 1, 0]" 1 sample_lb _ 7]
  obtain ps where ps: "sl_get_n_random_peers [0, 1, 0, 1, 0] 1 sample_lb = Ret ps"
    using o[THEN conjunct2, THEN conjunct1, rule_format, OF \<open>_ \<le> hits _ _\<close>] by blast
  from o[THEN conjunct1, rule_format, OF ps] ps f show ?thesis by auto
qed

end
