(* ===== verification/Dir_Cache.thy ===== *)
theory Dir_Cache
  imports Metadata "HOL-Library.AList"
begin

text \<open>
  The cache of directories of a mounted file system, part of \<^verbatim>\<open>lsfs/fuse_lsfs/lsfs_state.cpp\<close>: a list of directories, the most
  recently used first, and a hash table from paths to list iterators. A list node has an identity (a number), which
  is what an iterator refers to; \<open>cache_wf\<close> says that the table refers exactly to the nodes of the list.

  The locale \<open>lru_cache\<close> is the contract of the cache: it behaves as a list of bounded length whose first element was used last.
\<close>

section \<open>State\<close>

record directory =
  d_path :: string
  d_metadata :: metadata
  d_last_update :: timespec

record dir_cache =
  dir_cache_list :: "(nat \<times> directory) list"
  dir_cache_map :: "(string \<times> nat) list"
  dir_cache_map_mutex :: "string set"
  next_node :: nat
  max_directories_in_cache :: nat

definition push_front :: "directory \<Rightarrow> dir_cache \<Rightarrow> dir_cache" where
  "push_front d c = c\<lparr>dir_cache_list := (next_node c, d) # dir_cache_list c, next_node := next_node c + 1\<rparr>"

definition erase_node :: "nat \<Rightarrow> dir_cache \<Rightarrow> dir_cache" where
  "erase_node i c = c\<lparr>dir_cache_list := filter (\<lambda>n. fst n \<noteq> i) (dir_cache_list c)\<rparr>"

text \<open>The node a path refers to. Following an iterator to an erased node is undefined behaviour; the operations below do nothing
  then, and \<open>cache_wf\<close> excludes it.\<close>

definition find_node :: "string \<Rightarrow> dir_cache \<Rightarrow> (nat \<times> directory) option" where
  "find_node path c =
     (case map_of (dir_cache_map c) path of
        None \<Rightarrow> None
      | Some i \<Rightarrow> map_option (\<lambda>d. (i, d)) (map_of (dir_cache_list c) i))"

section \<open>Operations\<close>

text \<open>Moving a directory to the front of the list.\<close>

definition move_to_front :: "string \<Rightarrow> nat \<Rightarrow> directory \<Rightarrow> dir_cache \<Rightarrow> dir_cache" where
  "move_to_front path i d c =
     (let c' = push_front d (erase_node i c) in c'\<lparr>dir_cache_map := AList.update path (next_node c) (dir_cache_map c')\<rparr>)"

definition evict :: "dir_cache \<Rightarrow> dir_cache" where
  "evict c =
     (if length (dir_cache_map c) > max_directories_in_cache c \<and> dir_cache_list c \<noteq> [] then
        (let path_to_del = d_path (snd (last (dir_cache_list c))) in
         case map_of (dir_cache_map c) path_to_del of
           None \<Rightarrow> c
         | Some _ \<Rightarrow> c\<lparr>dir_cache_list := butlast (dir_cache_list c),
                       dir_cache_map := AList.delete path_to_del (dir_cache_map c),
                       dir_cache_map_mutex := dir_cache_map_mutex c - {path_to_del}\<rparr>)
      else c)"

definition add_to_dir_cache :: "timespec \<Rightarrow> string \<Rightarrow> metadata \<Rightarrow> dir_cache \<Rightarrow> dir_cache" where
  "add_to_dir_cache now path met c =
     evict (case find_node path c of
              Some (i, d) \<Rightarrow> move_to_front path i (d\<lparr>d_metadata := met\<rparr>) c
            | None \<Rightarrow>
                (let c' = push_front \<lparr>d_path = path, d_metadata = met, d_last_update = now\<rparr> c
                 in c'\<lparr>dir_cache_map := dir_cache_map c' @ [(path, next_node c)],
                       dir_cache_map_mutex := insert path (dir_cache_map_mutex c')\<rparr>))"

definition remove_from_dir_cache :: "string \<Rightarrow> dir_cache \<Rightarrow> dir_cache" where
  "remove_from_dir_cache path c =
     (case map_of (dir_cache_map c) path of
        None \<Rightarrow> c
      | Some i \<Rightarrow> (erase_node i c)\<lparr>dir_cache_map := AList.delete path (dir_cache_map c),
                                    dir_cache_map_mutex := dir_cache_map_mutex c - {path}\<rparr>)"

definition check_if_cache_full :: "dir_cache \<Rightarrow> bool" where
  "check_if_cache_full c \<longleftrightarrow> length (dir_cache_map c) > max_directories_in_cache c"

text \<open>Changing a cached directory in place.\<close>

definition update_node :: "string \<Rightarrow> (directory \<Rightarrow> directory) \<Rightarrow> dir_cache \<Rightarrow> dir_cache" where
  "update_node path f c =
     (case map_of (dir_cache_map c) path of
        None \<Rightarrow> c
      | Some i \<Rightarrow> c\<lparr>dir_cache_list := map (\<lambda>(j, d). (j, if j = i then f d else d)) (dir_cache_list c)\<rparr>)"

definition add_child_to_dir_cache :: "string \<Rightarrow> string \<Rightarrow> bool \<Rightarrow> dir_cache \<Rightarrow> dir_cache" where
  "add_child_to_dir_cache parent_path child_name is_dir =
     update_node parent_path (\<lambda>d. d\<lparr>d_metadata := (d_metadata d)\<lparr>childs := add_child child_name is_dir (childs (d_metadata d))\<rparr>\<rparr>)"

definition remove_child_from_dir_cache :: "string \<Rightarrow> string \<Rightarrow> bool \<Rightarrow> dir_cache \<Rightarrow> dir_cache" where
  "remove_child_from_dir_cache parent_path child_name is_dir =
     update_node parent_path (\<lambda>d. d\<lparr>d_metadata := (d_metadata d)\<lparr>childs := remove_child child_name is_dir (childs (d_metadata d))\<rparr>\<rparr>)"

definition is_dir_cached :: "string \<Rightarrow> dir_cache \<Rightarrow> bool" where
  "is_dir_cached path c \<longleftrightarrow> map_of (dir_cache_map c) path \<noteq> None"

text \<open>Both functions \<^verbatim>\<open>get_metadata_if_dir_cached\<close>: the directory, and the cache in which it is the most recently used.\<close>

definition get_metadata_if_dir_cached :: "string \<Rightarrow> dir_cache \<Rightarrow> directory option \<times> dir_cache" where
  "get_metadata_if_dir_cached path c =
     (case find_node path c of
        None \<Rightarrow> (None, c)
      | Some (i, d) \<Rightarrow> (Some d, move_to_front path i d c))"

text \<open>Whether the cached directory has no children, and whether it is cached.\<close>

definition is_dir_childs_empty :: "string \<Rightarrow> dir_cache \<Rightarrow> bool \<times> bool" where
  "is_dir_childs_empty path c =
     (case find_node path c of
        None \<Rightarrow> (False, False)
      | Some (_, d) \<Rightarrow> (childs_is_empty (childs (d_metadata d)), True))"

definition clear_all_dir_cache :: "dir_cache \<Rightarrow> dir_cache" where
  "clear_all_dir_cache c = c\<lparr>dir_cache_map := [], dir_cache_list := [], dir_cache_map_mutex := {}\<rparr>"

section \<open>Well-formedness and abstraction\<close>

abbreviation node_path :: "nat \<times> directory \<Rightarrow> string" where
  "node_path n \<equiv> d_path (snd n)"

abbreviation table :: "(nat \<times> directory) list \<Rightarrow> (string \<times> nat) list" where
  "table l \<equiv> map (\<lambda>n. (node_path n, fst n)) l"

definition cache_wf :: "dir_cache \<Rightarrow> bool" where
  "cache_wf c \<longleftrightarrow>
     distinct (map fst (dir_cache_list c)) \<and> (\<forall>n\<in>set (dir_cache_list c). fst n < next_node c) \<and>
     distinct (map node_path (dir_cache_list c)) \<and> distinct (map fst (dir_cache_map c)) \<and>
     map_of (dir_cache_map c) = map_of (table (dir_cache_list c)) \<and>
     dir_cache_map_mutex c = dom (map_of (dir_cache_map c))"

text \<open>The specification: cached paths and their metadata, the last used first.\<close>

type_synonym lru = "(string \<times> metadata) list"

definition lru_of :: "dir_cache \<Rightarrow> lru" where
  "lru_of c = map (\<lambda>n. (node_path n, d_metadata (snd n))) (dir_cache_list c)"

definition lru_put :: "nat \<Rightarrow> string \<Rightarrow> metadata \<Rightarrow> lru \<Rightarrow> lru" where
  "lru_put n p m l = take n ((p, m) # AList.delete p l)"

definition lru_touch :: "string \<Rightarrow> lru \<Rightarrow> lru" where
  "lru_touch p l = (case map_of l p of None \<Rightarrow> l | Some m \<Rightarrow> (p, m) # AList.delete p l)"

definition lru_update :: "string \<Rightarrow> (metadata \<Rightarrow> metadata) \<Rightarrow> lru \<Rightarrow> lru" where
  "lru_update p f l = map (\<lambda>(q, m). (q, if q = p then f m else m)) l"

lemma length_dom: "distinct (map fst xs) \<Longrightarrow> length xs = card (dom (map_of xs))"
  by (metis distinct_card dom_map_of_conv_image_fst length_map list.set_map)

lemma wf_length: "cache_wf c \<Longrightarrow> length (dir_cache_map c) = length (dir_cache_list c)"
  using length_dom[of "dir_cache_map c"] length_dom[of "table (dir_cache_list c)"]
  by (simp add: cache_wf_def comp_def)

lemma wf_table:
  "cache_wf c \<Longrightarrow> map_of (dir_cache_map c) p = Some j \<longleftrightarrow> (\<exists>n\<in>set (dir_cache_list c). node_path n = p \<and> fst n = j)"
  using map_of_eq_Some_iff[of "table (dir_cache_list c)" p j] by (auto simp: cache_wf_def comp_def)

lemma wf_find_node:
  assumes "cache_wf c"
  shows "find_node p c = Some (i, d) \<longleftrightarrow> (i, d) \<in> set (dir_cache_list c) \<and> d_path d = p"
proof -
  have t: "map_of (dir_cache_map c) p = Some j \<longleftrightarrow> (\<exists>n\<in>set (dir_cache_list c). node_path n = p \<and> fst n = j)" for j
    by (rule wf_table[OF assms])
  have l: "map_of (dir_cache_list c) j = Some e \<longleftrightarrow> (j, e) \<in> set (dir_cache_list c)" for j e
    using assms by (simp add: cache_wf_def)
  show ?thesis
  proof
    assume "find_node p c = Some (i, d)"
    then have f: "map_of (dir_cache_map c) p = Some i" "(i, d) \<in> set (dir_cache_list c)"
      using l by (auto simp: find_node_def split: option.splits)
    with t obtain n where n: "n \<in> set (dir_cache_list c)" "node_path n = p" "fst n = i" by blast
    then have "map_of (dir_cache_list c) i = Some (snd n)" using l[of i "snd n"] by auto
    then have "snd n = d" using f(2) l[of i d] by simp
    with f(2) n(2) show "(i, d) \<in> set (dir_cache_list c) \<and> d_path d = p" by simp
  next
    assume a: "(i, d) \<in> set (dir_cache_list c) \<and> d_path d = p"
    then have "map_of (dir_cache_map c) p = Some i" using t by force
    with a l show "find_node p c = Some (i, d)" by (simp add: find_node_def)
  qed
qed

lemma wf_find_node_None:
  assumes "cache_wf c"
  shows "find_node p c = None \<longleftrightarrow> map_of (dir_cache_map c) p = None"
proof (cases "map_of (dir_cache_map c) p")
  case (Some i)
  then obtain n where "n \<in> set (dir_cache_list c)" "node_path n = p" using wf_table[OF assms] by blast
  then show ?thesis using wf_find_node[OF assms, of p "fst n" "snd n"] Some by simp
qed (simp add: find_node_def)

lemma wf_find_lru:
  assumes "cache_wf c"
  shows "map_option (d_metadata \<circ> snd) (find_node p c) = map_of (lru_of c) p"
proof (cases "find_node p c")
  case None
  then have "p \<notin> dom (map_of (table (dir_cache_list c)))"
    using wf_find_node_None[OF assms] assms by (auto simp: cache_wf_def)
  then have "map_of (lru_of c) p = None" by (simp add: lru_of_def map_of_eq_None_iff dom_map_of_conv_image_fst image_image)
  then show ?thesis using None by simp
next
  case (Some n)
  obtain i d where n: "n = (i, d)" by fastforce
  have "(p, d_metadata d) \<in> set (lru_of c)" "distinct (map fst (lru_of c))"
    using Some n wf_find_node[OF assms, of p i d] assms by (force simp: lru_of_def cache_wf_def comp_def)+
  then show ?thesis using Some n by simp
qed

lemma erase_by_path:
  assumes "cache_wf c" "(i, d) \<in> set (dir_cache_list c)"
  shows "filter (\<lambda>n. fst n \<noteq> i) (dir_cache_list c) = filter (\<lambda>n. node_path n \<noteq> d_path d) (dir_cache_list c)"
proof (rule filter_cong[OF refl])
  fix n assume n: "n \<in> set (dir_cache_list c)"
  have "inj_on fst (set (dir_cache_list c))" "inj_on node_path (set (dir_cache_list c))"
    using assms(1) by (simp_all add: cache_wf_def distinct_map)
  then show "fst n \<noteq> i \<longleftrightarrow> node_path n \<noteq> d_path d"
    using n assms(2) by (metis fst_conv inj_onD snd_conv)
qed

lemma table_filter: "map_of (table (filter (\<lambda>n. node_path n \<noteq> p) l)) = (map_of (table l))(p := None)"
  by (induction l) (auto simp: fun_eq_iff)

lemma lru_filter: "map (\<lambda>n. (node_path n, d_metadata (snd n))) (filter (\<lambda>n. node_path n \<noteq> p) l) =
    AList.delete p (map (\<lambda>n. (node_path n, d_metadata (snd n))) l)"
  by (induction l) (auto simp: AList.delete_eq)

lemma move_to_front_wf:
  assumes "cache_wf c" "(i, d) \<in> set (dir_cache_list c)" "d_path d' = d_path d"
  shows "cache_wf (move_to_front (d_path d) i d' c) \<and>
    lru_of (move_to_front (d_path d) i d' c) = (d_path d, d_metadata d') # AList.delete (d_path d) (lru_of c)"
proof -
  note w = assms(1)[unfolded cache_wf_def]
  have "i < next_node c" using w assms(2) by auto
  moreover have "dom (map_of (dir_cache_map c)) = insert (d_path d) (dom (map_of (dir_cache_map c)))"
    using w assms(2) by (force simp: dom_map_of_conv_image_fst)
  ultimately show ?thesis
    using w assms(3) erase_by_path[OF assms(1,2)]
    by (auto simp: move_to_front_def cache_wf_def push_front_def erase_node_def Let_def lru_of_def lru_filter update_conv'
        table_filter distinct_update distinct_map_filter)
qed

lemma insert_wf:
  assumes "cache_wf c" "find_node p c = None" "d_path d = p"
  defines "c' \<equiv> (push_front d c)\<lparr>dir_cache_map := dir_cache_map c @ [(p, next_node c)],
      dir_cache_map_mutex := insert p (dir_cache_map_mutex c)\<rparr>"
  shows "cache_wf c' \<and> lru_of c' = (p, d_metadata d) # lru_of c"
proof -
  note w = assms(1)[unfolded cache_wf_def]
  have n: "map_of (dir_cache_map c) p = None" using assms(1,2) wf_find_node_None by simp
  then have "map_of (table (dir_cache_list c)) p = None" using w by simp
  then have "p \<notin> node_path ` set (dir_cache_list c)" by (simp add: map_of_eq_None_iff image_image)
  moreover have "p \<notin> fst ` set (dir_cache_map c)" using n by (simp add: map_of_eq_None_iff)
  moreover note n
  ultimately show ?thesis using w assms(3)
    by (auto simp: c'_def cache_wf_def push_front_def lru_of_def map_add_def fun_eq_iff split: option.splits)
qed

lemma evict_wf:
  assumes "cache_wf c" "length (lru_of c) \<le> max_directories_in_cache c + 1"
  shows "cache_wf (evict c) \<and> lru_of (evict c) = take (max_directories_in_cache c) (lru_of c)"
proof (cases "length (dir_cache_map c) > max_directories_in_cache c \<and> dir_cache_list c \<noteq> []")
  case True
  note w = assms(1)[unfolded cache_wf_def]
  let ?l = "dir_cache_list c"
  obtain n ns where l: "?l = ns @ [n]" using True by (metis append_butlast_last_id)
  have m: "map_of (dir_cache_map c) (node_path n) = Some (fst n)" using wf_table[OF assms(1)] l by auto
  have "node_path n \<notin> node_path ` set ns" using w by (auto simp: l)
  then have t: "map_of (table ns) = (map_of (table ?l))(node_path n := None)"
    by (auto simp: l fun_eq_iff map_add_def map_of_eq_None_iff image_image split: option.splits)
  have "length ns = max_directories_in_cache c"
    using True wf_length[OF assms(1)] assms(2) l by (simp add: lru_of_def)
  moreover have e: "evict c = c\<lparr>dir_cache_list := ns, dir_cache_map := AList.delete (node_path n) (dir_cache_map c),
      dir_cache_map_mutex := dir_cache_map_mutex c - {node_path n}\<rparr>"
    using True m by (simp add: evict_def l Let_def)
  moreover have "cache_wf (evict c)"
  proof -
    have "map_of (AList.delete (node_path n) (dir_cache_map c)) = map_of (table ns)"
      "dir_cache_map_mutex c - {node_path n} = dom (map_of (table ns))"
      unfolding delete_conv' t using w by auto
    moreover have "distinct (map fst ns)" "\<forall>n\<in>set ns. fst n < next_node c" "distinct (map node_path ns)"
      "distinct (map fst (AList.delete (node_path n) (dir_cache_map c)))"
      using w by (auto simp: l distinct_delete)
    ultimately show ?thesis unfolding e cache_wf_def by simp
  qed
  ultimately show ?thesis by (simp add: lru_of_def l)
next
  case False
  then have "length (lru_of c) \<le> max_directories_in_cache c" using wf_length[OF assms(1)] by (auto simp: lru_of_def)
  moreover have "evict c = c" using False by (simp only: evict_def if_False)
  ultimately show ?thesis using assms(1) by simp
qed

text \<open>The capacity is respected and the cache is well formed.\<close>

definition cache_ok :: "dir_cache \<Rightarrow> bool" where
  "cache_ok c \<longleftrightarrow> cache_wf c \<and> length (lru_of c) \<le> max_directories_in_cache c"

lemma lru_distinct: "cache_wf c \<Longrightarrow> distinct (map fst (lru_of c))"
  by (simp add: lru_of_def cache_wf_def comp_def)

lemma delete_unknown: "map_of l p = None \<Longrightarrow> AList.delete p l = l"
  by (simp only: delete_id map_of_eq_None_iff not_False_eq_True)

lemma length_delete_Suc: "map_of l p = Some m \<Longrightarrow> distinct (map fst l) \<Longrightarrow> length (AList.delete p l) + 1 = length l"
proof (induction l)
  case (Cons x l)
  then show ?case using delete_id[of p l] by (cases "fst x = p") auto
qed simp

lemma add_frame [simp]:
  "max_directories_in_cache (add_to_dir_cache now p m c) = max_directories_in_cache c"
  by (simp add: add_to_dir_cache_def evict_def move_to_front_def push_front_def erase_node_def Let_def split: option.splits prod.splits)

lemma other_frames [simp]:
  "max_directories_in_cache (snd (get_metadata_if_dir_cached p c)) = max_directories_in_cache c"
  "max_directories_in_cache (remove_from_dir_cache p c) = max_directories_in_cache c"
  "max_directories_in_cache (update_node p f c) = max_directories_in_cache c"
  by (simp_all add: get_metadata_if_dir_cached_def remove_from_dir_cache_def update_node_def move_to_front_def push_front_def erase_node_def
      Let_def split: option.splits prod.splits)

lemma add_lru:
  assumes "cache_ok c"
  shows "cache_wf (add_to_dir_cache now p m c) \<and>
    lru_of (add_to_dir_cache now p m c) = lru_put (max_directories_in_cache c) p m (lru_of c)"
proof (cases "find_node p c")
  case None
  let ?d = "\<lparr>d_path = p, d_metadata = m, d_last_update = now\<rparr>"
  let ?c = "(push_front ?d c)\<lparr>dir_cache_map := dir_cache_map c @ [(p, next_node c)],
      dir_cache_map_mutex := insert p (dir_cache_map_mutex c)\<rparr>"
  have i: "cache_wf ?c" "lru_of ?c = (p, m) # lru_of c"
    using insert_wf[OF _ None, of ?d] assms by (auto simp: cache_ok_def)
  have f: "AList.delete p (lru_of c) = lru_of c"
    using None wf_find_lru[of c p] assms delete_unknown[of "lru_of c" p] by (simp add: cache_ok_def)
  have "max_directories_in_cache ?c = max_directories_in_cache c" by (simp add: push_front_def)
  with evict_wf[OF i(1)] i(2) f None assms show ?thesis
    by (simp add: add_to_dir_cache_def lru_put_def cache_ok_def push_front_def)
next
  case (Some n)
  obtain i d where n: "n = (i, d)" by fastforce
  have d: "(i, d) \<in> set (dir_cache_list c)" "d_path d = p" using wf_find_node Some n assms by (auto simp: cache_ok_def)
  let ?c = "move_to_front p i (d\<lparr>d_metadata := m\<rparr>) c"
  have i: "cache_wf ?c" "lru_of ?c = (p, m) # AList.delete p (lru_of c)"
    using move_to_front_wf[OF _ d(1), of "d\<lparr>d_metadata := m\<rparr>"] d(2) assms by (auto simp: cache_ok_def)
  have "map_of (lru_of c) p = Some (d_metadata d)" using wf_find_lru[of c p] Some n assms by (simp add: cache_ok_def)
  then have "length (lru_of ?c) = length (lru_of c)"
    using length_delete_Suc[of "lru_of c" p "d_metadata d"] lru_distinct[of c] assms i(2) by (simp add: cache_ok_def)
  moreover have "max_directories_in_cache ?c = max_directories_in_cache c"
    by (simp add: move_to_front_def push_front_def erase_node_def Let_def)
  ultimately show ?thesis using evict_wf[OF i(1)] i(2) Some n assms
    by (simp add: add_to_dir_cache_def lru_put_def cache_ok_def)
qed

lemma get_lru:
  assumes "cache_wf c"
  shows "map_option d_metadata (fst (get_metadata_if_dir_cached p c)) = map_of (lru_of c) p \<and>
    cache_wf (snd (get_metadata_if_dir_cached p c)) \<and>
    lru_of (snd (get_metadata_if_dir_cached p c)) = lru_touch p (lru_of c)"
proof (cases "find_node p c")
  case (Some n)
  obtain i d where n: "n = (i, d)" by fastforce
  have d: "(i, d) \<in> set (dir_cache_list c)" "d_path d = p" using wf_find_node Some n assms by auto
  have "map_of (lru_of c) p = Some (d_metadata d)" using wf_find_lru[of c p] Some n assms by simp
  with move_to_front_wf[OF assms d(1), of d] d(2) Some n show ?thesis
    by (simp add: get_metadata_if_dir_cached_def lru_touch_def)
qed (use assms wf_find_lru[of c p] in \<open>simp add: get_metadata_if_dir_cached_def lru_touch_def\<close>)

lemma remove_lru:
  assumes "cache_wf c"
  shows "cache_wf (remove_from_dir_cache p c) \<and> lru_of (remove_from_dir_cache p c) = AList.delete p (lru_of c)"
proof (cases "map_of (dir_cache_map c) p")
  case None
  then have "map_of (lru_of c) p = None" using wf_find_lru[OF assms, of p] wf_find_node_None[OF assms, of p] by simp
  from delete_unknown[OF this] show ?thesis using None assms by (simp add: remove_from_dir_cache_def)
next
  case (Some i)
  then obtain n where n: "n \<in> set (dir_cache_list c)" "node_path n = p" "fst n = i" using wf_table[OF assms] by blast
  then have e: "filter (\<lambda>n. fst n \<noteq> i) (dir_cache_list c) = filter (\<lambda>n. node_path n \<noteq> p) (dir_cache_list c)"
    using erase_by_path[OF assms, of i "snd n"] by auto
  show ?thesis using Some e assms
    by (auto simp: remove_from_dir_cache_def cache_wf_def erase_node_def lru_of_def lru_filter table_filter delete_conv' distinct_delete
        distinct_map_filter)
qed

lemma update_lru:
  assumes "cache_wf c" "\<And>d. d_path (f d) = d_path d" "\<And>d. d_metadata (f d) = g (d_metadata d)"
  shows "cache_wf (update_node p f c) \<and> lru_of (update_node p f c) = lru_update p g (lru_of c)"
proof (cases "map_of (dir_cache_map c) p")
  case None
  then have "map_of (lru_of c) p = None" using wf_find_lru[OF assms(1), of p] wf_find_node_None[OF assms(1), of p] by simp
  then have "lru_update p g (lru_of c) = lru_of c"
    by (force simp: lru_update_def map_of_eq_None_iff intro!: map_idI)
  then show ?thesis using None assms(1) by (simp add: update_node_def)
next
  case (Some i)
  let ?f = "\<lambda>(j, d). (j, if j = i then f d else d)"
  obtain n where n: "n \<in> set (dir_cache_list c)" "node_path n = p" "fst n = i" using Some wf_table[OF assms(1)] by blast
  have inj: "inj_on fst (set (dir_cache_list c))" "inj_on node_path (set (dir_cache_list c))"
    using assms(1) by (simp_all add: cache_wf_def distinct_map)
  have same: "fst (?f x) = fst x" "node_path (?f x) = node_path x" for x
    using assms(2) by (auto split: prod.splits)
  have eq: "fst x = i \<longleftrightarrow> node_path x = p" if "x \<in> set (dir_cache_list c)" for x
    using inj n that by (metis inj_onD)
  have u: "update_node p f c = c\<lparr>dir_cache_list := map ?f (dir_cache_list c)\<rparr>" using Some by (simp add: update_node_def)
  have "cache_wf (update_node p f c)"
    using assms(1) unfolding u cache_wf_def by (simp add: comp_def same)
  moreover have "lru_of (update_node p f c) = lru_update p g (lru_of c)"
    unfolding u lru_of_def lru_update_def using eq assms(2,3) by (auto split: prod.splits) blast+
  ultimately show ?thesis by blast
qed

section \<open>The contract of the cache\<close>

lemma take_middle: "length xs < n \<Longrightarrow> take n (xs @ y # ys) = xs @ y # take (n - length xs - 1) ys"
  by (cases "n - length xs") simp_all

locale lru_cache =
  fixes content :: "'c \<Rightarrow> lru" and ok :: "'c \<Rightarrow> bool" and capacity :: "'c \<Rightarrow> nat" and add :: "string \<Rightarrow> metadata \<Rightarrow> 'c \<Rightarrow> 'c"
  assumes add_ok: "ok c \<Longrightarrow> ok (add p m c)"
    and add_capacity: "capacity (add p m c) = capacity c"
    and add_content: "ok c \<Longrightarrow> content (add p m c) = lru_put (capacity c) p m (content c)"
    and content_distinct: "ok c \<Longrightarrow> distinct (map fst (content c))"
begin

definition adds :: "(string \<times> metadata) list \<Rightarrow> 'c \<Rightarrow> 'c" where
  "adds xs = fold (\<lambda>(q, m). add q m) xs"

lemma adds_simps [simp]: "adds [] c = c" "adds ((q, m) # xs) c = adds xs (add q m c)"
  by (simp_all add: adds_def)

text \<open>Entries in front of a path were added after it.\<close>

lemma adds_keep:
  assumes "ok c" "content c = front @ (p, m) # rear" "fst ` set front \<subseteq> Q" "finite Q" "p \<notin> fst ` set xs"
    and "card (Q \<union> fst ` set xs) < capacity c"
  shows "map_of (content (adds xs c)) p = Some m"
  using assms
proof (induction xs arbitrary: c front rear Q)
  case Nil
  have "distinct (map fst (content c))" using Nil.prems(1) by (rule content_distinct)
  then have "p \<notin> fst ` set front" using Nil.prems(2) by auto
  then show ?case using Nil.prems(2) by (simp add: map_add_def map_of_eq_None_iff[THEN iffD2])
next
  case (Cons x xs)
  obtain q m' where x: "x = (q, m')" by fastforce
  let ?front = "(q, m') # AList.delete q front"
  have d: "distinct (map fst (content c))" using Cons.prems(1) by (rule content_distinct)
  have sub: "fst ` set ?front \<subseteq> insert q Q" using Cons.prems(3) by (force simp: AList.delete_eq)
  have "distinct (map fst ?front)" using d Cons.prems(2) by (simp add: delete_keys distinct_removeAll)
  with sub have "length ?front \<le> card (insert q Q)"
    by (metis (no_types) Cons.prems(4) card_mono distinct_card finite.insertI length_map list.set_map)
  also have "\<dots> \<le> card (Q \<union> fst ` set (x # xs))" using Cons.prems(4) by (intro card_mono) (auto simp: x)
  finally have len: "length ?front < capacity c" using Cons.prems(6) by simp
  have qp: "q \<noteq> p" using Cons.prems(5) x by auto
  have "content (add q m' c) = take (capacity c) (?front @ (p, m) # AList.delete q rear)"
    using add_content[OF Cons.prems(1)] Cons.prems(2) qp by (simp add: lru_put_def AList.delete_eq)
  also have "\<dots> = ?front @ (p, m) # take (capacity c - length ?front - 1) (AList.delete q rear)"
    using len by (rule take_middle)
  finally have c: "content (add q m' c) = ?front @ (p, m) # take (capacity c - length ?front - 1) (AList.delete q rear)" .
  have "card (insert q Q \<union> fst ` set xs) < capacity (add q m' c)"
    using Cons.prems(6) x by (simp add: add_capacity)
  from Cons.IH[OF add_ok[OF Cons.prems(1)] c sub _ _ this] Cons.prems(4,5) x show ?case by simp
qed

lemma recently_added_stays:
  assumes "ok c" "p \<notin> fst ` set xs" "card (fst ` set xs) < capacity c"
  shows "map_of (content (adds xs (add p m c))) p = Some m"
proof -
  have "content (add p m c) = [] @ (p, m) # take (capacity c - 1) (AList.delete p (content c))"
    using add_content[OF assms(1)] assms(3) by (cases "capacity c") (simp_all add: lru_put_def)
  from adds_keep[OF add_ok[OF assms(1)] this, of "{}" xs] assms(2,3) show ?thesis by (simp add: add_capacity)
qed

end

interpretation dc: lru_cache lru_of cache_ok max_directories_in_cache "add_to_dir_cache now" for now
proof
  fix c p m
  show "cache_ok c \<Longrightarrow> cache_ok (add_to_dir_cache now p m c)"
    using add_lru[of c now p m] by (simp add: cache_ok_def lru_put_def)
  show "cache_ok c \<Longrightarrow> lru_of (add_to_dir_cache now p m c) = lru_put (max_directories_in_cache c) p m (lru_of c)"
    using add_lru by blast
  show "cache_ok c \<Longrightarrow> distinct (map fst (lru_of c))" using lru_distinct by (simp add: cache_ok_def)
qed simp

section \<open>Properties\<close>

text \<open>
  C16. The directory cache is a least-recently-used cache. Its list and its table of iterators always agree, so no iterator dangles; adding a directory puts
  it in front and drops the last one beyond the capacity; a lookup returns what was last stored and moves it to the
  front; removal and the changes of children act on exactly that path.
\<close>

theorem dir_cache_refines_lru:
  assumes "cache_ok c"
  shows "(cache_ok (add_to_dir_cache now p m c) \<and>
      lru_of (add_to_dir_cache now p m c) = lru_put (max_directories_in_cache c) p m (lru_of c)) \<and>
    (map_option d_metadata (fst (get_metadata_if_dir_cached p c)) = map_of (lru_of c) p \<and>
      cache_ok (snd (get_metadata_if_dir_cached p c)) \<and>
      lru_of (snd (get_metadata_if_dir_cached p c)) = lru_touch p (lru_of c)) \<and>
    (cache_ok (remove_from_dir_cache p c) \<and> lru_of (remove_from_dir_cache p c) = AList.delete p (lru_of c)) \<and>
    (cache_ok (add_child_to_dir_cache p n b c) \<and>
      lru_of (add_child_to_dir_cache p n b c) = lru_update p (\<lambda>m. m\<lparr>childs := add_child n b (childs m)\<rparr>) (lru_of c)) \<and>
    (cache_ok (remove_child_from_dir_cache p n b c) \<and>
      lru_of (remove_child_from_dir_cache p n b c) = lru_update p (\<lambda>m. m\<lparr>childs := remove_child n b (childs m)\<rparr>) (lru_of c))"
proof (intro conjI)
  have wf: "cache_wf c" "length (lru_of c) \<le> max_directories_in_cache c" using assms by (simp_all add: cache_ok_def)
  show "cache_ok (add_to_dir_cache now p m c)" by (rule dc.add_ok[OF assms])
  show "lru_of (add_to_dir_cache now p m c) = lru_put (max_directories_in_cache c) p m (lru_of c)"
    by (rule dc.add_content[OF assms])
  note g = get_lru[OF wf(1), of p]
  then show "map_option d_metadata (fst (get_metadata_if_dir_cached p c)) = map_of (lru_of c) p"
    "lru_of (snd (get_metadata_if_dir_cached p c)) = lru_touch p (lru_of c)" by blast+
  show "cache_ok (snd (get_metadata_if_dir_cached p c))"
    using g wf lru_distinct[OF wf(1)] length_delete_Suc[of "lru_of c" p]
    by (auto simp: cache_ok_def lru_touch_def split: option.splits)
  note r = remove_lru[OF wf(1), of p]
  then show "lru_of (remove_from_dir_cache p c) = AList.delete p (lru_of c)" by blast
  show "cache_ok (remove_from_dir_cache p c)"
    using r wf(2) length_delete_le[of p "lru_of c"] by (simp add: cache_ok_def)
  note u = update_lru[OF wf(1)]
  show "lru_of (add_child_to_dir_cache p n b c) = lru_update p (\<lambda>m. m\<lparr>childs := add_child n b (childs m)\<rparr>) (lru_of c)"
    "lru_of (remove_child_from_dir_cache p n b c) = lru_update p (\<lambda>m. m\<lparr>childs := remove_child n b (childs m)\<rparr>) (lru_of c)"
    unfolding add_child_to_dir_cache_def remove_child_from_dir_cache_def using u by simp_all
  show "cache_ok (add_child_to_dir_cache p n b c)" "cache_ok (remove_child_from_dir_cache p n b c)"
    unfolding add_child_to_dir_cache_def remove_child_from_dir_cache_def cache_ok_def
    using u wf(2) by (simp_all add: lru_update_def)
qed

definition sample_cache :: dir_cache where
  "sample_cache = \<lparr>dir_cache_list = [], dir_cache_map = [], dir_cache_map_mutex = {}, next_node = 0, max_directories_in_cache = 2\<rparr>"

definition sample_dir :: metadata where
  "sample_dir = metadata_of_attr zero_stat"

lemma sample_cache_ok: "cache_ok sample_cache"
  by (simp add: cache_ok_def cache_wf_def sample_cache_def lru_of_def)

theorem dir_cache_refines_lru_witness:
  "lru_of (add_to_dir_cache \<lparr>tv_sec = 0, tv_nsec = 0\<rparr> ''/a'' sample_dir sample_cache) = [(''/a'', sample_dir)]"
  using dir_cache_refines_lru[OF sample_cache_ok, of "\<lparr>tv_sec = 0, tv_nsec = 0\<rparr>" "''/a''" sample_dir]
  by (simp add: lru_put_def lru_of_def sample_cache_def)

text \<open>
  What was used last stays: after a directory was added, fewer than \<^verbatim>\<open>max_directories_in_cache\<close> other directories, added any number of
  times and in any order, do not evict it.
\<close>

theorem recently_cached_stays:
  assumes "cache_ok c" "p \<notin> fst ` set xs" "card (fst ` set xs) < max_directories_in_cache c"
  shows "map_of (lru_of (fold (\<lambda>(q, m). add_to_dir_cache now q m) xs (add_to_dir_cache now p met c))) p = Some met"
  using dc.recently_added_stays[OF assms] by (simp add: dc.adds_def)

theorem recently_cached_stays_witness:
  "\<forall>now. map_of (lru_of (fold (\<lambda>(q, m). add_to_dir_cache now q m) [(''/b'', sample_dir), (''/b'', sample_dir)]
     (add_to_dir_cache now ''/a'' sample_dir sample_cache))) ''/a'' = Some sample_dir"
  by (intro allI recently_cached_stays[OF sample_cache_ok]) (simp_all add: sample_cache_def)

end
