(* ===== verification/Client_Batch.thy ===== *)
theory Client_Batch
  imports Client
begin

text \<open>
  The batched operations of \<^verbatim>\<open>df_client/client.cpp\<close>: \<^verbatim>\<open>put_batch\<close>, \<^verbatim>\<open>get_latest_batch\<close> and \<^verbatim>\<open>get_metadata_batch\<close>.

  A batch first registers and sends all its elements and then makes passes over the incomplete ones. The vectors the
  code indexes in parallel (keys, data, sizes, request ids, flags) are one list of records. An \<open>io\<close> function gives
  what happens to each element in a pass; the passes take a list of them, and the result \<open>None\<close> says that the batch
  is not over when the list is used up.
\<close>

section \<open>Writing a batch\<close>

record put_item =
  pi_key :: kv_store_key
  pi_data :: bytes
  pi_completed :: bool

fun put_batch_send :: "nat \<Rightarrow> (nat \<Rightarrow> io) \<Rightarrow> (kv_store_key \<times> bytes) list \<Rightarrow> client \<Rightarrow>
    put_item list res \<times> client \<times> datagram list" where
  "put_batch_send i xf [] c = (Ret [], c, [])"
| "put_batch_send i xf ((k, data) # items) c0 =
     (let x = xf i;
          nv = new_version c0 (version k);
          comp_key = \<lparr>key = key k, version = nv, f_type = f_type k, is_deleted = False\<rparr>;
          c1 = tick c0
      in case register_put comp_key (handler c1) of
           (Throw e, h) \<Rightarrow> (Throw e, c1\<lparr>handler := h\<rparr>, [])
         | (Hang, h) \<Rightarrow> (Hang, c1\<lparr>handler := h\<rparr>, [])
         | (Ret _, h) \<Rightarrow>
             (let c = receive_replies x (c1\<lparr>handler := h\<rparr>) in
              case io_lb x (N_peers (key k) (max_nodes_to_send_put_request c)) of
                Throw e \<Rightarrow> (Throw e, c, [])
              | Hang \<Rightarrow> (Hang, c, [])
              | Ret peers \<Rightarrow>
                  (case send_put c (key k) nv (f_type k) data False x peers of (_, ds) \<Rightarrow>
                     (case put_batch_send (i + 1) xf items c of (r, c', ds') \<Rightarrow>
                        (rbind r (\<lambda>its. Ret (\<lparr>pi_key = comp_key, pi_data = data, pi_completed = False\<rparr> # its)),
                         c', ds @ ds')))))"

text \<open>One pass over the incomplete writes: the new flags and whether a wait timed out.\<close>

fun put_batch_pass :: "nat \<Rightarrow> nat \<Rightarrow> (nat \<Rightarrow> io) \<Rightarrow> int \<Rightarrow> put_item list \<Rightarrow> client \<Rightarrow>
    (put_item list \<times> bool) res \<times> client \<times> datagram list" where
  "put_batch_pass wait_for i xf curr_timeouts [] c = (Ret ([], False), c, [])"
| "put_batch_pass wait_for i xf curr_timeouts (it # items) c0 =
     (let rest = (\<lambda>it' timeout c ds.
            case put_batch_pass wait_for (i + 1) xf curr_timeouts items c of (r, c', ds') \<Rightarrow>
              (rbind r (\<lambda>(its, loop_timeout). Ret (it' # its, timeout \<or> loop_timeout)), c', ds @ ds'))
      in if pi_completed it then rest it False c0 []
         else
           (let x = xf i; c = receive_replies x c0 in
            case wait_for_put_until (pi_key it) wait_for (io_during x) (io_timeout x) (handler c) of
              (Ret b, h) \<Rightarrow> rest (it\<lparr>pi_completed := b\<rparr>) False (c\<lparr>handler := h\<rparr>) []
            | (Hang, h) \<Rightarrow> (Hang, c\<lparr>handler := h\<rparr>, [])
            | (Throw e, h) \<Rightarrow>
                if e \<noteq> TimeoutException then (Throw e, c\<lparr>handler := h\<rparr>, [])
                else
                  (case choose_peers (key (pi_key it)) (max_nodes_to_send_put_request c) curr_timeouts x of
                     Throw e' \<Rightarrow> (Throw e', c\<lparr>handler := h\<rparr>, [])
                   | Hang \<Rightarrow> (Hang, c\<lparr>handler := h\<rparr>, [])
                   | Ret peers \<Rightarrow>
                       (case send_put c (key (pi_key it)) (version (pi_key it)) (f_type (pi_key it)) (pi_data it) True x peers of
                          (_, ds) \<Rightarrow> rest it True (c\<lparr>handler := h\<rparr>) ds))))"

text \<open>The passes end when all writes are complete or too many of them timed out; then the incomplete writes are forgotten.\<close>

definition put_batch_end :: "put_item list \<Rightarrow> client \<Rightarrow> unit outcome" where
  "put_batch_end items c =
     (let erasing_keys = map pi_key (filter (\<lambda>it. \<not> pi_completed it) items);
          c' = c\<lparr>handler := clear_put_keys_entries erasing_keys (handler c)\<rparr>
      in (Some (if list_all pi_completed items then Ret () else Throw TimeoutException), c', []))"

fun put_batch_loop :: "nat \<Rightarrow> (nat \<Rightarrow> io) list \<Rightarrow> int \<Rightarrow> put_item list \<Rightarrow> client \<Rightarrow> unit outcome" where
  "put_batch_loop wait_for [] curr_timeouts items c = (None, c, [])"
| "put_batch_loop wait_for (xf # xfs) curr_timeouts items c0 =
     (case put_batch_pass wait_for 0 xf curr_timeouts items c0 of
        (Throw e, c, ds) \<Rightarrow> (Some (Throw e), c, ds)
      | (Hang, c, ds) \<Rightarrow> (Some Hang, c, ds)
      | (Ret (items', loop_timeout), c, ds) \<Rightarrow>
          (let curr_timeouts' = (if loop_timeout then curr_timeouts + 1 else curr_timeouts) in
           after_sending ds
             (if \<not> list_all pi_completed items' \<and> curr_timeouts' < max_timeouts c
              then put_batch_loop wait_for xfs curr_timeouts' items' c
              else put_batch_end items' c)))"

definition client_put_batch ::
  "client \<Rightarrow> (kv_store_key \<times> bytes) list \<Rightarrow> nat \<Rightarrow> (nat \<Rightarrow> io) \<Rightarrow> (nat \<Rightarrow> io) list \<Rightarrow> unit outcome" where
  "client_put_batch c items wait_for xf xfs =
     (case put_batch_send 0 xf items c of
        (Throw e, c', ds) \<Rightarrow> (Some (Throw e), c', ds)
      | (Hang, c', ds) \<Rightarrow> (Some Hang, c', ds)
      | (Ret its, c', ds) \<Rightarrow> after_sending ds (put_batch_loop wait_for xfs 0 its c'))"

section \<open>Reading a batch\<close>

record get_item =
  gi_key :: kv_store_key
  gi_req_id :: string
  gi_timeout :: bool
  gi_data :: "bytes option"

text \<open>Registering and sending; \<open>send\<close> is the request of the operation. The caller passes the vector of results.\<close>

fun get_batch_send ::
  "(client \<Rightarrow> kv_store_key \<Rightarrow> string \<Rightarrow> io \<Rightarrow> peer_data list \<Rightarrow> nat \<times> datagram list) \<Rightarrow> nat \<Rightarrow> (nat \<Rightarrow> io) \<Rightarrow>
     (kv_store_key \<times> bytes option) list \<Rightarrow> client \<Rightarrow> get_item list res \<times> client \<times> datagram list" where
  "get_batch_send send i xf [] c = (Ret [], c, [])"
| "get_batch_send send i xf ((k, d) # items) c0 =
     (let x = xf i;
          (r, c1) = new_req_id c0;
          c = receive_replies x (c1\<lparr>handler := register_get r (handler c1)\<rparr>)
      in case io_lb x (N_peers (key k) (max_nodes_to_send_get_request c)) of
           Throw e \<Rightarrow> (Throw e, c, [])
         | Hang \<Rightarrow> (Hang, c, [])
         | Ret peers \<Rightarrow>
             (case send c k r x peers of (_, ds) \<Rightarrow>
                (case get_batch_send send (i + 1) xf items c of (res, c', ds') \<Rightarrow>
                   (rbind res (\<lambda>its. Ret (\<lparr>gi_key = k, gi_req_id = r, gi_timeout = False, gi_data = d\<rparr> # its)), c', ds @ ds'))))"

text \<open>The request of an element whose last wait timed out is sent again under a new id.\<close>

definition resend ::
  "(client \<Rightarrow> kv_store_key \<Rightarrow> string \<Rightarrow> io \<Rightarrow> peer_data list \<Rightarrow> nat \<times> datagram list) \<Rightarrow> io \<Rightarrow> int \<Rightarrow> get_item \<Rightarrow> client \<Rightarrow>
     get_item res \<times> client \<times> datagram list" where
  "resend send x curr_timeouts it c0 =
     (if gi_timeout it then
        (let (r, c1) = new_req_id c0;
             c = c1\<lparr>handler := change_get_reqid (gi_req_id it) r (handler c1)\<rparr>
         in case choose_peers (key (gi_key it)) (max_nodes_to_send_get_request c) curr_timeouts x of
              Throw e \<Rightarrow> (Throw e, c, [])
            | Hang \<Rightarrow> (Hang, c, [])
            | Ret peers \<Rightarrow>
                (case send c (gi_key it) r x peers of (_, ds) \<Rightarrow> (Ret (it\<lparr>gi_req_id := r, gi_timeout := False\<rparr>), c, ds)))
      else (Ret it, c0, []))"

text \<open>The state of a pass: whether a wait timed out, how many elements were counted as answered, and, for the metadata, the answer
  that ends the batch.\<close>

record pass_state =
  ps_happend_timeout :: bool
  ps_res_count :: int
  ps_stop :: "Response option"

text \<open>One element of a pass. \<open>wait\<close> is the wait of the operation and \<open>account\<close> what it does with the response. An exception
  other than the timeout leaves the loop; the timeout is caught around the resending and the wait.\<close>

definition get_batch_element ::
  "(client \<Rightarrow> kv_store_key \<Rightarrow> string \<Rightarrow> io \<Rightarrow> peer_data list \<Rightarrow> nat \<times> datagram list) \<Rightarrow>
   (kv_store_key \<Rightarrow> string \<Rightarrow> io \<Rightarrow> reply_handler \<Rightarrow> bytes option get_result) \<Rightarrow> (Response \<Rightarrow> pass_state \<Rightarrow> pass_state) \<Rightarrow>
   io \<Rightarrow> int \<Rightarrow> get_item \<Rightarrow> pass_state \<Rightarrow> client \<Rightarrow> (get_item \<times> pass_state) res \<times> client \<times> datagram list" where
  "get_batch_element send wait account x curr_timeouts it p c0 =
     (let timed_out = (\<lambda>it c ds. (Ret (it\<lparr>gi_timeout := True\<rparr>, p\<lparr>ps_happend_timeout := True\<rparr>), c, ds)) in
      case resend send x curr_timeouts it (receive_replies x c0) of
        (Throw e, c, ds) \<Rightarrow>
          if e = TimeoutException
          then timed_out (it\<lparr>gi_req_id := fst (new_req_id (receive_replies x c0))\<rparr>) c ds
          else (Throw e, c, ds)
      | (Hang, c, ds) \<Rightarrow> (Hang, c, ds)
      | (Ret it', c, ds) \<Rightarrow>
          (case wait (gi_key it') (gi_req_id it') x (handler c) of
             (Ret d, get_res, h) \<Rightarrow> (Ret (it'\<lparr>gi_data := d\<rparr>, account get_res p), c\<lparr>handler := h\<rparr>, ds)
           | (Throw e, get_res, h) \<Rightarrow>
               if e = TimeoutException then timed_out it' (c\<lparr>handler := h\<rparr>) ds else (Throw e, c\<lparr>handler := h\<rparr>, ds)
           | (Hang, get_res, h) \<Rightarrow> (Hang, c\<lparr>handler := h\<rparr>, ds)))"

fun get_batch_pass ::
  "(nat \<Rightarrow> get_item \<Rightarrow> pass_state \<Rightarrow> client \<Rightarrow> (get_item \<times> pass_state) res \<times> client \<times> datagram list) \<Rightarrow> nat \<Rightarrow> get_item list \<Rightarrow>
     pass_state \<Rightarrow> client \<Rightarrow> pass_state res \<times> get_item list \<times> client \<times> datagram list" where
  "get_batch_pass element i [] p c = (Ret p, [], c, [])"
| "get_batch_pass element i (it # items) p c0 =
     (if ps_stop p \<noteq> None then (Ret p, it # items, c0, [])
      else
        (case (if gi_data it = None then element i it p c0 else (Ret (it, p), c0, [])) of
           (Throw e, c, ds) \<Rightarrow> (Throw e, it # items, c, ds)
         | (Hang, c, ds) \<Rightarrow> (Hang, it # items, c, ds)
         | (Ret (it', p'), c, ds) \<Rightarrow>
             (case get_batch_pass element (i + 1) items p' c of (r, its, c', ds') \<Rightarrow> (r, it' # its, c', ds @ ds'))))"

section \<open>Latest versions of a batch\<close>

type_synonym 'a batch_outcome = "'a option \<times> bytes option list \<times> client \<times> datagram list"

definition after_sending_batch :: "datagram list \<Rightarrow> 'a batch_outcome \<Rightarrow> 'a batch_outcome" where
  "after_sending_batch ds = (\<lambda>(r, d, c, ds'). (r, d, c, ds @ ds'))"

definition latest_account :: "Response \<Rightarrow> pass_state \<Rightarrow> pass_state" where
  "latest_account get_res p = (if get_res = Ok \<or> get_res = Deleted then p\<lparr>ps_res_count := ps_res_count p + 1\<rparr> else p)"

definition latest_element :: "nat \<Rightarrow> (nat \<Rightarrow> io) \<Rightarrow> int \<Rightarrow> nat \<Rightarrow> get_item \<Rightarrow> pass_state \<Rightarrow> client \<Rightarrow>
    (get_item \<times> pass_state) res \<times> client \<times> datagram list" where
  "latest_element wait_for xf curr_timeouts i =
     get_batch_element (\<lambda>c k. send_get_latest_version c (key k) True)
       (\<lambda>k r x. wait_for_get_latest_until (io_ord x) (key k) r wait_for (io_during x) (io_timeout x) Init)
       latest_account (xf i) curr_timeouts"

text \<open>The clean-up removes the request ids without data from its list, so it forgets the requests that have data.\<close>

definition get_latest_batch_end :: "bool \<Rightarrow> get_item list \<Rightarrow> client \<Rightarrow> unit res batch_outcome" where
  "get_latest_batch_end all_completed items c =
     (if all_completed then (Some (Ret ()), map gi_data items, c, [])
      else
        (let req_ids = map gi_req_id (filter (\<lambda>it. gi_data it \<noteq> None) items)
         in (Some (Throw TimeoutException), map gi_data items,
             c\<lparr>handler := clear_get_keys_entries req_ids (handler c)\<rparr>, [])))"

fun get_latest_batch_loop ::
  "nat \<Rightarrow> (nat \<Rightarrow> io) list \<Rightarrow> int \<Rightarrow> int \<Rightarrow> get_item list \<Rightarrow> client \<Rightarrow> unit res batch_outcome" where
  "get_latest_batch_loop wait_for [] curr_timeouts res_count items c = (None, map gi_data items, c, [])"
| "get_latest_batch_loop wait_for (xf # xfs) curr_timeouts res_count items c0 =
     (case get_batch_pass (latest_element wait_for xf curr_timeouts) 0 items
             \<lparr>ps_happend_timeout = False, ps_res_count = res_count, ps_stop = None\<rparr> c0 of
        (Throw e, items', c, ds) \<Rightarrow> (Some (Throw e), map gi_data items', c, ds)
      | (Hang, items', c, ds) \<Rightarrow> (Some Hang, map gi_data items', c, ds)
      | (Ret p, items', c, ds) \<Rightarrow>
          (let curr_timeouts' = (if ps_happend_timeout p then curr_timeouts + 1 else curr_timeouts);
               all_completed = (ps_res_count p = int (length items'))
           in after_sending_batch ds
                (if \<not> all_completed \<and> curr_timeouts' < max_timeouts c
                 then get_latest_batch_loop wait_for xfs curr_timeouts' (ps_res_count p) items' c
                 else get_latest_batch_end all_completed items' c)))"

definition file_key :: "string \<Rightarrow> kv_store_key" where
  "file_key k = \<lparr>key = k, version = default_version, f_type = FILE, is_deleted = False\<rparr>"

definition client_get_latest_batch ::
  "client \<Rightarrow> (string \<times> bytes option) list \<Rightarrow> nat \<Rightarrow> (nat \<Rightarrow> io) \<Rightarrow> (nat \<Rightarrow> io) list \<Rightarrow> unit res batch_outcome" where
  "client_get_latest_batch c items wait_for xf xfs =
     (case get_batch_send (\<lambda>c k. send_get_latest_version c (key k) True) 0 xf (map (map_prod file_key (\<lambda>d. d)) items) c of
        (Throw e, c', ds) \<Rightarrow> (Some (Throw e), map snd items, c', ds)
      | (Hang, c', ds) \<Rightarrow> (Some Hang, map snd items, c', ds)
      | (Ret its, c', ds) \<Rightarrow> after_sending_batch ds (get_latest_batch_loop wait_for xfs 0 0 its c'))"

section \<open>Metadata of a batch\<close>

definition metadata_account :: "Response \<Rightarrow> pass_state \<Rightarrow> pass_state" where
  "metadata_account get_res p =
     (let p' = (if get_res = Ok then p\<lparr>ps_res_count := ps_res_count p + 1\<rparr> else p)
      in if get_res = Deleted \<or> get_res = NoData_HigherVersion then p'\<lparr>ps_stop := Some get_res\<rparr> else p')"

definition metadata_element :: "nat \<Rightarrow> (nat \<Rightarrow> io) \<Rightarrow> int \<Rightarrow> nat \<Rightarrow> get_item \<Rightarrow> pass_state \<Rightarrow> client \<Rightarrow>
    (get_item \<times> pass_state) res \<times> client \<times> datagram list" where
  "metadata_element wait_for xf curr_timeouts i =
     get_batch_element (\<lambda>c k. send_get_metadata c (key k) (version k))
       (\<lambda>k r x. wait_for_get_metadata_until (io_ord x) r wait_for (io_during x) (io_timeout x) Init)
       metadata_account (xf i) curr_timeouts"

text \<open>The result is the outcome together with the value of \<^verbatim>\<open>*response\<close>. The answer that ended the batch is overwritten.\<close>

definition get_metadata_batch_end ::
  "int \<Rightarrow> int \<Rightarrow> bool \<Rightarrow> bool \<Rightarrow> get_item list \<Rightarrow> client \<Rightarrow> (unit res \<times> Response) batch_outcome" where
  "get_metadata_batch_end max_timeout curr_timeouts all_completed exited items c =
     (let response = (if all_completed then Ok else if exited then NoData else Init);
          req_ids = map gi_req_id (filter (\<lambda>it. gi_data it = None) items)
      in (Some (if curr_timeouts \<ge> max_timeout then Throw TimeoutException else Ret (), response), map gi_data items,
          c\<lparr>handler := clear_get_keys_entries req_ids (handler c)\<rparr>, []))"

fun get_metadata_batch_loop ::
  "nat \<Rightarrow> int \<Rightarrow> (nat \<Rightarrow> io) list \<Rightarrow> int \<Rightarrow> int \<Rightarrow> get_item list \<Rightarrow> client \<Rightarrow> (unit res \<times> Response) batch_outcome" where
  "get_metadata_batch_loop wait_for max_timeout [] curr_timeouts res_count items c = (None, map gi_data items, c, [])"
| "get_metadata_batch_loop wait_for max_timeout (xf # xfs) curr_timeouts res_count items c0 =
     (case get_batch_pass (metadata_element wait_for xf curr_timeouts) 0 items
             \<lparr>ps_happend_timeout = False, ps_res_count = res_count, ps_stop = None\<rparr> c0 of
        (Throw e, items', c, ds) \<Rightarrow> (Some (Throw e, Init), map gi_data items', c, ds)
      | (Hang, items', c, ds) \<Rightarrow> (Some (Hang, Init), map gi_data items', c, ds)
      | (Ret p, items', c, ds) \<Rightarrow>
          (let curr_timeouts' = (if ps_happend_timeout p then curr_timeouts + 1 else curr_timeouts);
               all_completed = (ps_res_count p = int (length items'))
           in after_sending_batch ds
                (if ps_stop p \<noteq> None then get_metadata_batch_end max_timeout curr_timeouts' False True items' c
                 else if \<not> all_completed \<and> curr_timeouts' < max_timeout
                 then get_metadata_batch_loop wait_for max_timeout xfs curr_timeouts' (ps_res_count p) items' c
                 else get_metadata_batch_end max_timeout curr_timeouts' all_completed False items' c)))"

definition client_get_metadata_batch ::
  "client \<Rightarrow> (kv_store_key \<times> bytes option) list \<Rightarrow> int \<Rightarrow> nat \<Rightarrow> (nat \<Rightarrow> io) \<Rightarrow> (nat \<Rightarrow> io) list \<Rightarrow> Response \<Rightarrow>
     (unit res \<times> Response) batch_outcome" where
  "client_get_metadata_batch c items max_timeout wait_for xf xfs response =
     (case get_batch_send (\<lambda>c k. send_get_metadata c (key k) (version k)) 0 xf items c of
        (Throw e, c', ds) \<Rightarrow> (Some (Throw e, response), map snd items, c', ds)
      | (Hang, c', ds) \<Rightarrow> (Some (Hang, response), map snd items, c', ds)
      | (Ret its, c', ds) \<Rightarrow> after_sending_batch ds (get_metadata_batch_loop wait_for max_timeout xfs 0 0 its c'))"

section \<open>Writes counted by a batch\<close>

text \<open>All replies the handler has counted for the keys \<open>K\<close> are among the messages \<open>M\<close>.\<close>

definition counted_from :: "kv_store_key set \<Rightarrow> kv_body list \<Rightarrow> reply_handler \<Rightarrow> bool" where
  "counted_from K M h \<longleftrightarrow> (\<forall>k\<in>K. \<forall>r. put_replies h k = Some r \<longrightarrow> r \<subseteq> puts.peers k M)"

lemma counted_from_process:
  "counted_from K M h \<Longrightarrow> set ms \<subseteq> set M \<Longrightarrow> counted_from K M (fold process_reply ms h)"
  unfolding counted_from_def puts.replies_fold puts.peers_def by fastforce

lemma counted_from_receive:
  "counted_from K M (handler c) \<Longrightarrow> set (io_before x) \<subseteq> set M \<Longrightarrow> counted_from K M (handler (receive_replies x c))"
  by (simp add: receive_replies_def counted_from_process)

lemma counted_from_register:
  "register_put k h = (Ret u, h') \<Longrightarrow> counted_from K M h \<Longrightarrow> counted_from (insert k K) M h'"
  by (auto simp: register_put_def counted_from_def split: option.splits if_splits) blast

lemma counted_from_erase: "counted_from K M h \<Longrightarrow> counted_from K M (erase_put k h)"
  by (auto simp: counted_from_def erase_put_def)

lemma counted_from_wait:
  assumes "wait_for_put_until k n during t h = (r, h')" "counted_from K M h" "set during \<subseteq> set M"
  shows "counted_from K M h'" "r = Ret True \<Longrightarrow> k \<in> K \<Longrightarrow> n \<le> card (puts.peers k M)"
proof -
  have M: "counted_from K M (fold process_reply during h)" by (rule counted_from_process[OF assms(2,3)])
  then show "counted_from K M h'"
    using assms(1,2)
    by (auto simp: wait_for_put_until_def wait_quorum_def Let_def intro: counted_from_erase split: option.splits if_splits)
  assume "r = Ret True" "k \<in> K"
  then obtain r' where "r' \<subseteq> puts.peers k M" "n \<le> card r'"
    using assms(1,2) M
    by (fastforce simp: wait_for_put_until_def wait_quorum_def Let_def counted_from_def split: option.splits if_splits)
  then show "n \<le> card (puts.peers k M)" using card_mono[OF puts.finite_peers] le_trans by blast
qed

definition batch_key :: "client \<Rightarrow> nat \<Rightarrow> kv_store_key \<Rightarrow> kv_store_key" where
  "batch_key c i k = \<lparr>key = key k, version = new_version (c\<lparr>clock := (increment ^^ i) (clock c)\<rparr>) (version k), f_type = f_type k,
     is_deleted = False\<rparr>"

lemma all_shift:
  fixes i :: nat
  assumes "\<forall>j<Suc n. P (i + j)"
  shows "\<forall>j<n. P (i + 1 + j)"
proof (intro allI impI)
  fix j
  assume "j < n"
  then show "P (i + 1 + j)" using assms[rule_format, of "Suc j"] by simp
qed

lemma batch_key_tick: "batch_key (tick c) i k = batch_key c (i + 1) k"
  by (simp add: batch_key_def tick_def new_version_def funpow_swap1)

lemma batch_key_handler [simp]: "batch_key (c\<lparr>handler := h\<rparr>) i k = batch_key c i k"
  by (simp add: batch_key_def new_version_def)

lemma put_batch_send_keys:
  assumes "put_batch_send i xf items c = (Ret its, c', ds)" "counted_from K M (handler c)"
    and "\<forall>j<length items. set (io_before (xf (i + j))) \<subseteq> set M"
  shows "map pi_key its = map (\<lambda>j. batch_key c j (fst (items ! j))) [0..<length items] \<and> \<not> list_ex pi_completed its \<and>
    counted_from (K \<union> pi_key ` set its) M (handler c')"
  using assms
proof (induction items arbitrary: i c its K ds)
  case (Cons it items)
  obtain k data where it: "it = (k, data)" by fastforce
  let ?k = "batch_key c 0 k"
  have k: "?k = \<lparr>key = key k, version = new_version c (version k), f_type = f_type k, is_deleted = False\<rparr>"
    by (simp add: batch_key_def)
  obtain u h where r: "register_put ?k (handler c) = (Ret u, h)"
    using Cons.prems(1) by (auto simp: it k Let_def tick_def split: prod.splits res.splits)
  let ?c = "receive_replies (xf i) ((tick c)\<lparr>handler := h\<rparr>)"
  obtain ps where ps: "io_lb (xf i) (N_peers (key k) (max_nodes_to_send_put_request ?c)) = Ret ps"
    using Cons.prems(1) r by (auto simp: it k Let_def tick_def split: prod.splits res.splits)
  obtain its' ds' where n: "put_batch_send (i + 1) xf items ?c = (Ret its', c', ds')"
    "its = \<lparr>pi_key = ?k, pi_data = data, pi_completed = False\<rparr> # its'"
    using Cons.prems(1) r ps by (auto simp: it k Let_def tick_def split: prod.splits)
  have "counted_from (insert ?k K) M (handler ?c)"
    using counted_from_process[OF counted_from_register[OF r Cons.prems(2)], of "io_before (xf i)"] Cons.prems(3)
    by (auto simp: receive_replies_def)
  moreover have "\<forall>j<length items. set (io_before (xf (i + 1 + j))) \<subseteq> set M"
    using all_shift[of "length items" "\<lambda>j. set (io_before (xf j)) \<subseteq> set M"] Cons.prems(3) by simp
  ultimately have IH: "map pi_key its' = map (\<lambda>j. batch_key ?c j (fst (items ! j))) [0..<length items]" "\<not> list_ex pi_completed its'"
    "counted_from (insert ?k K \<union> pi_key ` set its') M (handler c')"
    using Cons.IH[OF n(1)] by blast+
  have "map (\<lambda>j. batch_key c j (fst ((it # items) ! j))) [0..<length (it # items)] =
      ?k # map (\<lambda>j. batch_key c (Suc j) (fst (items ! j))) [0..<length items]"
    by (simp add: it upt_conv_Cons map_Suc_upt[symmetric] comp_def del: upt_Suc)
  with IH show ?case
    by (simp add: n(2) receive_replies_def batch_key_tick)
qed simp

lemma put_batch_pass_counts:
  assumes "put_batch_pass n i xf t its c = (Ret (its', lt), c', ds)" "counted_from K M (handler c)" "pi_key ` set its \<subseteq> K"
    and "\<forall>j<length its. set (io_before (xf (i + j))) \<union> set (io_during (xf (i + j))) \<subseteq> set M"
    and "\<forall>it\<in>set its. pi_completed it \<longrightarrow> n \<le> card (puts.peers (pi_key it) M)"
  shows "map pi_key its' = map pi_key its \<and> counted_from K M (handler c') \<and>
    (\<forall>it\<in>set its'. pi_completed it \<longrightarrow> n \<le> card (puts.peers (pi_key it) M))"
  using assms
proof (induction its arbitrary: i c its' lt ds)
  case (Cons it its)
  have M: "\<forall>j<length its. set (io_before (xf (i + 1 + j))) \<union> set (io_during (xf (i + 1 + j))) \<subseteq> set M"
    using all_shift[of "length its" "\<lambda>j. set (io_before (xf j)) \<union> set (io_during (xf j)) \<subseteq> set M"] Cons.prems(4) by simp
  show ?case
  proof (cases "pi_completed it")
    case True
    then obtain its1 lt1 ds1 where "put_batch_pass n (i + 1) xf t its c = (Ret (its1, lt1), c', ds1)" "its' = it # its1"
      using Cons.prems(1) by (auto simp: Let_def split: prod.splits)
    with Cons.IH[OF this(1) Cons.prems(2)] M Cons.prems show ?thesis by simp
  next
    case False
    let ?c = "receive_replies (xf i) c"
    obtain r h where w: "wait_for_put_until (pi_key it) n (io_during (xf i)) (io_timeout (xf i)) (handler ?c) = (r, h)" by fastforce
    have c: "counted_from K M (handler ?c)" using counted_from_receive[OF Cons.prems(2)] Cons.prems(4)[rule_format, of 0] by simp
    have d: "set (io_during (xf i)) \<subseteq> set M" using Cons.prems(4)[rule_format, of 0] by simp
    note W = counted_from_wait[OF w c d]
    obtain it1 its1 lt1 ds1 where n: "put_batch_pass n (i + 1) xf t its (?c\<lparr>handler := h\<rparr>) = (Ret (its1, lt1), c', ds1)"
      "its' = it1 # its1" "pi_key it1 = pi_key it" "pi_completed it1 \<longrightarrow> r = Ret True"
      using Cons.prems(1) False w by (auto simp: Let_def split: prod.splits res.splits if_splits)
    with Cons.IH[OF n(1)] M Cons.prems(3,5) W show ?thesis by simp
  qed
qed simp

lemma put_batch_loop_counts:
  assumes "put_batch_loop n xfs t its c = (Some (Ret ()), c', ds)" "counted_from K M (handler c)" "pi_key ` set its \<subseteq> K"
    and "\<forall>xf\<in>set xfs. \<forall>j<length its. set (io_before (xf j)) \<union> set (io_during (xf j)) \<subseteq> set M"
    and "\<forall>it\<in>set its. pi_completed it \<longrightarrow> n \<le> card (puts.peers (pi_key it) M)"
  shows "\<forall>it\<in>set its. n \<le> card (puts.peers (pi_key it) M)"
  using assms
proof (induction xfs arbitrary: t its c ds)
  case (Cons xf xfs)
  obtain its1 lt c1 ds1 where p: "put_batch_pass n 0 xf t its c = (Ret (its1, lt), c1, ds1)"
    using Cons.prems(1) by (auto split: prod.splits res.splits)
  have "\<forall>j<length its. set (io_before (xf (0 + j))) \<union> set (io_during (xf (0 + j))) \<subseteq> set M" using Cons.prems(4) by simp
  note P = put_batch_pass_counts[OF p Cons.prems(2,3) this Cons.prems(5)]
  then have l: "length its1 = length its" using map_eq_imp_length_eq by blast
  have K: "pi_key ` set its1 = pi_key ` set its" using P by (metis list.set_map)
  let ?t = "if lt then t + 1 else t"
  have "\<forall>it\<in>set its1. n \<le> card (puts.peers (pi_key it) M)"
  proof (cases "\<not> list_all pi_completed its1 \<and> ?t < max_timeouts c1")
    case True
    then obtain ds2 where "put_batch_loop n xfs ?t its1 c1 = (Some (Ret ()), c', ds2)"
      using Cons.prems(1) p by (auto simp: Let_def after_sending_def split: prod.splits)
    with Cons.IH[OF this] P Cons.prems(3,4) K l show ?thesis by auto
  next
    case False
    then have "list_all pi_completed its1"
      using Cons.prems(1) p by (auto simp: Let_def after_sending_def put_batch_end_def split: if_splits)
    with P show ?thesis by (simp add: list_all_iff)
  qed
  then show ?case using K by (metis imageE image_eqI)
qed simp

section \<open>Data of a batch of metadata\<close>

text \<open>Replies to a metadata or data request carry data; those with the latest versions need not.\<close>

fun carries_data :: "kv_body \<Rightarrow> bool" where
  "carries_data (Get_latest_version_reply_msg m) = False"
| "carries_data m = True"

definition full :: "reply_handler \<Rightarrow> bool" where
  "full h \<longleftrightarrow> (\<forall>r g. get_replies h r = Some g \<longrightarrow> (\<forall>kd\<in>set (keys g). snd kd \<noteq> None))"

lemma full_process: "full h \<Longrightarrow> \<forall>m\<in>set ms. carries_data m \<Longrightarrow> full (fold process_reply ms h)"
proof (induction ms arbitrary: h)
  case (Cons m ms)
  have "full (process_reply m h)"
    using Cons.prems
    by (cases m) (auto simp: full_def process_defs record_data_def map_insert_def Let_def split: option.splits if_splits)
  with Cons show ?case by simp
qed simp

lemma full_frame [simp]:
  "full h \<Longrightarrow> full (register_get r h)" "full h \<Longrightarrow> full (erase_get r h)" "full h \<Longrightarrow> full (change_get_reqid r r' h)"
  by (auto simp: full_def register_get_def erase_get_def change_get_reqid_def Let_def split: option.splits if_splits)

definition io_ok :: "io \<Rightarrow> bool" where
  "io_ok x \<longleftrightarrow> (\<forall>m\<in>set (io_before x @ io_during x). carries_data m) \<and> (\<forall>xs. set (io_ord x xs) = set xs)"

lemma full_receive [simp]: "full (handler c) \<Longrightarrow> io_ok x \<Longrightarrow> full (handler (receive_replies x c))"
  by (simp add: receive_replies_def io_ok_def full_process)

lemma metadata_wait_data:
  assumes "wait_for_get_metadata_until (io_ord x) r n (io_during x) t Init h = (res, g, h')" "full h" "io_ok x"
  shows "full h'" "res = Ret d \<Longrightarrow> d \<noteq> None \<longleftrightarrow> g = Ok"
proof -
  have p: "full (fold process_reply (io_during x) h)" using assms(2,3) by (simp add: io_ok_def full_process)
  obtain og to h1 where a: "await_get r n (io_during x) t h = (og, to, h1)" by (rule prod_cases3)
  then have h1: "full h1" "\<forall>g. og = Some g \<longrightarrow> get_replies h1 r = Some g"
    using assms(2) p by (auto simp: await_get_def Let_def split: option.splits if_splits)
  then show "full h'" using assms(1) a
    by (auto simp: wait_for_get_metadata_until_def split: option.splits if_splits)
  assume "res = Ret d"
  moreover have "snd (hd (io_ord x (keys g))) \<noteq> None" if "og = Some g" "keys g \<noteq> []" for g
  proof -
    have s: "set (io_ord x (keys g)) = set (keys g)" using assms(3) by (simp add: io_ok_def)
    with that(2) have "hd (io_ord x (keys g)) \<in> set (keys g)" by (metis hd_in_set set_empty)
    then show ?thesis using h1 that(1) by (auto simp: full_def)
  qed
  ultimately show "d \<noteq> None \<longleftrightarrow> g = Ok" using assms(1) a
    by (auto simp: wait_for_get_metadata_until_def split: option.splits if_splits)
qed

abbreviation answered :: "get_item list \<Rightarrow> nat" where
  "answered its \<equiv> length (filter (\<lambda>it. gi_data it \<noteq> None) its)"

lemma answered_all: "answered its = length its \<longleftrightarrow> None \<notin> set (map gi_data its)"
proof (induction its)
  case (Cons it its)
  have "length (filter P its) \<noteq> Suc (length its)" for P using length_filter_le[of P its] by linarith
  with Cons show ?case by auto
qed simp

lemma resend_frame:
  assumes "resend send x t it c = (r, c', ds)" "full (handler c)"
  shows "full (handler c')" "r = Ret it' \<Longrightarrow> gi_data it' = gi_data it"
  using assms by (auto simp: resend_def Let_def new_req_id_def inc_and_get_request_count_def split: if_splits prod.splits res.splits)

lemma metadata_element_data:
  assumes "metadata_element n xf t i it p c = (Ret (it', p'), c', ds)" "full (handler c)" "io_ok (xf i)" "gi_data it = None"
  shows "full (handler c') \<and> ps_res_count p' = ps_res_count p + (if gi_data it' = None then 0 else 1)"
proof -
  let ?c = "receive_replies (xf i) c"
  obtain r c1 ds1 where s: "resend (\<lambda>c k. send_get_metadata c (key k) (version k)) (xf i) t it ?c = (r, c1, ds1)" by (rule prod_cases3)
  have f: "full (handler c1)" and d: "\<And>it'. r = Ret it' \<Longrightarrow> gi_data it' = None"
    using resend_frame[OF s] assms(2-4) by auto
  show ?thesis
  proof (cases r)
    case (Ret it1)
    obtain w g h where w: "wait_for_get_metadata_until (io_ord (xf i)) (gi_req_id it1) n (io_during (xf i)) (io_timeout (xf i)) Init
        (handler c1) = (w, g, h)" by (rule prod_cases3)
    with metadata_wait_data[OF w f assms(3)] d[OF Ret] assms(1) s Ret show ?thesis
      by (cases w) (auto simp: metadata_element_def get_batch_element_def Let_def metadata_account_def split: if_splits)
  qed (use assms(1,4) s f in \<open>auto simp: metadata_element_def get_batch_element_def Let_def split: if_splits\<close>)
qed

lemma metadata_pass_data:
  assumes "get_batch_pass (metadata_element n xf t) i its p c = (Ret p', its', c', ds)" "full (handler c)"
    and "\<forall>j<length its. io_ok (xf (i + j))"
  shows "full (handler c') \<and> length its' = length its \<and>
    ps_res_count p' + int (answered its) = ps_res_count p + int (answered its')"
  using assms
proof (induction its arbitrary: i p its' c ds)
  case (Cons it its)
  have ok: "io_ok (xf i)" "\<forall>j<length its. io_ok (xf (i + 1 + j))"
    using Cons.prems(3)[rule_format, of 0] all_shift[of "length its" "\<lambda>j. io_ok (xf j)"] Cons.prems(3) by auto
  show ?case
  proof (cases "ps_stop p = None")
    case True
    obtain it1 p1 c1 ds1 where e:
      "(if gi_data it = None then metadata_element n xf t i it p c else (Ret (it, p), c, [])) = (Ret (it1, p1), c1, ds1)"
      using Cons.prems(1) True by (auto split: prod.splits res.splits)
    have f: "full (handler c1)"
      "ps_res_count p1 = ps_res_count p + (if gi_data it1 = None \<or> gi_data it \<noteq> None then 0 else 1)"
      "gi_data it \<noteq> None \<longrightarrow> gi_data it1 \<noteq> None"
      using e metadata_element_data[of n xf t i it p c it1 p1 c1 ds1] Cons.prems(2) ok(1) by (auto split: if_splits)
    obtain its1 ds2 where n: "get_batch_pass (metadata_element n xf t) (i + 1) its p1 c1 = (Ret p', its1, c', ds2)" "its' = it1 # its1"
      using Cons.prems(1) True e by (auto split: prod.splits)
    from Cons.IH[OF n(1) f(1) ok(2)] f(2,3) n(2) show ?thesis by auto
  qed (use Cons.prems in auto)
qed simp

definition batch_answer :: "nat \<Rightarrow> (unit res \<times> Response) batch_outcome \<Rightarrow> bool" where
  "batch_answer n = (\<lambda>(r, data, c, ds). \<forall>resp. r = Some (Ret (), resp) \<longrightarrow>
     resp = Ok \<and> length data = n \<and> None \<notin> set data \<or> resp = NoData)"

lemma metadata_loop_answer:
  assumes "full (handler c)" "\<forall>xf\<in>set xfs. \<forall>j<length its. io_ok (xf j)" "t < max_timeout" "rc = int (answered its)"
  shows "batch_answer (length its) (get_metadata_batch_loop n max_timeout xfs t rc its c)"
  using assms
proof (induction xfs arbitrary: t rc its c)
  case (Cons xf xfs)
  obtain r its1 c1 ds1 where p: "get_batch_pass (metadata_element n xf t) 0 its
      \<lparr>ps_happend_timeout = False, ps_res_count = rc, ps_stop = None\<rparr> c = (r, its1, c1, ds1)" by (rule prod_cases4)
  show ?case
  proof (cases r)
    case (Ret p')
    have f: "full (handler c1)" "length its1 = length its" "ps_res_count p' = int (answered its1)"
      using metadata_pass_data[OF p[unfolded Ret]] Cons.prems by auto
    let ?t = "if ps_happend_timeout p' then t + 1 else t"
    have all: "None \<notin> set (map gi_data its1)" if "ps_res_count p' = int (length its1)"
      using answered_all[of its1] f(3) that by simp
    have next_round: "batch_answer (length its) (get_metadata_batch_loop n max_timeout xfs ?t (ps_res_count p') its1 c1)"
      if "?t < max_timeout"
      using Cons.IH[OF f(1) _ that f(3)] Cons.prems(2) f(2) by simp
    show ?thesis
    proof (cases "ps_stop p' = None \<and> ps_res_count p' \<noteq> int (length its1) \<and> ?t < max_timeout")
      case True
      then show ?thesis using p Ret next_round by (auto simp: Let_def after_sending_batch_def batch_answer_def split: prod.splits)
    next
      case False
      then show ?thesis using p Ret all f(2)
        by (auto simp: Let_def after_sending_batch_def batch_answer_def get_metadata_batch_end_def split: if_splits)
    qed
  qed (use p in \<open>auto simp: batch_answer_def\<close>)
qed (simp add: batch_answer_def)

lemma get_batch_send_data:
  assumes "get_batch_send send i xf items c = (Ret its, c', ds)" "full (handler c)" "\<forall>j<length items. io_ok (xf (i + j))"
  shows "full (handler c') \<and> map gi_data its = map snd items"
  using assms
proof (induction items arbitrary: i c its ds)
  case (Cons it items)
  obtain k d where it: "it = (k, d)" by fastforce
  obtain r c1 where r: "new_req_id c = (r, c1)" by fastforce
  let ?c = "receive_replies (xf i) (c1\<lparr>handler := register_get r (handler c1)\<rparr>)"
  have ok: "io_ok (xf i)" "\<forall>j<length items. io_ok (xf (i + 1 + j))"
    using Cons.prems(3)[rule_format, of 0] all_shift[of "length items" "\<lambda>j. io_ok (xf j)"] Cons.prems(3) by auto
  have "handler c1 = handler c" using r by (auto simp: new_req_id_def inc_and_get_request_count_def)
  then have f: "full (handler ?c)" using Cons.prems(2) ok(1) by simp
  obtain its1 ds1 where n: "get_batch_send send (i + 1) xf items ?c = (Ret its1, c', ds1)"
    "its = \<lparr>gi_key = k, gi_req_id = r, gi_timeout = False, gi_data = d\<rparr> # its1"
    using Cons.prems(1) r by (auto simp: it Let_def split: prod.splits res.splits)
  from Cons.IH[OF n(1) f ok(2)] n(2) it show ?case by simp
qed simp

section \<open>Properties\<close>

lemma put_batch_acknowledged:
  assumes "client_put_batch c items n xf xfs = (Some (Ret ()), c', ds)"
    and "\<forall>i<length items. set (io_before (xf i)) \<subseteq> set M"
    and "\<forall>g\<in>set xfs. \<forall>i<length items. set (io_before (g i)) \<union> set (io_during (g i)) \<subseteq> set M"
  shows "\<forall>i<length items. n \<le> card (puts.peers (batch_key c i (fst (items ! i))) M)"
proof -
  obtain its c1 ds1 ds2 where s: "put_batch_send 0 xf items c = (Ret its, c1, ds1)"
    and l: "put_batch_loop n xfs 0 its c1 = (Some (Ret ()), c', ds2)"
    using assms(1) by (auto simp: client_put_batch_def after_sending_def split: prod.splits res.splits)
  have S: "map pi_key its = map (\<lambda>j. batch_key c j (fst (items ! j))) [0..<length items]" "\<not> list_ex pi_completed its"
    "counted_from (pi_key ` set its) M (handler c1)"
    using put_batch_send_keys[OF s, of "{}" M] assms(2) by (simp_all add: counted_from_def)
  then have "length its = length items" using map_eq_imp_length_eq by fastforce
  then have "\<forall>it\<in>set its. n \<le> card (puts.peers (pi_key it) M)"
    using put_batch_loop_counts[OF l S(3)] S(2) assms(3) by (auto simp: list_ex_iff)
  then have "\<forall>k\<in>set (map pi_key its). n \<le> card (puts.peers k M)" by simp
  then show ?thesis unfolding S(1) by simp
qed

text \<open>
  A batch of writes that returns is complete: for each of its elements, at least the required number of distinct peers acknowledged its
  key, type and version. The version of the element at position \<open>i\<close> has the clock advanced \<open>i + 1\<close> times. \<open>M\<close> are the
  replies handled during the batch.
\<close>

theorem put_batch_complete:
  assumes "client_put_batch c items n xf xfs = (Some (Ret ()), c', ds)"
    and "\<forall>i<length items. set (io_before (xf i)) \<subseteq> set M"
    and "\<forall>g\<in>set xfs. \<forall>i<length items. set (io_before (g i)) \<union> set (io_during (g i)) \<subseteq> set M"
  shows "\<forall>i<length items. n \<le> card (puts.peers (batch_key c i (fst (items ! i))) M)"
  by (rule put_batch_acknowledged[OF assms])

definition sample_base :: kv_store_key where
  "sample_base = \<lparr>key = ''/a'', version = default_version, f_type = FILE, is_deleted = False\<rparr>"

lemma sample_batch_key: "batch_key sample_client 0 sample_base = sample_key"
  using sample_put_key by (simp add: batch_key_def sample_base_def put_key_of_def)

lemma sample_put_batch:
  obtains c' ds where "client_put_batch sample_client [(sample_base, ''x'')] 2 (\<lambda>_. sample_io True [])
    [\<lambda>_. sample_io True (map sample_reply [7, 8])] = (Some (Ret ()), c', ds)"
proof -
  obtain h where h: "register_put sample_key empty_handler = (Ret (), h)" "put_replies h sample_key = Some {}"
    by (simp add: register_put_def empty_handler_def)
  have k: "\<lparr>key = ''/a'', version = new_version sample_client default_version, f_type = FILE, is_deleted = False\<rparr> = sample_key"
    using sample_put_key by (simp add: put_key_of_def)
  obtain c1 ds1 where s: "put_batch_send 0 (\<lambda>_. sample_io True []) [(sample_base, ''x'')] sample_client =
      (Ret [\<lparr>pi_key = sample_key, pi_data = ''x'', pi_completed = False\<rparr>], c1, ds1)" "handler c1 = h"
    using h k by (simp add: sample_base_def tick_def sample_client_def sample_io_def receive_replies_def send_put_def send_all_def Let_def)
  have "card (puts.peers sample_key (map sample_reply [7, 8])) = 2" unfolding sample_peers by simp
  then obtain h' where "wait_for_put_until sample_key 2 (map sample_reply [7, 8]) True h = (Ret True, h')"
    using h(2) by (auto simp: wait_for_put_until_def wait_quorum_def Let_def puts.replies_fold simp del: list.map)
  then show thesis using that s
    by (simp add: client_put_batch_def sample_io_def receive_replies_def Let_def after_sending_def put_batch_end_def del: list.map)
qed

theorem put_batch_complete_witness: "2 \<le> card (puts.peers sample_key (map sample_reply [7, 8]))"
proof -
  obtain c' ds where r: "client_put_batch sample_client [(sample_base, ''x'')] 2 (\<lambda>_. sample_io True [])
      [\<lambda>_. sample_io True (map sample_reply [7, 8])] = (Some (Ret ()), c', ds)" by (rule sample_put_batch)
  show ?thesis
    using put_batch_complete[OF r, of "map sample_reply [7, 8]"] by (simp add: sample_io_def sample_batch_key del: list.map)
qed

text \<open>
  C33. What a batch of metadata answers. When the batch returns, it either reports \<open>Ok\<close> and has data for every element, so that
  the caller may dereference all of them, or it reports \<open>NoData\<close>. A deletion or a higher version met by the batch is
  never reported as such.
\<close>

theorem metadata_batch_answer:
  assumes "client_get_metadata_batch c (map (\<lambda>k. (k, None)) ks) max_timeout n xf xfs response =
      (Some (Ret (), resp), data, c', ds)"
    and "full (handler c)" "0 < max_timeout" "\<forall>i<length ks. io_ok (xf i)" "\<forall>g\<in>set xfs. \<forall>i<length ks. io_ok (g i)"
  shows "resp = Ok \<and> length data = length ks \<and> None \<notin> set data \<or> resp = NoData"
proof -
  obtain its c1 ds1 ds2 where s:
    "get_batch_send (\<lambda>c k. send_get_metadata c (key k) (version k)) 0 xf (map (\<lambda>k. (k, None)) ks) c = (Ret its, c1, ds1)"
    "get_metadata_batch_loop n max_timeout xfs 0 0 its c1 = (Some (Ret (), resp), data, c', ds2)"
    using assms(1) by (auto simp: client_get_metadata_batch_def after_sending_batch_def split: prod.splits res.splits)
  have S: "full (handler c1)" "map gi_data its = map snd (map (\<lambda>k. (k, None)) ks)"
    using get_batch_send_data[OF s(1) assms(2)] assms(4) by simp_all
  then have l: "length its = length ks" using map_eq_imp_length_eq by fastforce
  have "set (map gi_data its) \<subseteq> {None}" unfolding S(2) by auto
  then have "0 = int (answered its)" by (auto simp: filter_empty_conv)
  from metadata_loop_answer[OF S(1) _ assms(3) this, of xfs n] assms(5) l s(2) show ?thesis
    by (auto simp: batch_answer_def)
qed

definition sample_met_reply :: kv_body where
  "sample_met_reply = Get_met_reply_msg \<lparr>m_ip = [], m_port = 0, m_id = 7, gr_reqid = req_id_str sample_client 0, gr_data = ''d'',
     gr_key = \<lparr>pk_key = ''/a'', pk_version = [], pk_client_id = 1\<rparr>, gr_version_is_deleted = False, gm_higher_version = False\<rparr>"

theorem metadata_batch_answer_witness:
  "\<exists>data c' ds. client_get_metadata_batch sample_client (map (\<lambda>k. (k, None)) [sample_base]) 2 1 (\<lambda>_. sample_io True [])
     [\<lambda>_. sample_io True [sample_met_reply]] Init = (Some (Ret (), Ok), data, c', ds) \<and> None \<notin> set data"
proof -
  have "\<exists>resp data c' ds. client_get_metadata_batch sample_client (map (\<lambda>k. (k, None)) [sample_base]) 2 1 (\<lambda>_. sample_io True [])
     [\<lambda>_. sample_io True [sample_met_reply]] Init = (Some (Ret (), resp), data, c', ds) \<and> resp = Ok"
    by (simp add: client_get_metadata_batch_def new_req_id_def inc_and_get_request_count_def sample_client_def sample_io_def sample_base_def
      receive_replies_def send_get_metadata_def send_all_def after_sending_batch_def metadata_element_def get_batch_element_def resend_def
      register_get_def empty_handler_def Let_def wait_for_get_metadata_until_def await_get_def sample_met_reply_def
      process_get_metadata_reply_msg_def update_get_def record_data_def map_insert_def req_id_str_def
      metadata_account_def get_metadata_batch_end_def)
  then obtain data c' ds where r: "client_get_metadata_batch sample_client (map (\<lambda>k. (k, None)) [sample_base]) 2 1
      (\<lambda>_. sample_io True []) [\<lambda>_. sample_io True [sample_met_reply]] Init = (Some (Ret (), Ok), data, c', ds)" by blast
  have "full (handler sample_client)" by (simp add: full_def sample_client_def empty_handler_def)
  from metadata_batch_answer[OF r this] have "None \<notin> set data"
    by (simp add: io_ok_def sample_io_def sample_met_reply_def)
  with r show ?thesis by blast
qed

end
