(* ===== verification/Fs_State.thy ===== *)
theory Fs_State
  imports Dir_Cache Client_Batch Kv_Store
begin

text \<open>
  The state of a mounted file system: \<^verbatim>\<open>lsfs/fuse_lsfs/lsfs_state.cpp\<close>, with the path functions of \<^verbatim>\<open>lsfs/fuse_lsfs/util.cpp\<close>.

  The file system calls the client library through \<open>client_ops\<close>, one field for each operation it uses; \<open>ops_of_client\<close> fills
  it with the client of \<open>Client\<close> and \<open>Client_Batch\<close>. \<^verbatim>\<open>errno\<close> is a field of the state. Files are stored in blocks of \<^verbatim>\<open>BLK_SIZE\<close> bytes
  under the keys \<open>path:0\<close>, \<open>path:1\<close>, \dots; block numbers are of type \<^verbatim>\<open>size_t\<close> and wrap around, which the callers use
  to start at block 0.
\<close>

section \<open>The client library as the file system sees it\<close>

record 'c client_ops =
  co_put :: "string \<Rightarrow> kv_store_version \<Rightarrow> FileType \<Rightarrow> bytes \<Rightarrow> 'c \<Rightarrow> unit res \<times> 'c"
  co_put_batch :: "(kv_store_key \<times> bytes) list \<Rightarrow> 'c \<Rightarrow> unit res \<times> 'c"
  co_put_child :: "string \<Rightarrow> kv_store_version \<Rightarrow> string \<Rightarrow> bool \<Rightarrow> bool \<Rightarrow> 'c \<Rightarrow> unit res \<times> 'c"
  co_del :: "string \<Rightarrow> kv_store_version \<Rightarrow> FileType \<Rightarrow> 'c \<Rightarrow> unit res \<times> 'c"
  co_get_latest_batch :: "string list \<Rightarrow> 'c \<Rightarrow> (unit res \<times> bytes option list) \<times> 'c"
  co_get_latest_version :: "string \<Rightarrow> 'c \<Rightarrow> kv_store_version option res \<times> 'c"
  co_get_latest_metadata_size ::
    "string \<Rightarrow> Response \<Rightarrow> kv_store_version \<Rightarrow> 'c \<Rightarrow> (bytes option res \<times> Response \<times> kv_store_version) \<times> 'c"
  co_get_latest_metadata_stat ::
    "string \<Rightarrow> Response \<Rightarrow> kv_store_version \<Rightarrow> 'c \<Rightarrow> (bytes option res \<times> Response \<times> kv_store_version) \<times> 'c"
  co_get_metadata_batch ::
    "kv_store_key list \<Rightarrow> int option \<Rightarrow> Response \<Rightarrow> 'c \<Rightarrow> (unit res \<times> Response \<times> bytes option list) \<times> 'c"

section \<open>State\<close>

datatype FileAccess = CREATED | MODIFIED | ACCESSED

record open_file =
  access_t :: FileAccess
  of_stat :: stat
  of_version :: kv_store_version

record 'c lsfs_state =
  open_files :: "string \<rightharpoonup> open_file"
  cache :: dir_cache
  refresh_cache_time :: int
  df_client :: 'c
  max_parallel_write_size :: nat
  max_parallel_read_size :: nat
  use_cache :: bool
  max_nr_requests_timeout :: int
  cache_max_nr_requests_timeout :: int
  errno :: int

definition ENOENT :: int where "ENOENT = 2"
definition EPERM :: int where "EPERM = 1"
definition EAGAIN :: int where "EAGAIN = 11"
definition ENOTEMPTY :: int where "ENOTEMPTY = 39"
definition EHOSTUNREACH :: int where "EHOSTUNREACH = 113"

text \<open>Sequencing of functions on the state; \<open>on_client\<close> calls the client.\<close>

type_synonym ('c, 'a) fs = "'c lsfs_state \<Rightarrow> 'a res \<times> 'c lsfs_state"

definition fbind :: "('c, 'a) fs \<Rightarrow> ('a \<Rightarrow> ('c, 'b) fs) \<Rightarrow> ('c, 'b) fs" where
  "fbind m f s = (case m s of (Ret a, s') \<Rightarrow> f a s' | (Throw e, s') \<Rightarrow> (Throw e, s') | (Hang, s') \<Rightarrow> (Hang, s'))"

definition freturn :: "'a \<Rightarrow> ('c, 'a) fs" where
  "freturn a s = (Ret a, s)"

definition fres :: "'a res \<Rightarrow> ('c, 'a) fs" where
  "fres r s = (r, s)"

definition on_client :: "('c \<Rightarrow> 'a \<times> 'c) \<Rightarrow> ('c, 'a) fs" where
  "on_client f s = (case f (df_client s) of (a, c) \<Rightarrow> (Ret a, s\<lparr>df_client := c\<rparr>))"

definition call_client :: "('c \<Rightarrow> 'a res \<times> 'c) \<Rightarrow> ('c, 'a) fs" where
  "call_client f = fbind (on_client f) fres"

definition set_errno :: "int \<Rightarrow> 'a \<Rightarrow> ('c, 'a) fs" where
  "set_errno e a s = (Ret a, s\<lparr>errno := e\<rparr>)"

definition minus_errno :: "('c, int) fs" where
  "minus_errno s = (Ret (- errno s), s)"

definition on_cache :: "(dir_cache \<Rightarrow> dir_cache) \<Rightarrow> ('c, unit) fs" where
  "on_cache f s = (Ret (), s\<lparr>cache := f (cache s)\<rparr>)"

section \<open>Paths\<close>

abbreviation backslash :: char where
  "backslash \<equiv> CHR 0x5C"

definition temp_extensions :: string where
  "temp_extensions = ''('' @ concat (map (\<lambda>e. backslash # e) [''.swx$|'', ''.swp$|'', ''.inf$|/'', ''.|~$)'']) "

definition parent_dir_pattern :: string where
  "parent_dir_pattern = ''(.*)/[^/]+$''"

definition child_name_pattern :: string where
  "child_name_pattern = ''/([^/]+)$''"

definition is_temp_file :: "regex \<Rightarrow> string \<Rightarrow> bool" where
  "is_temp_file rx path \<longleftrightarrow> rx temp_extensions (c_str path) \<noteq> None"

definition get_parent_dir :: "regex \<Rightarrow> string \<Rightarrow> string option" where
  "get_parent_dir rx path =
     (if path = ''/'' then None
      else case rx parent_dir_pattern (c_str path) of
             None \<Rightarrow> None
           | Some gs \<Rightarrow> if length gs > 1 then Some (if group1 gs = [] then ''/'' else group1 gs) else None)"

definition get_child_name :: "regex \<Rightarrow> string \<Rightarrow> string option" where
  "get_child_name rx path =
     (case rx child_name_pattern (c_str path) of
        None \<Rightarrow> None
      | Some gs \<Rightarrow> if length gs > 1 then Some (group1 gs) else None)"

section \<open>Blocks of files\<close>

definition blk_key :: "string \<Rightarrow> 64 word \<Rightarrow> string" where
  "blk_key base_path current_blk = blk_path base_path (unat current_blk)"

text \<open>The loop that fills the batch of \<^verbatim>\<open>put_fixed_size_blocks_from_buffer\<close>: \<open>buf\<close> is what is left of the buffer.\<close>

function write_blks :: "string \<Rightarrow> kv_store_version \<Rightarrow> 64 word \<Rightarrow> bytes \<Rightarrow> (kv_store_key \<times> bytes) list" where
  "write_blks base_path ver current_blk buf =
     (if buf = [] then []
      else (\<lparr>key = blk_key base_path (current_blk + 1), version = ver, f_type = FILE, is_deleted = False\<rparr>, take BLK_SIZE buf) #
           write_blks base_path ver (current_blk + 1) (drop BLK_SIZE buf))"
  by pat_completeness auto
termination
  by (relation "measure (\<lambda>(_, _, _, buf). length buf)") (auto simp: BLK_SIZE_def)

declare write_blks.simps [simp del]

definition put_fixed_size_blocks_from_buffer ::
  "'c client_ops \<Rightarrow> bytes \<Rightarrow> string \<Rightarrow> 64 word \<Rightarrow> kv_store_version \<Rightarrow> ('c, int) fs" where
  "put_fixed_size_blocks_from_buffer ops buf base_path current_blk ver =
     fbind (call_client (co_put_batch ops (write_blks base_path ver current_blk buf))) (\<lambda>_. freturn 0)"

text \<open>With a maximal size of 0 the loop makes no progress.\<close>

function put_limited :: "'c client_ops \<Rightarrow> nat \<Rightarrow> bytes \<Rightarrow> string \<Rightarrow> 64 word \<Rightarrow> kv_store_version \<Rightarrow> ('c, int) fs" where
  "put_limited ops max_size buf base_path current_blk ver =
     (if buf = [] then freturn 0
      else if max_size = 0 then fres Hang
      else
        (let write_size = min max_size (length buf) in
         fbind (put_fixed_size_blocks_from_buffer ops (take write_size buf) base_path current_blk ver) (\<lambda>res.
           if res = 0
           then put_limited ops max_size (drop write_size buf) base_path (current_blk + of_nat (write_size div BLK_SIZE)) ver
           else freturn (-1))))"
  by pat_completeness auto
termination
  by (relation "measure (\<lambda>(_, _, buf, _). length buf)") auto

declare put_limited.simps [simp del]

definition put_fixed_size_blocks_from_buffer_limited_paralelization ::
  "'c client_ops \<Rightarrow> bytes \<Rightarrow> string \<Rightarrow> 64 word \<Rightarrow> kv_store_version \<Rightarrow> ('c, int) fs" where
  "put_fixed_size_blocks_from_buffer_limited_paralelization ops buf base_path current_blk ver s =
     put_limited ops (max_parallel_write_size s) buf base_path current_blk ver s"

text \<open>The keys a read asks for.\<close>

fun read_keys :: "string \<Rightarrow> 64 word \<Rightarrow> nat \<Rightarrow> string list" where
  "read_keys base_path current_blk 0 = []"
| "read_keys base_path current_blk (Suc n) = blk_key base_path (current_blk + 1) # read_keys base_path (current_blk + 1) n"

text \<open>Copying the blocks into the buffer one after the other; the missing ones are skipped.\<close>

fun copy_blks :: "nat \<Rightarrow> bytes option list \<Rightarrow> bytes" where
  "copy_blks n [] = []"
| "copy_blks n (None # data_strs) = copy_blks n data_strs"
| "copy_blks n (Some data_blk # data_strs) =
     (let blk_write_size = min (length data_blk) n
      in take blk_write_size data_blk @ copy_blks (n - blk_write_size) data_strs)"

definition read_fixed_size_blocks_to_buffer :: "'c client_ops \<Rightarrow> nat \<Rightarrow> string \<Rightarrow> 64 word \<Rightarrow> ('c, bytes) fs" where
  "read_fixed_size_blocks_to_buffer ops n base_path current_blk =
     (let nr_blocks = n div BLK_SIZE + (if n mod BLK_SIZE = 0 then 0 else 1) in
      fbind (on_client (co_get_latest_batch ops (read_keys base_path current_blk nr_blocks))) (\<lambda>(r, data_strs).
        fbind (fres r) (\<lambda>_. freturn (copy_blks n data_strs))))"

text \<open>The loop does not end when no data is returned.\<close>

partial_function (option) read_limited ::
  "'c client_ops \<Rightarrow> nat \<Rightarrow> nat \<Rightarrow> string \<Rightarrow> 64 word \<Rightarrow> bytes \<Rightarrow> 'c lsfs_state \<Rightarrow> (bytes res \<times> 'c lsfs_state) option" where
  "read_limited ops max_size n base_path current_blk buf s =
     (if length buf < n then
        (let out = read_fixed_size_blocks_to_buffer ops (min max_size (n - length buf)) base_path current_blk s in
         case fst out of
           Ret d \<Rightarrow> read_limited ops max_size n base_path (current_blk + of_nat (length d div BLK_SIZE)) (buf @ d) (snd out)
         | Throw e \<Rightarrow> Some (Throw e, snd out)
         | Hang \<Rightarrow> Some (Hang, snd out))
      else Some (Ret buf, s))"

definition read_fixed_size_blocks_to_buffer_limited_paralelization ::
  "'c client_ops \<Rightarrow> nat \<Rightarrow> string \<Rightarrow> 64 word \<Rightarrow> ('c, bytes) fs" where
  "read_fixed_size_blocks_to_buffer_limited_paralelization ops n base_path current_blk s =
     (case read_limited ops (max_parallel_read_size s) n base_path current_blk [] s of
        None \<Rightarrow> (Hang, s)
      | Some out \<Rightarrow> out)"


section \<open>Metadata of files and directories\<close>

definition put_block :: "'c client_ops \<Rightarrow> string \<Rightarrow> bytes \<Rightarrow> kv_store_version \<Rightarrow> FileType \<Rightarrow> ('c, int) fs" where
  "put_block ops path buf ver ft = fbind (call_client (co_put ops path ver ft buf)) (\<lambda>_. freturn 0)"

text \<open>\<^verbatim>\<open>put_dir_metadata\<close> and \<^verbatim>\<open>put_file_metadata\<close> write on top of the latest version, or of no version when there is none.\<close>

definition put_latest :: "'c client_ops \<Rightarrow> string \<Rightarrow> bytes \<Rightarrow> FileType \<Rightarrow> ('c, int) fs" where
  "put_latest ops path data ft =
     fbind (call_client (co_get_latest_version ops path)) (\<lambda>last_v.
       put_block ops path data (case last_v of None \<Rightarrow> default_version | Some v \<Rightarrow> v) ft)"

definition put_dir_metadata :: "'d env \<Rightarrow> 'c client_ops \<Rightarrow> metadata \<Rightarrow> string \<Rightarrow> ('c, int) fs" where
  "put_dir_metadata E ops met path = put_latest ops path (enc_metadata E met) DIRECTORY"

definition put_file_metadata :: "'d env \<Rightarrow> 'c client_ops \<Rightarrow> metadata \<Rightarrow> string \<Rightarrow> ('c, int) fs" where
  "put_file_metadata E ops met path = put_latest ops path (enc_metadata E met) FILE"

definition put_file_metadata_version :: "'d env \<Rightarrow> 'c client_ops \<Rightarrow> metadata \<Rightarrow> string \<Rightarrow> kv_store_version \<Rightarrow> ('c, int) fs" where
  "put_file_metadata_version E ops met path ver = put_block ops path (enc_metadata E met) ver FILE"

definition put_dir_metadata_child :: "'c client_ops \<Rightarrow> string \<Rightarrow> string \<Rightarrow> bool \<Rightarrow> bool \<Rightarrow> ('c, int) fs" where
  "put_dir_metadata_child ops path child_path is_create is_dir =
     fbind (call_client (co_get_latest_version ops path)) (\<lambda>last_v.
       case last_v of
         None \<Rightarrow> set_errno ENOENT (-1)
       | Some ver \<Rightarrow> fbind (call_client (co_put_child ops path ver child_path is_create is_dir)) (\<lambda>_. freturn 0))"

definition delete_path :: "'c client_ops \<Rightarrow> string \<Rightarrow> FileType \<Rightarrow> ('c, int) fs" where
  "delete_path ops path ft =
     fbind (call_client (co_get_latest_version ops path)) (\<lambda>last_v.
       case last_v of
         None \<Rightarrow> set_errno ENOENT (-1)
       | Some ver \<Rightarrow> fbind (call_client (co_del ops path ver ft)) (\<lambda>_. freturn 0))"

definition delete_file :: "'c client_ops \<Rightarrow> string \<Rightarrow> ('c, int) fs" where
  "delete_file ops path = delete_path ops path FILE"

definition delete_dir :: "'c client_ops \<Rightarrow> string \<Rightarrow> ('c, int) fs" where
  "delete_dir ops path = delete_path ops path DIRECTORY"

text \<open>
  The metadata of a directory is read in two steps, its size and then its blocks. All functions also return the value of
  \<^verbatim>\<open>*response\<close>. A null block would be dereferenced; \<open>get_metadata_batch\<close> answers \<open>Ok\<close> only with all blocks present
  (\<open>Client_Batch.metadata_batch_answer\<close>).
\<close>

definition metadata_keys :: "string \<Rightarrow> nat \<Rightarrow> kv_store_version \<Rightarrow> kv_store_key list" where
  "metadata_keys base_path total_s last_version =
     map (\<lambda>i. \<lparr>key = blk_path base_path i, version = last_version, f_type = DIRECTORY, is_deleted = False\<rparr>)
       [1..<NR_BLKS total_s + 1]"

definition blk_bytes :: "bytes option \<Rightarrow> bytes" where
  "blk_bytes d = (case d of None \<Rightarrow> [] | Some b \<Rightarrow> b)"

definition request_metadata ::
  "'d env \<Rightarrow> 'c client_ops \<Rightarrow> string \<Rightarrow> nat \<Rightarrow> kv_store_version \<Rightarrow> Response \<Rightarrow> bool \<Rightarrow> ('c, metadata option \<times> Response) fs" where
  "request_metadata E ops base_path total_s last_version response for_cache s =
     fbind (on_client (co_get_metadata_batch ops (metadata_keys base_path total_s last_version)
                         (if for_cache then Some (cache_max_nr_requests_timeout s) else None) response))
       (\<lambda>(r, response', data_strs).
          fbind (fres r) (\<lambda>_.
            if response' \<noteq> Ok then freturn (None, response')
            else fbind (fres (of_option Archive_exception (dec_metadata E (concat (map blk_bytes data_strs)))))
                   (\<lambda>met. freturn (Some met, response')))) s"

text \<open>\<^verbatim>\<open>size_t\<close> from a signed value.\<close>

definition to_size_t :: "int \<Rightarrow> nat" where
  "to_size_t i = nat (i mod 2 ^ 64)"

fun get_dir_metadata_for_cache_loop ::
  "'d env \<Rightarrow> 'c client_ops \<Rightarrow> string \<Rightarrow> nat \<Rightarrow> Response \<Rightarrow> ('c, metadata option \<times> Response) fs" where
  "get_dir_metadata_for_cache_loop E ops path 0 response = freturn (None, response)"
| "get_dir_metadata_for_cache_loop E ops path (Suc n) response =
     fbind (on_client (co_get_latest_metadata_size ops path response default_version)) (\<lambda>(r, response', last_version).
       fbind (fres r) (\<lambda>data.
         if response' = Deleted then freturn (None, response')
         else case data of
                None \<Rightarrow> freturn (None, response')
              | Some d \<Rightarrow>
                  fbind (fres (stol d)) (\<lambda>metadata_size.
                    fbind (request_metadata E ops path (to_size_t metadata_size) last_version response' True) (\<lambda>(met, response'').
                      if met \<noteq> None \<or> response'' \<noteq> NoData_HigherVersion then freturn (met, response'')
                      else get_dir_metadata_for_cache_loop E ops path n response''))))"

definition get_dir_metadata_for_cache :: "'d env \<Rightarrow> 'c client_ops \<Rightarrow> string \<Rightarrow> ('c, metadata option) fs" where
  "get_dir_metadata_for_cache E ops path s =
     fbind (get_dir_metadata_for_cache_loop E ops path (nat (cache_max_nr_requests_timeout s)) Init) (\<lambda>(met, _). freturn met) s"

fun get_dir_metadata_loop :: "'d env \<Rightarrow> 'c client_ops \<Rightarrow> string \<Rightarrow> nat \<Rightarrow> Response \<Rightarrow> ('c, metadata option) fs" where
  "get_dir_metadata_loop E ops path 0 response =
     (if response = NoData_HigherVersion then set_errno ENOENT None else freturn None)"
| "get_dir_metadata_loop E ops path (Suc n) response =
     fbind (on_client (co_get_latest_metadata_size ops path response default_version)) (\<lambda>(r, response', last_version).
       fbind (fres r) (\<lambda>data.
         if response' = Deleted then set_errno ENOENT None
         else case data of
                None \<Rightarrow> set_errno ENOENT None
              | Some d \<Rightarrow>
                  fbind (fres (stol d)) (\<lambda>metadata_size.
                    fbind (request_metadata E ops path (to_size_t metadata_size) last_version response' False) (\<lambda>(met, response'').
                      if met \<noteq> None then freturn met
                      else if response'' = Deleted \<or> response'' = NoData then set_errno ENOENT None
                      else get_dir_metadata_loop E ops path n response''))))"

definition get_dir_metadata :: "'d env \<Rightarrow> 'c client_ops \<Rightarrow> string \<Rightarrow> ('c, metadata option) fs" where
  "get_dir_metadata E ops path s = get_dir_metadata_loop E ops path (nat (max_nr_requests_timeout s)) Init s"

text \<open>Both functions \<^verbatim>\<open>get_metadata_stat\<close>; the result has the version of the data.\<close>

definition get_stored_stat :: "'d env \<Rightarrow> 'c client_ops \<Rightarrow> string \<Rightarrow> ('c, (stat \<times> kv_store_version) option) fs" where
  "get_stored_stat E ops path =
     fbind (on_client (co_get_latest_metadata_stat ops path Init default_version)) (\<lambda>(r, response, last_version).
       fbind (fres r) (\<lambda>data.
         if response = Deleted then set_errno ENOENT None
         else case data of
                None \<Rightarrow> set_errno ENOENT None
              | Some d \<Rightarrow> fbind (fres (of_option Archive_exception (dec_attr E d))) (\<lambda>a. freturn (Some (a, last_version)))))"

section \<open>The cache of directories\<close>

text \<open>
  \<^verbatim>\<open>refresh_dir_cache\<close> reads again every cached directory whose last update is at least \<^verbatim>\<open>refresh_cache_time\<close> milliseconds old. The times are
  compared as floating-point numbers: \<open>rnd\<close> is the rounding, of nanoseconds. \<open>ord\<close> is the iteration order of the hash table and \<open>now\<close>
  the clock when a directory is looked at. Timeouts and an empty view are ignored.
\<close>

definition nanos :: "timespec \<Rightarrow> int" where
  "nanos t = tv_sec t * 1000000000 + tv_nsec t"

definition refresh_due :: "(int \<Rightarrow> int) \<Rightarrow> int \<Rightarrow> timespec \<Rightarrow> timespec \<Rightarrow> bool" where
  "refresh_due rnd refresh_time now last_update \<longleftrightarrow> rnd (nanos now) \<ge> rnd (nanos last_update + refresh_time * 1000000)"

definition refresh_dir :: "'d env \<Rightarrow> 'c client_ops \<Rightarrow> (int \<Rightarrow> int) \<Rightarrow> timespec \<Rightarrow> string \<Rightarrow> ('c, unit) fs" where
  "refresh_dir E ops rnd now k s =
     (case find_node k (cache s) of
        None \<Rightarrow> (Ret (), s)
      | Some (_, d) \<Rightarrow>
          if refresh_due rnd (refresh_cache_time s) now (d_last_update d) then
            (case get_dir_metadata_for_cache E ops k s of
               (Ret None, s') \<Rightarrow> (Ret (), s')
             | (Ret (Some met), s') \<Rightarrow> on_cache (update_node k (\<lambda>d. d\<lparr>d_metadata := met, d_last_update := now\<rparr>)) s'
             | (Throw e, s') \<Rightarrow> if e = TimeoutException \<or> e = EmptyViewException then (Ret (), s') else (Throw e, s')
             | (Hang, s') \<Rightarrow> (Hang, s'))
          else (Ret (), s))"

fun refresh_dirs :: "'d env \<Rightarrow> 'c client_ops \<Rightarrow> (int \<Rightarrow> int) \<Rightarrow> (string \<Rightarrow> timespec) \<Rightarrow> string list \<Rightarrow> ('c, unit) fs" where
  "refresh_dirs E ops rnd now [] = freturn ()"
| "refresh_dirs E ops rnd now (k # ks) = fbind (refresh_dir E ops rnd (now k) k) (\<lambda>_. refresh_dirs E ops rnd now ks)"

definition refresh_dir_cache ::
  "'d env \<Rightarrow> 'c client_ops \<Rightarrow> (int \<Rightarrow> int) \<Rightarrow> (string list \<Rightarrow> string list) \<Rightarrow> (string \<Rightarrow> timespec) \<Rightarrow> ('c, unit) fs" where
  "refresh_dir_cache E ops rnd ord now s = refresh_dirs E ops rnd now (ord (map fst (dir_cache_map (cache s)))) s"

text \<open>Adding a child to its parent directory, or removing it. Both patterns match the same paths; the child name is dereferenced.\<close>

definition change_parent_dir ::
  "'d env \<Rightarrow> 'c client_ops \<Rightarrow> (string \<Rightarrow> string \<Rightarrow> bool \<Rightarrow> dir_cache \<Rightarrow> dir_cache) \<Rightarrow> bool \<Rightarrow> string \<Rightarrow> bool \<Rightarrow> ('c, int) fs" where
  "change_parent_dir E ops in_cache is_create path is_dir s =
     (case (get_parent_dir (regex_search E) path, get_child_name (regex_search E) path) of
        (Some parent_path, Some child_name) \<Rightarrow>
          fbind (on_cache (if use_cache s then in_cache parent_path child_name is_dir else (\<lambda>c. c))) (\<lambda>_.
            fbind (put_dir_metadata_child ops parent_path child_name is_create is_dir) (\<lambda>res.
              if res \<noteq> 0 then minus_errno else freturn 0)) s
      | _ \<Rightarrow> (Ret 0, s))"

definition add_child_to_parent_dir :: "'d env \<Rightarrow> 'c client_ops \<Rightarrow> string \<Rightarrow> bool \<Rightarrow> ('c, int) fs" where
  "add_child_to_parent_dir E ops = change_parent_dir E ops add_child_to_dir_cache True"

definition remove_child_from_parent_dir :: "'d env \<Rightarrow> 'c client_ops \<Rightarrow> string \<Rightarrow> bool \<Rightarrow> ('c, int) fs" where
  "remove_child_from_parent_dir E ops = change_parent_dir E ops remove_child_from_dir_cache False"

section \<open>Open files\<close>

text \<open>Both functions \<^verbatim>\<open>add_open_file\<close>; the one without a version takes \<open>default_version\<close>.\<close>

definition add_open_file :: "string \<Rightarrow> stat \<Rightarrow> FileAccess \<Rightarrow> kv_store_version \<Rightarrow> 'c lsfs_state \<Rightarrow> 'c lsfs_state" where
  "add_open_file path stbuf acc n_version s =
     (case open_files s path of
        None \<Rightarrow> s\<lparr>open_files := (open_files s)(path \<mapsto> \<lparr>access_t = acc, of_stat = stbuf, of_version = n_version\<rparr>)\<rparr>
      | Some _ \<Rightarrow> s)"

definition is_file_opened :: "string \<Rightarrow> 'c lsfs_state \<Rightarrow> bool" where
  "is_file_opened path s \<longleftrightarrow> open_files s path \<noteq> None"

definition get_metadata_if_file_opened :: "string \<Rightarrow> 'c lsfs_state \<Rightarrow> stat option" where
  "get_metadata_if_file_opened path s = map_option of_stat (open_files s path)"

definition get_version_if_file_opened :: "string \<Rightarrow> 'c lsfs_state \<Rightarrow> kv_store_version option" where
  "get_version_if_file_opened path s = map_option of_version (open_files s path)"

text \<open>The comparison of the fields one after the other: the new stat, and whether something was modified.\<close>

definition merge_stat :: "stat \<Rightarrow> stat \<Rightarrow> stat \<times> bool" where
  "merge_stat a0 b =
     (let (a1, m1) = (if st_nlink a0 \<noteq> st_nlink b then (a0\<lparr>st_nlink := st_nlink b\<rparr>, True) else (a0, False));
          (a2, m2) = (if st_mode a1 \<noteq> st_mode b then (a1\<lparr>st_mode := or (st_mode a1) (st_mode b)\<rparr>, True) else (a1, m1));
          (a3, m3) = (if st_size a2 \<noteq> st_size b then (a2\<lparr>st_size := st_size b\<rparr>, True) else (a2, m2));
          (a4, m4) = (if st_blksize a3 \<noteq> st_blksize b then (a3\<lparr>st_blksize := st_blksize b\<rparr>, True) else (a3, m3));
          (a5, m5) = (if st_blocks a4 \<noteq> st_blocks b then (a4\<lparr>st_blocks := st_blocks b\<rparr>, True) else (a4, m4));
          (a6, m6) = (if st_size a5 \<noteq> st_size b then (a5\<lparr>st_size := st_size b\<rparr>, True) else (a5, m5));
          (a7, m7) = (if timespec_less (st_atim a6) (st_atim b) then (a6\<lparr>st_atim := st_atim b\<rparr>, True) else (a6, m6));
          (a8, m8) = (if timespec_less (st_mtim a7) (st_mtim b) then (a7\<lparr>st_mtim := st_mtim b\<rparr>, True) else (a7, m7))
      in if timespec_less (st_ctim a8) (st_ctim b) then (a8\<lparr>st_ctim := st_ctim b\<rparr>, True) else (a8, m8))"

definition update_open_file_metadata :: "string \<Rightarrow> stat \<Rightarrow> 'c lsfs_state \<Rightarrow> bool \<times> 'c lsfs_state" where
  "update_open_file_metadata path stbuf s =
     (case open_files s path of
        None \<Rightarrow> (False, s)
      | Some f \<Rightarrow>
          (let (st, modified) = merge_stat (of_stat f) stbuf;
               acc = (if modified \<and> access_t f = ACCESSED then MODIFIED else access_t f)
           in (True, s\<lparr>open_files := (open_files s)(path \<mapsto> f\<lparr>of_stat := st, access_t := acc\<rparr>)\<rparr>)))"

text \<open>The block count of a file size; \<^verbatim>\<open>nr_b_blks\<close> is an \<^verbatim>\<open>int\<close>.\<close>

definition to_int32 :: "int \<Rightarrow> int" where
  "to_int32 i = (i + 2 ^ 31) mod 2 ^ 32 - 2 ^ 31"

definition resized :: "nat \<Rightarrow> timespec \<Rightarrow> stat \<Rightarrow> stat" where
  "resized n now stbuf =
     (let nr_b_blks = to_int32 (int (n div BLK_SIZE)); off_blk = n mod BLK_SIZE in
      stbuf\<lparr>st_size := int n, st_blocks := (if off_blk \<noteq> 0 then nr_b_blks + 1 else nr_b_blks), st_ctim := now, st_mtim := now\<rparr>)"

definition update_file_size_if_opened :: "string \<Rightarrow> nat \<Rightarrow> timespec \<Rightarrow> 'c lsfs_state \<Rightarrow> bool \<times> 'c lsfs_state" where
  "update_file_size_if_opened path n now s =
     (case get_metadata_if_file_opened path s of
        None \<Rightarrow> (False, s)
      | Some stbuf \<Rightarrow> update_open_file_metadata path (resized n now stbuf) s)"

definition update_file_time_if_opened :: "string \<Rightarrow> timespec \<Rightarrow> timespec \<Rightarrow> 'c lsfs_state \<Rightarrow> bool \<times> 'c lsfs_state" where
  "update_file_time_if_opened path ts0 ts1 s =
     (case get_metadata_if_file_opened path s of
        None \<Rightarrow> (False, s)
      | Some stbuf \<Rightarrow> update_open_file_metadata path (stbuf\<lparr>st_atim := ts0, st_mtim := ts1\<rparr>) s)"

definition set_accessed :: "string \<Rightarrow> ('c, int) fs" where
  "set_accessed path s =
     (Ret 0, s\<lparr>open_files := (open_files s)(path := map_option (\<lambda>f. f\<lparr>access_t := ACCESSED\<rparr>) (open_files s path))\<rparr>)"

definition flush_open_file :: "'d env \<Rightarrow> 'c client_ops \<Rightarrow> string \<Rightarrow> ('c, int) fs" where
  "flush_open_file E ops path s =
     (case open_files s path of
        None \<Rightarrow> fbind (set_errno ENOENT ()) (\<lambda>_. minus_errno) s
      | Some f \<Rightarrow>
          (let send = put_file_metadata_version E ops (metadata_of_attr (of_stat f)) path (of_version f) in
           case access_t f of
             CREATED \<Rightarrow>
               fbind send (\<lambda>res.
                 if res \<noteq> 0 then freturn res
                 else fbind (add_child_to_parent_dir E ops path False) (\<lambda>res.
                        if res \<noteq> 0 then freturn res else set_accessed path)) s
           | MODIFIED \<Rightarrow> fbind send (\<lambda>res. if res \<noteq> 0 then freturn res else set_accessed path) s
           | ACCESSED \<Rightarrow> set_accessed path s))"

definition flush_and_release_open_file :: "'d env \<Rightarrow> 'c client_ops \<Rightarrow> string \<Rightarrow> ('c, int) fs" where
  "flush_and_release_open_file E ops path =
     fbind (flush_open_file E ops path) (\<lambda>res.
       if res \<noteq> 0 then freturn res else (\<lambda>s. (Ret 0, s\<lparr>open_files := (open_files s)(path := None)\<rparr>)))"

section \<open>Configuration\<close>

definition string_capacity_size_regex :: string where
  "string_capacity_size_regex = ''('' @ [backslash] @ ''d+)([bBkKmM])$''"

text \<open>
  The size of a parallel read or write from the configuration, such as \<^verbatim>\<open>64k\<close>. The products with \<^verbatim>\<open>pow\<close> are computed in floating point, which is
  exact for 32-bit numbers and the units of the pattern. Both messages are text literals.
\<close>

definition unit_size :: "string \<Rightarrow> int" where
  "unit_size g =
     (case g of
        [] \<Rightarrow> 1
      | u # _ \<Rightarrow> if u \<in> set ''kK'' then 1024 else if u \<in> set ''mM'' then 1024 * 1000 else if u \<in> set ''gG'' then 1024 * 1000000 else 1)"

definition convert_string_size_to_num_bytes :: "regex \<Rightarrow> string \<Rightarrow> nat res" where
  "convert_string_size_to_num_bytes rx format_size =
     (case rx string_capacity_size_regex (c_str format_size) of
        None \<Rightarrow> Throw (Message ''Bad read/write parallelization config format!!'')
      | Some gs \<Rightarrow>
          if length gs > 2 then
            (case stoi (gs ! 1) of
               Throw e \<Rightarrow> Throw (if e = Invalid_argument then Message ''Bad read/write parallelization config format!!'' else e)
             | Hang \<Rightarrow> Hang
             | Ret n \<Rightarrow>
                 (let num = to_size_t (int (to_size_t n) * unit_size (gs ! 2))
                  in if num mod BLK_SIZE \<noteq> 0
                     then Throw (Message ''Read/write parallelization value should be a multiple of Block Size!!'') else Ret num))
          else Throw (Message ''Bad read/write parallelization config format!!''))"

end
