(* ===== verification/Fs_Ops.thy ===== *)
theory Fs_Ops
  imports Fs_State
begin

text \<open>
  The system calls of the mounted file system: \<^verbatim>\<open>lsfs/fuse_lsfs/ops_file.cpp\<close>, \<^verbatim>\<open>ops_metadata.cpp\<close>, \<^verbatim>\<open>ops_createdelete.cpp\<close>, \<^verbatim>\<open>ops_dir.cpp\<close>,
  \<^verbatim>\<open>ops_initdestroy.cpp\<close>, \<^verbatim>\<open>ops_symlink.cpp\<close> and \<^verbatim>\<open>ops_filesystem.cpp\<close>, on the state of \<open>Fs_State\<close>.

  What a call cannot control is a \<open>sys_env\<close>: the calling user, the clocks, the outcome of the one call to the host's file system that
  the call may make (temporary files live there), and the content of uninitialised memory. Offsets and sizes are those
  the kernel passes, which are not negative; arithmetic on \<^verbatim>\<open>size_t\<close> and the narrowing to \<^verbatim>\<open>int\<close> wrap around as in the code.
\<close>

section \<open>Environment of a call\<close>

record sys_env =
  ctx_uid :: int
  ctx_gid :: int
  ctx_umask :: "32 word"
  impersonate_error :: "int option"
  realtime :: timespec
  monotonic :: timespec
  host_result :: "int + int"
  host_stat :: stat
  host_data :: bytes
  junk :: "nat \<Rightarrow> char"
  stat_junk :: stat

record fuse_file_info =
  fi_flags :: "32 word"
  fi_direct_io :: bool
  fi_fh :: int

definition O_DIRECT :: "32 word" where "O_DIRECT = 0x4000"
definition O_TRUNC :: "32 word" where "O_TRUNC = 0x200"
definition S_IFDIR :: "32 word" where "S_IFDIR = 0x4000"
definition EINVAL :: int where "EINVAL = 22"

text \<open>A call to the host: \<open>Inl e\<close> is the result \<open>-1\<close> with \<^verbatim>\<open>errno\<close> set to \<open>e\<close>.\<close>

definition host_call :: "sys_env \<Rightarrow> ('c, int) fs" where
  "host_call x = (case host_result x of Inl e \<Rightarrow> set_errno e (-1) | Inr r \<Rightarrow> freturn r)"

definition zero_or_errno :: "int \<Rightarrow> ('c, int) fs" where
  "zero_or_errno res = (if res = 0 then freturn 0 else minus_errno)"

text \<open>The handlers around the calls. The reading calls have none for concurrent writes.\<close>

fun errno_of :: "bool \<Rightarrow> exn \<Rightarrow> int option" where
  "errno_of writes EmptyViewException = Some EAGAIN"
| "errno_of writes ConcurrentWritesSameKeyException = (if writes then Some EPERM else None)"
| "errno_of writes TimeoutException = Some EHOSTUNREACH"
| "errno_of writes _ = None"

definition try_catch :: "bool \<Rightarrow> ('c, 'a) fs \<Rightarrow> ('c, 'a) fs \<Rightarrow> ('c, 'a) fs" where
  "try_catch writes m on_exn s =
     (case m s of
        (Throw e, s') \<Rightarrow> (case errno_of writes e of None \<Rightarrow> (Throw e, s') | Some n \<Rightarrow> on_exn (s'\<lparr>errno := n\<rparr>))
      | out \<Rightarrow> out)"

text \<open>The calling process's identity; the mode loses the bits of the umask.\<close>

definition impersonated :: "sys_env \<Rightarrow> 32 word \<Rightarrow> (32 word \<Rightarrow> ('c, int) fs) \<Rightarrow> ('c, int) fs" where
  "impersonated x mode f =
     (case impersonate_error x of
        Some e \<Rightarrow> fbind (set_errno e ()) (\<lambda>_. minus_errno)
      | None \<Rightarrow> f (and mode (not (ctx_umask x))))"

section \<open>Attributes\<close>

text \<open>The result and the content of the caller's \<^verbatim>\<open>struct stat\<close>.\<close>

definition fs_getattr :: "'d env \<Rightarrow> 'c client_ops \<Rightarrow> sys_env \<Rightarrow> string \<Rightarrow> stat \<Rightarrow> ('c, int \<times> stat) fs" where
  "fs_getattr E ops x path stbuf s =
     (if is_temp_file (regex_search E) path then
        fbind (host_call x) (\<lambda>res. fbind (zero_or_errno res) (\<lambda>r. freturn (r, if res = 0 then host_stat x else stbuf))) s
      else
        (case get_metadata_if_file_opened path s of
           Some st \<Rightarrow> (Ret (0, st), s)
         | None \<Rightarrow>
             (case (if use_cache s then get_metadata_if_dir_cached path (cache s) else (None, cache s)) of
                (Some d, c) \<Rightarrow> (Ret (0, attr (d_metadata d)), s\<lparr>cache := c\<rparr>)
              | (None, c) \<Rightarrow>
                  try_catch False
                    (fbind (get_stored_stat E ops path) (\<lambda>met_attr.
                       case met_attr of
                         None \<Rightarrow> fbind minus_errno (\<lambda>r. freturn (r, stbuf))
                       | Some (st, _) \<Rightarrow> freturn (0, st)))
                    (fbind minus_errno (\<lambda>r. freturn (r, stbuf))) (s\<lparr>cache := c\<rparr>))))"

text \<open>\<^verbatim>\<open>_utimens\<close> and \<^verbatim>\<open>_truncate\<close> change an open file in memory, and the stored metadata of any other file.\<close>

definition change_stored :: "'d env \<Rightarrow> 'c client_ops \<Rightarrow> sys_env \<Rightarrow> string \<Rightarrow> (stat \<Rightarrow> stat) \<Rightarrow> ('c, int) fs" where
  "change_stored E ops x path f =
     fbind (fs_getattr E ops x path (stat_junk x)) (\<lambda>(res, stbuf).
       if res \<noteq> 0 then minus_errno
       else try_catch True
              (fbind (put_file_metadata E ops (metadata_of_attr (f stbuf)) path) (\<lambda>res.
                 if res = -1 then minus_errno else freturn 0))
              minus_errno)"

definition fs_utimens :: "'d env \<Rightarrow> 'c client_ops \<Rightarrow> sys_env \<Rightarrow> string \<Rightarrow> timespec \<Rightarrow> timespec \<Rightarrow> ('c, int) fs" where
  "fs_utimens E ops x path ts0 ts1 s =
     (if is_temp_file (regex_search E) path then fbind (host_call x) zero_or_errno s
      else
        (case update_file_time_if_opened path ts0 ts1 s of
           (True, s') \<Rightarrow> (Ret 0, s')
         | (False, s') \<Rightarrow> change_stored E ops x path (\<lambda>st. st\<lparr>st_atim := ts0, st_mtim := ts1\<rparr>) s'))"

definition fs_truncate :: "'d env \<Rightarrow> 'c client_ops \<Rightarrow> sys_env \<Rightarrow> string \<Rightarrow> nat \<Rightarrow> ('c, int) fs" where
  "fs_truncate E ops x path n s =
     (if is_temp_file (regex_search E) path then fbind (host_call x) zero_or_errno s
      else
        (case update_file_size_if_opened path n (realtime x) s of
           (True, s') \<Rightarrow> (Ret 0, s')
         | (False, s') \<Rightarrow> change_stored E ops x path (resized n (realtime x)) s'))"

section \<open>Files\<close>

definition create_or_open :: "sys_env \<Rightarrow> fuse_file_info \<Rightarrow> ('c, int \<times> fuse_file_info) fs" where
  "create_or_open x fi =
     (let fi' = (if and (fi_flags fi) O_DIRECT \<noteq> 0
                 then fi\<lparr>fi_flags := and (fi_flags fi) (not O_DIRECT), fi_direct_io := True\<rparr> else fi) in
      fbind (host_call x) (\<lambda>result.
        if result = -1 then fbind minus_errno (\<lambda>r. freturn (r, fi')) else freturn (0, fi'\<lparr>fi_fh := result\<rparr>)))"

definition fs_create :: "'d env \<Rightarrow> sys_env \<Rightarrow> string \<Rightarrow> 32 word \<Rightarrow> fuse_file_info \<Rightarrow> ('c, int \<times> fuse_file_info) fs" where
  "fs_create E x path mode fi =
     (case impersonate_error x of
        Some e \<Rightarrow> fbind (set_errno e ()) (\<lambda>_. fbind minus_errno (\<lambda>r. freturn (r, fi)))
      | None \<Rightarrow>
          if is_temp_file (regex_search E) path then create_or_open x fi
          else
            (let stbuf = initialize_metadata (realtime x) (and mode (not (ctx_umask x))) 1 (ctx_gid x) (ctx_uid x)
             in (\<lambda>s. (Ret (0, fi), add_open_file path stbuf CREATED default_version s))))"

definition fs_open :: "'d env \<Rightarrow> 'c client_ops \<Rightarrow> sys_env \<Rightarrow> string \<Rightarrow> fuse_file_info \<Rightarrow> ('c, int \<times> fuse_file_info) fs" where
  "fs_open E ops x path fi =
     (if is_temp_file (regex_search E) path then create_or_open x fi
      else
        fbind
          (try_catch False
             (fbind (if and (fi_flags fi) O_TRUNC \<noteq> 0 then fs_truncate E ops x path 0 else freturn 0) (\<lambda>_ s.
                if is_file_opened path s then (Ret 0, s)
                else fbind (get_stored_stat E ops path) (\<lambda>met_attr.
                       case met_attr of
                         None \<Rightarrow> minus_errno
                       | Some (st, last_version) \<Rightarrow> (\<lambda>s. (Ret 0, add_open_file path st ACCESSED last_version s))) s))
             minus_errno)
          (\<lambda>res. freturn (res, fi)))"

definition fs_flush :: "'d env \<Rightarrow> 'c client_ops \<Rightarrow> string \<Rightarrow> ('c, int) fs" where
  "fs_flush E ops path =
     (if is_temp_file (regex_search E) path then freturn 0
      else try_catch True (flush_open_file E ops path) minus_errno)"

definition fs_release :: "'d env \<Rightarrow> 'c client_ops \<Rightarrow> sys_env \<Rightarrow> string \<Rightarrow> ('c, int) fs" where
  "fs_release E ops x path =
     (if is_temp_file (regex_search E) path then fbind (host_call x) zero_or_errno
      else try_catch True (flush_and_release_open_file E ops path) minus_errno)"

definition fs_fsync :: "'d env \<Rightarrow> 'c client_ops \<Rightarrow> sys_env \<Rightarrow> string \<Rightarrow> ('c, int) fs" where
  "fs_fsync E ops x path =
     (if is_temp_file (regex_search E) path then fbind (host_call x) zero_or_errno
      else try_catch True (flush_open_file E ops path) minus_errno)"

text \<open>
  Bytes \<open>from\<close> up to \<open>from + len\<close> of a local array into which \<open>d\<close> was read; the others are uninitialised, or beyond
  the array. What a failed read leaves in the array counts as uninitialised.
\<close>

definition array_slice :: "sys_env \<Rightarrow> bytes \<Rightarrow> nat \<Rightarrow> nat \<Rightarrow> bytes" where
  "array_slice x d from_pos len = map (\<lambda>i. if i < length d then d ! i else junk x i) [from_pos..<from_pos + len]"

text \<open>The result of \<^verbatim>\<open>_read\<close> and what it stored in the buffer. A read in the middle of a block first reads the whole block.\<close>

function fs_read :: "'d env \<Rightarrow> 'c client_ops \<Rightarrow> sys_env \<Rightarrow> string \<Rightarrow> nat \<Rightarrow> nat \<Rightarrow> ('c, int \<times> bytes) fs" where
  "fs_read E ops x path n offset =
     (let fail = fbind minus_errno (\<lambda>r. freturn (r, [])) in
      if is_temp_file (regex_search E) path then
        fbind (host_call x) (\<lambda>r. if r = -1 then fail else freturn (r, host_data x))
      else
        fbind (fs_getattr E ops x path (stat_junk x)) (\<lambda>(res, stbuf).
          if res \<noteq> 0 then fail
          else
            (let file_size = to_size_t (st_size stbuf);
                 nr_b_blks = offset div BLK_SIZE;
                 off_blk = offset mod BLK_SIZE;
                 current_blk = (of_nat nr_b_blks - 1 :: 64 word)
             in if offset \<ge> file_size then freturn (0, [])
                else
                  try_catch True
                    (fbind
                       (if off_blk \<noteq> 0 then
                          fbind (fs_read E ops x path BLK_SIZE (nr_b_blks * BLK_SIZE)) (\<lambda>(bytes_read, ini_buf).
                            if bytes_read < 0 then freturn None
                            else
                              (let ini_size = (if int n \<le> bytes_read then n else min (BLK_SIZE - off_blk) (nat bytes_read))
                               in freturn (Some (array_slice x ini_buf off_blk ini_size))))
                        else freturn (Some []))
                       (\<lambda>first.
                          case first of
                            None \<Rightarrow> fail
                          | Some ini \<Rightarrow>
                              (let bytes_count = int (length ini);
                                   missing_read_size =
                                     to_int32 (int (min (to_size_t (int n - bytes_count))
                                                        (to_size_t (int file_size - int offset - bytes_count))))
                               in fbind
                                    (if missing_read_size > 0
                                     then read_fixed_size_blocks_to_buffer_limited_paralelization ops (nat missing_read_size) path current_blk
                                     else freturn [])
                                    (\<lambda>d. freturn (to_int32 (int (length (ini @ d))), ini @ d)))))
                    fail)))"
  by pat_completeness auto
termination
  by (relation "measure (\<lambda>(_, _, _, _, _, offset). offset mod BLK_SIZE)") auto

declare fs_read.simps [simp del]

text \<open>The block that a write in the middle of a block writes: the beginning of the old one and then the data. Its result
  is how much of the buffer was used and the number of the block, or the result of the call.\<close>

definition write_first_block ::
  "'d env \<Rightarrow> 'c client_ops \<Rightarrow> sys_env \<Rightarrow> string \<Rightarrow> bytes \<Rightarrow> nat \<Rightarrow> nat \<Rightarrow> kv_store_version \<Rightarrow> ('c, int + nat \<times> 64 word) fs" where
  "write_first_block E ops x path buf offset current_size ver =
     (let nr_b_blks = offset div BLK_SIZE;
          off_blk = offset mod BLK_SIZE;
          current_blk = (of_nat nr_b_blks - 1 :: 64 word)
      in if off_blk = 0 then freturn (Inr (0, current_blk))
         else if offset \<le> current_size then
           fbind (fs_read E ops x path BLK_SIZE (nr_b_blks * BLK_SIZE)) (\<lambda>(bytes_read, put_buf).
             (let write_s = (if off_blk + length buf > BLK_SIZE then BLK_SIZE - off_blk else length buf) in
              fbind (put_block ops (blk_key path (current_blk + 1)) (array_slice x put_buf 0 off_blk @ take write_s buf) ver FILE) (\<lambda>res.
                if res = -1 then fbind minus_errno (\<lambda>r. freturn (Inl r)) else freturn (Inr (write_s, current_blk + 1)))))
         else fbind (set_errno EPERM ()) (\<lambda>_. fbind minus_errno (\<lambda>r. freturn (Inl r))))"

definition written_stat :: "nat \<Rightarrow> 64 word \<Rightarrow> timespec \<Rightarrow> stat \<Rightarrow> stat" where
  "written_stat next_size current_blk now stbuf =
     (let blk = current_blk + of_nat (next_size div BLK_SIZE + (if next_size mod BLK_SIZE = 0 then 0 else 1))
      in stbuf\<lparr>st_size := int next_size, st_blocks := sint (blk + 1), st_ctim := now, st_mtim := now\<rparr>)"

definition fs_write :: "'d env \<Rightarrow> 'c client_ops \<Rightarrow> sys_env \<Rightarrow> string \<Rightarrow> bytes \<Rightarrow> nat \<Rightarrow> ('c, int) fs" where
  "fs_write E ops x path buf offset =
     (if is_temp_file (regex_search E) path then
        fbind (host_call x) (\<lambda>result. if result = -1 then minus_errno else freturn result)
      else
        fbind (fs_getattr E ops x path (stat_junk x)) (\<lambda>(res, stbuf) s.
          if res \<noteq> 0 then minus_errno s
          else
            (case get_version_if_file_opened path s of
               None \<Rightarrow> fbind (set_errno EAGAIN ()) (\<lambda>_. minus_errno) s
             | Some ver \<Rightarrow>
                 (let current_size = to_size_t (st_size stbuf);
                      next_size = (if current_size > offset + length buf then current_size else offset + length buf)
                  in try_catch True
                       (fbind (write_first_block E ops x path buf offset current_size ver) (\<lambda>first.
                          case first of
                            Inl r \<Rightarrow> freturn r
                          | Inr (read_off, current_blk) \<Rightarrow>
                              fbind (put_fixed_size_blocks_from_buffer_limited_paralelization ops (drop read_off buf) path current_blk ver)
                                (\<lambda>res.
                                   if res = -1 then minus_errno
                                   else (\<lambda>s. (Ret (to_int32 (int (length buf))),
                                         snd (update_open_file_metadata path
                                                (written_stat next_size current_blk (realtime x) stbuf) s))))))
                       minus_errno s))))"

section \<open>Creating and deleting\<close>

definition fs_unlink :: "'d env \<Rightarrow> 'c client_ops \<Rightarrow> string \<Rightarrow> ('c, int) fs" where
  "fs_unlink E ops path =
     try_catch True
       (fbind (delete_file ops path) (\<lambda>res.
          if res \<noteq> 0 then minus_errno
          else fbind (remove_child_from_parent_dir E ops path False) zero_or_errno))
       minus_errno"

definition fs_mkdir :: "'d env \<Rightarrow> 'c client_ops \<Rightarrow> sys_env \<Rightarrow> string \<Rightarrow> 32 word \<Rightarrow> ('c, int) fs" where
  "fs_mkdir E ops x path mode =
     impersonated x mode (\<lambda>mode.
       (let n_link = (if path = ''/'' then 1 else 2);
            to_send = metadata_of_attr (initialize_metadata (realtime x) (or S_IFDIR mode) n_link (ctx_gid x) (ctx_uid x))
        in fbind
             (try_catch True
                (fbind (put_dir_metadata E ops to_send path) (\<lambda>_.
                   fbind (add_child_to_parent_dir E ops path True) (\<lambda>res s.
                     fbind (on_cache (if use_cache s then add_to_dir_cache (monotonic x) path to_send else (\<lambda>c. c))) (\<lambda>_. freturn res) s)))
                (freturn (-1)))
             zero_or_errno))"

text \<open>The part of \<^verbatim>\<open>_rmdir\<close> that checks for children: \<open>Some r\<close> when the call returns \<open>r\<close> at once.\<close>

definition check_dir_empty :: "'d env \<Rightarrow> 'c client_ops \<Rightarrow> string \<Rightarrow> ('c, int option) fs" where
  "check_dir_empty E ops path s =
     (let fail = fbind minus_errno (\<lambda>r. freturn (Some r));
          not_empty = fbind (set_errno ENOTEMPTY ()) (\<lambda>_. fail);
          (is_empty, is_cached) = (if use_cache s then is_dir_childs_empty path (cache s) else (True, False))
      in if \<not> is_empty then not_empty s
         else if is_cached then (Ret None, s)
         else
           fbind (get_dir_metadata E ops path) (\<lambda>met.
             case met of
               None \<Rightarrow> fail
             | Some m \<Rightarrow> if childs_is_empty (childs m) then freturn None else not_empty) s)"

definition fs_rmdir :: "'d env \<Rightarrow> 'c client_ops \<Rightarrow> string \<Rightarrow> ('c, int) fs" where
  "fs_rmdir E ops path =
     try_catch True
       (fbind (check_dir_empty E ops path) (\<lambda>early.
          case early of
            Some r \<Rightarrow> freturn r
          | None \<Rightarrow>
              fbind (delete_dir ops path) (\<lambda>res s.
                if res \<noteq> 0 then minus_errno s
                else
                  fbind (on_cache (if use_cache s then remove_from_dir_cache path else (\<lambda>c. c))) (\<lambda>_.
                    fbind (remove_child_from_parent_dir E ops path True) zero_or_errno) s)))
       minus_errno"

section \<open>Directories\<close>

definition listed :: "metadata \<Rightarrow> string list" where
  "listed met = map (\<lambda>(path, _). c_str path) (filter (\<lambda>(_, val). snd val \<noteq> REMOVED) (entries (childs met)))"

text \<open>The result and the names given to the filler.\<close>

definition fs_readdir :: "'d env \<Rightarrow> 'c client_ops \<Rightarrow> sys_env \<Rightarrow> string \<Rightarrow> ('c, int \<times> string list) fs" where
  "fs_readdir E ops x path s =
     (let dots = ''.'' # (if path \<noteq> ''/'' then [''..''] else []);
          fail = fbind minus_errno (\<lambda>r. freturn (r, dots))
      in case (if use_cache s then get_metadata_if_dir_cached path (cache s) else (None, cache s)) of
           (Some dir, c) \<Rightarrow> (Ret (0, dots @ listed (d_metadata dir)), s\<lparr>cache := c\<rparr>)
         | (None, c) \<Rightarrow>
             try_catch False
               (fbind (get_dir_metadata E ops path) (\<lambda>met.
                  case met of
                    None \<Rightarrow> fail
                  | Some m \<Rightarrow> (\<lambda>s.
                      fbind (on_cache (if use_cache s then add_to_dir_cache (monotonic x) path m else (\<lambda>c. c)))
                        (\<lambda>_. freturn (0, dots @ listed m)) s)))
               fail (s\<lparr>cache := c\<rparr>))"

text \<open>Mounting makes the root directory; \<open>False\<close> is the exit of the process.\<close>

definition fs_init :: "'d env \<Rightarrow> 'c client_ops \<Rightarrow> sys_env \<Rightarrow> ('c, bool) fs" where
  "fs_init E ops x = fbind (fs_mkdir E ops x ''/'' 0x1FF) (\<lambda>res. freturn (res = 0))"

section \<open>Calls passed on to the host\<close>

text \<open>\<^verbatim>\<open>_link\<close>, \<^verbatim>\<open>_chmod\<close>, \<^verbatim>\<open>_chown\<close>, \<^verbatim>\<open>_fallocate\<close> and \<^verbatim>\<open>_statfs\<close> only call the host.\<close>

definition fs_host_only :: "sys_env \<Rightarrow> ('c, int) fs" where
  "fs_host_only x = fbind (host_call x) zero_or_errno"

definition fs_mknod :: "sys_env \<Rightarrow> 32 word \<Rightarrow> ('c, int) fs" where
  "fs_mknod x mode = impersonated x mode (\<lambda>_. fs_host_only x)"

definition fs_symlink :: "sys_env \<Rightarrow> ('c, int) fs" where
  "fs_symlink x = impersonated x 0 (\<lambda>_. fs_host_only x)"

definition fs_rename :: "sys_env \<Rightarrow> 32 word \<Rightarrow> ('c, int) fs" where
  "fs_rename x flags = (if flags \<noteq> 0 then freturn (- EINVAL) else fs_host_only x)"

definition fs_readlink :: "sys_env \<Rightarrow> nat \<Rightarrow> ('c, int \<times> bytes) fs" where
  "fs_readlink x n =
     (if n = 0 then freturn (- EINVAL, [])
      else fbind (host_call x) (\<lambda>result.
        if result < 0 then fbind minus_errno (\<lambda>r. freturn (r, [])) else freturn (0, take (nat result) (host_data x) @ [CHR 0x00])))"

end
