(* ===== verification/Fs_Errors.thy ===== *)
theory Fs_Errors
  imports Fs_Ops
begin

text \<open>
  How the system calls report errors. The client library records the exceptions it throws: a predicate \<open>good\<close> of its state says that it
  has thrown none, and \<open>bad e\<close> that it has thrown \<open>e\<close> and nothing else. \<open>fvalid\<close> is a Hoare logic for functions that let exceptions through, and
  \<open>freports\<close> one for the calls with handlers: an exception of the client must be the reported error or leave the call. The locale
  \<open>fs_client\<close> is what the file system relies on; in it, the outcomes of the system calls are derived. \<open>Fs_Client\<close> interprets it for the
  client of this development.
\<close>

section \<open>A logic for functions without handlers\<close>

named_theorems fs_vc \<open>rules of the logic and triples of operations\<close>

text \<open>An exception comes from the client or from the function itself.\<close>

datatype origin = Client | Own

text \<open>An outcome is fine when the client has thrown nothing and the result satisfies \<open>Q\<close>, or the exception is in \<open>X\<close> and is, if it comes
  from the client, the one the client has thrown.\<close>

fun fok :: "('c \<Rightarrow> bool) \<Rightarrow> (exn \<Rightarrow> 'c \<Rightarrow> bool) \<Rightarrow> ('a \<Rightarrow> 'c lsfs_state \<Rightarrow> bool) \<Rightarrow> (origin \<times> exn) set \<Rightarrow> 'a res \<times> 'c lsfs_state \<Rightarrow> bool" where
  "fok good bad Q X (Ret a, s) \<longleftrightarrow> good (df_client s) \<and> Q a s"
| "fok good bad Q X (Throw e, s) \<longleftrightarrow> bad e (df_client s) \<and> (Client, e) \<in> X \<or> good (df_client s) \<and> (Own, e) \<in> X"
| "fok good bad Q X (Hang, s) \<longleftrightarrow> good (df_client s)"

definition fvalid ::
  "('c \<Rightarrow> bool) \<Rightarrow> (exn \<Rightarrow> 'c \<Rightarrow> bool) \<Rightarrow> ('c lsfs_state \<Rightarrow> bool) \<Rightarrow> ('c, 'a) fs \<Rightarrow> ('a \<Rightarrow> 'c lsfs_state \<Rightarrow> bool) \<Rightarrow>
     (origin \<times> exn) set \<Rightarrow> bool" where
  "fvalid good bad P m Q X \<longleftrightarrow> (\<forall>s. good (df_client s) \<longrightarrow> P s \<longrightarrow> fok good bad Q X (m s))"

lemma fvalidI: "(\<And>s. good (df_client s) \<Longrightarrow> P s \<Longrightarrow> fok good bad Q X (m s)) \<Longrightarrow> fvalid good bad P m Q X"
  by (simp add: fvalid_def)

lemma fvalidD: "fvalid good bad P m Q X \<Longrightarrow> good (df_client s) \<Longrightarrow> P s \<Longrightarrow> fok good bad Q X (m s)"
  by (simp add: fvalid_def)

lemma fok_mono: "fok good bad Q X out \<Longrightarrow> (\<And>a s. Q a s \<Longrightarrow> Q' a s) \<Longrightarrow> X \<subseteq> X' \<Longrightarrow> fok good bad Q' X' out"
  by (cases "(good, bad, Q, X, out)" rule: fok.cases) auto

lemma fvalid_conseq:
  assumes "fvalid good bad P m Q X" "\<And>s. P' s \<Longrightarrow> P s" "\<And>a s. Q a s \<Longrightarrow> Q' a s" "X \<subseteq> X'"
  shows "fvalid good bad P' m Q' X'"
  proof (rule fvalidI)
  fix s :: "'a lsfs_state" assume "good (df_client s)" "P' s"
  then have "fok good bad Q X (m s)" using assms(1,2) by (auto dest: fvalidD)
  then show "fok good bad Q' X' (m s)" by (rule fok_mono) (use assms(3,4) in auto)
qed

lemma fvalid_bind:
  assumes "fvalid good bad P m Q X" "\<And>a. fvalid good bad (Q a) (f a) R X"
  shows "fvalid good bad P (fbind m f) R X"
proof (rule fvalidI)
  fix s :: "'a lsfs_state" assume "good (df_client s)" "P s"
  from fvalidD[OF assms(1) this] show "fok good bad R X (fbind m f s)"
    by (cases "(good, bad, Q, X, m s)" rule: fok.cases) (auto simp: fbind_def intro: fvalidD[OF assms(2)])
qed

lemma fvalid_bind2:
  assumes "fvalid good bad P m Q X" "\<And>a b. fvalid good bad (Q (a, b)) (f a b) R X"
  shows "fvalid good bad P (fbind m (\<lambda>(a, b). f a b)) R X"
  by (rule fvalid_bind[OF assms(1)]) (auto simp: assms(2) split: prod.splits)

lemma fvalid_return [fs_vc]: "(\<And>s. P s \<Longrightarrow> Q a s) \<Longrightarrow> fvalid good bad P (freturn a) Q X"
  by (simp add: fvalid_def freturn_def)

lemma fvalid_set_errno [fs_vc]: "(\<And>s. P s \<Longrightarrow> Q a (s\<lparr>errno := e\<rparr>)) \<Longrightarrow> fvalid good bad P (set_errno e a) Q X"
  by (simp add: fvalid_def set_errno_def)

lemma fvalid_minus_errno [fs_vc]: "(\<And>s. P s \<Longrightarrow> Q (- errno s) s) \<Longrightarrow> fvalid good bad P minus_errno Q X"
  by (simp add: fvalid_def minus_errno_def)

lemma fvalid_on_cache [fs_vc]: "(\<And>s. P s \<Longrightarrow> Q () (s\<lparr>cache := f (cache s)\<rparr>)) \<Longrightarrow> fvalid good bad P (on_cache f) Q X"
  by (simp add: fvalid_def on_cache_def)

lemma fvalid_res: "(\<And>a s. r = Ret a \<Longrightarrow> P s \<Longrightarrow> Q a s) \<Longrightarrow> (\<And>e. r = Throw e \<Longrightarrow> (Own, e) \<in> X) \<Longrightarrow> fvalid good bad P (fres r) Q X"
  by (cases r) (auto simp: fvalid_def fres_def)

lemma fvalid_if [fs_vc]:
  "(b \<Longrightarrow> fvalid good bad P m Q X) \<Longrightarrow> (\<not> b \<Longrightarrow> fvalid good bad P m' Q X) \<Longrightarrow> fvalid good bad P (if b then m else m') Q X"
  by simp

lemma fvalid_option [fs_vc]:
  "(x = None \<Longrightarrow> fvalid good bad P m Q X) \<Longrightarrow> (\<And>a. x = Some a \<Longrightarrow> fvalid good bad P (f a) Q X) \<Longrightarrow>
     fvalid good bad P (case x of None \<Rightarrow> m | Some a \<Rightarrow> f a) Q X"
  by (cases x) auto

section \<open>A logic for calls with handlers\<close>

text \<open>The handlers turn an exception into an \<^verbatim>\<open>errno\<close>; \<open>rep a n\<close> says that the result \<open>a\<close> reports the error \<open>n\<close>.\<close>

fun frep :: "('c \<Rightarrow> bool) \<Rightarrow> (exn \<Rightarrow> 'c \<Rightarrow> bool) \<Rightarrow> ('a \<Rightarrow> int \<Rightarrow> bool) \<Rightarrow> ('a \<Rightarrow> 'c lsfs_state \<Rightarrow> bool) \<Rightarrow> (origin \<times> exn) set \<Rightarrow>
    'a res \<times> 'c lsfs_state \<Rightarrow> bool" where
  "frep good bad rep Q F (Ret a, s) \<longleftrightarrow> good (df_client s) \<and> Q a s \<or>
     (\<exists>e. bad e (df_client s) \<and> errno_of True e = Some (errno s) \<and> rep a (errno s))"
| "frep good bad rep Q F (Throw e, s) \<longleftrightarrow> bad e (df_client s) \<and> errno_of True e = None \<or> good (df_client s) \<and> (Own, e) \<in> F"
| "frep good bad rep Q F (Hang, s) \<longleftrightarrow> good (df_client s)"

definition freports ::
  "('c \<Rightarrow> bool) \<Rightarrow> (exn \<Rightarrow> 'c \<Rightarrow> bool) \<Rightarrow> ('c lsfs_state \<Rightarrow> bool) \<Rightarrow> ('c, 'a) fs \<Rightarrow> ('a \<Rightarrow> int \<Rightarrow> bool) \<Rightarrow> ('a \<Rightarrow> 'c lsfs_state \<Rightarrow> bool) \<Rightarrow>
     (origin \<times> exn) set \<Rightarrow> bool" where
  "freports good bad P m rep Q F \<longleftrightarrow> (\<forall>s. good (df_client s) \<longrightarrow> P s \<longrightarrow> frep good bad rep Q F (m s))"

lemma freportsI: "(\<And>s. good (df_client s) \<Longrightarrow> P s \<Longrightarrow> frep good bad rep Q F (m s)) \<Longrightarrow> freports good bad P m rep Q F"
  by (simp add: freports_def)

lemma freportsD: "freports good bad P m rep Q F \<Longrightarrow> good (df_client s) \<Longrightarrow> P s \<Longrightarrow> frep good bad rep Q F (m s)"
  by (simp add: freports_def)

lemma errno_pos: "errno_of w e = Some n \<Longrightarrow> 0 < n"
  by (cases e) (auto simp: EAGAIN_def EPERM_def EHOSTUNREACH_def split: if_splits)

lemma frep_weaken: "frep good bad rep Q F out \<Longrightarrow> (\<And>a s. Q a s \<Longrightarrow> Q' a s) \<Longrightarrow> frep good bad rep Q' F out"
  by (cases "(good, bad, rep, Q, F, out)" rule: frep.cases) auto

lemma freports_conseq:
  "freports good bad P m rep Q F \<Longrightarrow> (\<And>s. P' s \<Longrightarrow> P s) \<Longrightarrow> (\<And>a s. Q a s \<Longrightarrow> Q' a s) \<Longrightarrow> freports good bad P' m rep Q' F"
  by (rule freportsI, rule frep_weaken[of good bad rep Q]) (simp_all add: freportsD)

lemma freports_pure:
  assumes "fvalid good bad P m Q F" "\<And>e. (Client, e) \<notin> F"
  shows "freports good bad P m rep Q F"
proof (rule freportsI)
  fix s :: "'a lsfs_state" assume "good (df_client s)" "P s"
  from fvalidD[OF assms(1) this] show "frep good bad rep Q F (m s)"
    by (cases "(good, bad, Q, F, m s)" rule: fok.cases) (auto simp: assms(2))
qed

lemma freports_if:
  "(b \<Longrightarrow> freports good bad P m rep Q F) \<Longrightarrow> (\<not> b \<Longrightarrow> freports good bad P m' rep Q F) \<Longrightarrow> freports good bad P (if b then m else m') rep Q F"
  by simp

text \<open>The handlers of the file system catch the exceptions of their body; what they do not name passes.\<close>

lemma freports_try:
  assumes "fvalid good bad P m Q X" "\<And>s. \<exists>a. h s = (Ret a, s) \<and> rep a (errno s)"
    and "w \<or> (Client, ConcurrentWritesSameKeyException) \<notin> X" "\<And>e. (Own, e) \<in> X \<Longrightarrow> errno_of True e = None \<and> (Own, e) \<in> F"
  shows "freports good bad P (try_catch w m h) rep Q F"
proof (rule freportsI)
  fix s :: "'a lsfs_state" assume "good (df_client s)" "P s"
  note out = fvalidD[OF assms(1) this]
  show "frep good bad rep Q F (try_catch w m h s)"
  proof (cases "m s")
    case (Pair r s')
    show ?thesis
    proof (cases r)
      case (Throw e)
      have e: "errno_of w e = errno_of True e" if "(Client, e) \<in> X" using that assms(3) by (cases e) auto
      have o: "errno_of w e = None" if "(Own, e) \<in> X" using assms(4)[OF that] by (cases e; cases w) auto
      have h: "\<exists>a. h (s'\<lparr>errno := n\<rparr>) = (Ret a, s'\<lparr>errno := n\<rparr>) \<and> rep a n" for n using assms(2)[of "s'\<lparr>errno := n\<rparr>"] by simp
      have "frep good bad rep Q F (h (s'\<lparr>errno := n\<rparr>))" if b: "bad e (df_client s')" "errno_of True e = Some n" for n
      proof -
        obtain a where "h (s'\<lparr>errno := n\<rparr>) = (Ret a, s'\<lparr>errno := n\<rparr>)" "rep a n" using h[of n] by blast
        then show ?thesis using b by auto
      qed
      then show ?thesis using out Pair Throw e o assms(4) by (auto simp: try_catch_def split: option.splits)
    qed (use out Pair in \<open>auto simp: try_catch_def\<close>)
  qed
qed

text \<open>Going on after a call with handlers: an error it reported must be passed on at once.\<close>

lemma freports_bind:
  assumes "freports good bad P m rep Q F" "\<And>a. freports good bad (Q a) (f a) rep' R F"
    and "\<And>a s. rep a (errno s) \<Longrightarrow> 0 < errno s \<Longrightarrow> \<exists>b. f a s = (Ret b, s) \<and> rep' b (errno s)"
  shows "freports good bad P (fbind m f) rep' R F"
proof (rule freportsI)
  fix s :: "'a lsfs_state" assume "good (df_client s)" "P s"
  note out = freportsD[OF assms(1) this]
  show "frep good bad rep' R F (fbind m f s)"
  proof (cases "m s")
    case (Pair r s')
    show ?thesis
    proof (cases r)
      case (Ret a)
      consider "good (df_client s')" "Q a s'" | e where "bad e (df_client s')" "errno_of True e = Some (errno s')" "rep a (errno s')"
        using out Pair Ret by auto
      then show ?thesis
      proof cases
        case 1
        then show ?thesis using freportsD[OF assms(2)] Pair Ret by (simp add: fbind_def)
      next
        case 2
        then show ?thesis using assms(3)[of a s'] errno_pos[OF 2(2)] Pair Ret by (auto simp: fbind_def)
      qed
    qed (use out Pair in \<open>auto simp: fbind_def\<close>)
  qed
qed

lemma freports_bind2:
  assumes "freports good bad P m rep Q F" "\<And>a b. freports good bad (Q (a, b)) (f a b) rep' R F"
    and "\<And>a b s. rep (a, b) (errno s) \<Longrightarrow> 0 < errno s \<Longrightarrow> \<exists>c. f a b s = (Ret c, s) \<and> rep' c (errno s)"
  shows "freports good bad P (fbind m (\<lambda>(a, b). f a b)) rep' R F"
  by (rule freports_bind[OF assms(1)]) (auto simp: assms(2,3) split: prod.splits)

text \<open>The same inside a handler.\<close>

lemma freports_try_bind:
  assumes "freports good bad P m rep Q F" "\<And>e. (Own, e) \<in> F \<Longrightarrow> errno_of True e = None"
    and "\<And>a. freports good bad (Q a) (try_catch w (f a) h) rep' R F"
    and "\<And>a s. rep a (errno s) \<Longrightarrow> 0 < errno s \<Longrightarrow> \<exists>b. try_catch w (f a) h s = (Ret b, s) \<and> rep' b (errno s)"
  shows "freports good bad P (try_catch w (fbind m f) h) rep' R F"
proof (rule freportsI)
  fix s :: "'a lsfs_state" assume s: "good (df_client s)" "P s"
  note out = freportsD[OF assms(1) s]
  have n: "errno_of w e = None" if "errno_of True e = None" for e using that by (cases e; cases w) auto
  have "try_catch w (fbind m f) h s = fbind m (\<lambda>a. try_catch w (f a) h) s"
    using out assms(2) n by (cases "(good, bad, rep, Q, F, m s)" rule: frep.cases) (auto simp: try_catch_def fbind_def split: option.splits)
  then show "frep good bad rep' R F (try_catch w (fbind m f) h s)"
    using freportsD[OF freports_bind[OF assms(1,3,4)] s] by simp
qed

abbreviation neg_errno :: "int \<Rightarrow> int \<Rightarrow> bool" where
  "neg_errno r n \<equiv> r = - n"

abbreviation neg_errno_fst :: "int \<times> 'e \<Rightarrow> int \<Rightarrow> bool" where
  "neg_errno_fst a n \<equiv> fst a = - n"

section \<open>What the file system relies on\<close>

text \<open>A write may throw anything (the load balancer throws a text when its view is empty); a read does not throw the exception for
  concurrent writes.\<close>

definition reading :: "exn set" where "reading = - {ConcurrentWritesSameKeyException}"

definition read_exns :: "(origin \<times> exn) set" where "read_exns = {Client} \<times> reading"
definition write_exns :: "(origin \<times> exn) set" where "write_exns = {Client} \<times> UNIV"

text \<open>The exceptions of parsing and deserialising what is stored, which no system call handles.\<close>

definition format_exns :: "(origin \<times> exn) set" where "format_exns = {Own} \<times> {Archive_exception, Invalid_argument, Out_of_range}"

definition throws_only :: "exn set \<Rightarrow> 'a res \<Rightarrow> bool" where
  "throws_only X r \<longleftrightarrow> (\<forall>e. r = Throw e \<longrightarrow> e \<in> X)"

lemma throws_only_simps [simp]: "throws_only X (Ret a)" "throws_only X (Throw e) \<longleftrightarrow> e \<in> X" "throws_only X Hang"
  by (simp_all add: throws_only_def)

lemma read_write_exns: "write_exns \<subseteq> X \<Longrightarrow> read_exns \<subseteq> X"
  by (auto simp: read_exns_def write_exns_def)

lemma own_exns [simp]: "(Own, e) \<notin> write_exns" "(Own, e) \<notin> read_exns" "(Client, e) \<notin> format_exns" "(Client, e) \<in> write_exns"
  "(Client, ConcurrentWritesSameKeyException) \<notin> read_exns" "(Own, e) \<in> format_exns \<Longrightarrow> errno_of True e = None"
  by (auto simp: write_exns_def read_exns_def format_exns_def reading_def)

text \<open>How a function of the client leaves its state.\<close>

definition left :: "('c \<Rightarrow> bool) \<Rightarrow> (exn \<Rightarrow> 'c \<Rightarrow> bool) \<Rightarrow> (origin \<times> exn) set \<Rightarrow> 'a res \<Rightarrow> 'c \<Rightarrow> bool" where
  "left good bad X r c \<longleftrightarrow> (case r of Throw e \<Rightarrow> bad e c \<and> (Client, e) \<in> X | _ \<Rightarrow> good c)"

lemma left_mono: "left good bad X r c \<Longrightarrow> X \<subseteq> Y \<Longrightarrow> left good bad Y r c"
  by (cases r) (auto simp: left_def)

text \<open>The result of a call: 0 or the negated \<^verbatim>\<open>errno\<close>.\<close>

definition reported :: "int \<Rightarrow> 'c lsfs_state \<Rightarrow> bool" where
  "reported r s \<longleftrightarrow> r = 0 \<or> r = - errno s"

lemma reported_zero [simp]: "reported 0 s" "reported (- errno s) s"
  by (simp_all add: reported_def)

text \<open>The result of \<^verbatim>\<open>_getattr\<close> and of the other calls that fill a buffer.\<close>

abbreviation reported_fst :: "int \<times> 'e \<Rightarrow> 'c lsfs_state \<Rightarrow> bool" where
  "reported_fst a s \<equiv> reported (fst a) s"

text \<open>What \<^verbatim>\<open>_write\<close> returns: the size of the buffer or an error.\<close>

definition wrote :: "nat \<Rightarrow> int \<Rightarrow> 'c lsfs_state \<Rightarrow> bool" where
  "wrote n r s \<longleftrightarrow> r = to_int32 (int n) \<or> r = - errno s"

text \<open>The number of bytes read is the result, or there was an error.\<close>

definition read_bytes :: "int \<times> bytes \<Rightarrow> 'c lsfs_state \<Rightarrow> bool" where
  "read_bytes a s \<longleftrightarrow> fst a = to_int32 (int (length (snd a))) \<or> fst a = - errno s"

lemma wrote_errno [simp]: "wrote n (- e) (s\<lparr>errno := e\<rparr>)" "wrote n (- errno s) s"
  by (simp_all add: wrote_def)

lemma fvalid_zero_or_errno [fs_vc]: "fvalid good bad P (zero_or_errno r) reported X"
  by (simp add: fvalid_def zero_or_errno_def reported_def freturn_def minus_errno_def)

lemma fvalid_report [fs_vc]: "fvalid good bad P minus_errno reported X" "fvalid good bad P (freturn 0) reported X"
  by (simp_all add: fvalid_def reported_def freturn_def minus_errno_def)

lemma fvalid_host_call [fs_vc]: "fvalid good bad P (host_call x) (\<lambda>_ _. True) X"
  by (auto simp: fvalid_def host_call_def set_errno_def freturn_def split: sum.splits)

locale fs_client =
  fixes ops :: "'c client_ops" and good :: "'c \<Rightarrow> bool" and bad :: "exn \<Rightarrow> 'c \<Rightarrow> bool"
  assumes put_exns: "good c \<Longrightarrow> co_put ops p v t d c = (r, c') \<Longrightarrow> left good bad write_exns r c'"
    and put_batch_exns: "good c \<Longrightarrow> co_put_batch ops ks c = (r, c') \<Longrightarrow> left good bad write_exns r c'"
    and put_child_exns: "good c \<Longrightarrow> co_put_child ops p v q b b' c = (r, c') \<Longrightarrow> left good bad write_exns r c'"
    and del_exns: "good c \<Longrightarrow> co_del ops p v t c = (r, c') \<Longrightarrow> left good bad write_exns r c'"
    and latest_batch_exns: "good c \<Longrightarrow> co_get_latest_batch ops ps c = ((r, ds), c') \<Longrightarrow> left good bad read_exns r c'"
    and latest_version_exns: "good c \<Longrightarrow> co_get_latest_version ops p c = (rv, c') \<Longrightarrow> left good bad read_exns rv c'"
    and metadata_size_exns:
      "good c \<Longrightarrow> co_get_latest_metadata_size ops p g v c = ((rd, out), c') \<Longrightarrow> left good bad read_exns rd c'"
    and metadata_stat_exns:
      "good c \<Longrightarrow> co_get_latest_metadata_stat ops p g v c = ((rd, out), c') \<Longrightarrow> left good bad read_exns rd c'"
    and metadata_batch_exns:
      "good c \<Longrightarrow> co_get_metadata_batch ops mks mx g c = ((r, out'), c') \<Longrightarrow> left good bad read_exns r c'"
begin

lemma call_write:
  assumes "\<And>c r c'. good c \<Longrightarrow> f c = (r, c') \<Longrightarrow> left good bad Y r c'" "Y \<subseteq> X"
  shows "fvalid good bad P (call_client f) (\<lambda>_ _. True) X"
proof (rule fvalidI)
  fix s :: "'c lsfs_state" assume "good (df_client s)"
  moreover obtain r c' where "f (df_client s) = (r, c')" by fastforce
  ultimately show "fok good bad (\<lambda>_ _. True) X (call_client f s)"
    using assms(1)[of "df_client s" r c'] assms(2) by (cases r) (auto simp: call_client_def fbind_def on_client_def fres_def left_def)
qed

text \<open>Reading and then going on with the result.\<close>

lemma call_read_bind:
  assumes "\<And>c r out c'. good c \<Longrightarrow> f c = ((r, out), c') \<Longrightarrow> left good bad Y r c'" "Y \<subseteq> X"
    and "\<And>a out. fvalid good bad (\<lambda>_. True) (h out a) R X"
  shows "fvalid good bad P (fbind (on_client f) (\<lambda>(r, out). fbind (fres r) (h out))) R X"
proof (rule fvalidI)
  fix s :: "'c lsfs_state" assume g: "good (df_client s)"
  obtain r out c' where f: "f (df_client s) = ((r, out), c')" by (metis prod.exhaust)
  from assms(1)[OF g f] show "fok good bad R X (fbind (on_client f) (\<lambda>(r, out). fbind (fres r) (h out)) s)"
    using assms(2) f by (cases r) (auto simp: fbind_def on_client_def fres_def left_def intro!: fvalidD[OF assms(3)])
qed

lemma call_read_bind3:
  assumes "\<And>c r out c'. good c \<Longrightarrow> f c = ((r, out), c') \<Longrightarrow> left good bad Y r c'" "Y \<subseteq> X"
    and "\<And>a g v. fvalid good bad (\<lambda>_. True) (h g v a) R X"
  shows "fvalid good bad P (fbind (on_client f) (\<lambda>(r, g, v). fbind (fres r) (h g v))) R X"
  using call_read_bind[where f = f and Y = Y and X = X and P = P and R = R and h = "\<lambda>out. h (fst out) (snd out)", OF assms(1,2)] assms(3)
  by (simp add: case_prod_unfold)

text \<open>The state functions.\<close>

lemma put_block_ok: "write_exns \<subseteq> X \<Longrightarrow> fvalid good bad P (put_block ops p d v t) (\<lambda>r _. r = 0) X"
  unfolding put_block_def by (rule fvalid_bind[OF call_write[OF put_exns]]) (auto intro: fs_vc)

lemma latest_version_ok: "read_exns \<subseteq> X \<Longrightarrow> fvalid good bad P (call_client (co_get_latest_version ops p)) (\<lambda>_ _. True) X"
  by (rule call_write[OF latest_version_exns])

lemma put_latest_ok: "write_exns \<subseteq> X \<Longrightarrow> fvalid good bad P (put_latest ops p d t) (\<lambda>r _. r = 0) X"
  unfolding put_latest_def by (rule fvalid_bind[OF latest_version_ok]) (auto intro: put_block_ok dest: read_write_exns)

lemma put_child_ok: "write_exns \<subseteq> X \<Longrightarrow> fvalid good bad P (put_dir_metadata_child ops p q b b') (\<lambda>_ _. True) X"
  unfolding put_dir_metadata_child_def
  by (rule fvalid_bind[OF latest_version_ok])
    (auto intro!: fs_vc fvalid_bind[OF call_write[OF put_child_exns]] dest: read_write_exns)

lemma delete_ok: "write_exns \<subseteq> X \<Longrightarrow> fvalid good bad P (delete_path ops p t) (\<lambda>_ _. True) X"
  unfolding delete_path_def
  by (rule fvalid_bind[OF latest_version_ok])
    (auto intro!: fs_vc fvalid_bind[OF call_write[OF del_exns]] dest: read_write_exns)

lemma change_parent_dir_ok:
  assumes "write_exns \<subseteq> X"
  shows "fvalid good bad P (change_parent_dir E ops f b p b') reported X"
proof (rule fvalidI)
  fix s :: "'c lsfs_state" assume g: "good (df_client s)"
  have "fvalid good bad (\<lambda>_. True) (fbind (on_cache h) (\<lambda>_. fbind (put_dir_metadata_child ops parent child b b')
      (\<lambda>res. if res \<noteq> 0 then minus_errno else freturn 0))) reported X" for h parent child
    by (rule fvalid_bind[where Q = "\<lambda>_ _. True"], rule fs_vc, simp)
      (rule fvalid_bind[OF put_child_ok[OF assms]], auto intro: fs_vc)
  from fvalidD[OF this g TrueI] g show "fok good bad reported X (change_parent_dir E ops f b p b' s)"
    by (auto simp: change_parent_dir_def reported_def split: option.splits)
qed

lemma flush_ok:
  assumes "write_exns \<subseteq> X"
  shows "fvalid good bad P (flush_open_file E ops p) reported X"
proof (rule fvalidI)
  fix s :: "'c lsfs_state" assume g: "good (df_client s)"
  have acc: "fvalid good bad Q (set_accessed p) reported X" for Q by (simp add: fvalid_def set_accessed_def reported_def)
  have out: "fvalid good bad (reported res) (if res \<noteq> 0 then freturn res else set_accessed p) reported X" for res
    by (rule fs_vc, rule fs_vc) (auto intro: acc)
  have send: "fvalid good bad (\<lambda>_. True) (fbind (put_file_metadata_version E ops a p v) h) reported X"
    if "fvalid good bad (\<lambda>_. True) (h 0) reported X" for a v h
    unfolding put_file_metadata_version_def
    by (rule fvalid_bind[OF put_block_ok[OF assms]]) (use that in \<open>auto simp: fvalid_def\<close>)
  have created: "fvalid good bad (\<lambda>_. True) (fbind (add_child_to_parent_dir E ops p False) (\<lambda>res. if res \<noteq> 0 then freturn res else set_accessed p))
      reported X"
    unfolding add_child_to_parent_dir_def by (rule fvalid_bind[OF change_parent_dir_ok[OF assms] out])
  have none: "fvalid good bad (\<lambda>_. True) (fbind (set_errno ENOENT ()) (\<lambda>_. minus_errno)) reported X"
    by (rule fvalid_bind[where Q = "\<lambda>_ _. True"]) (auto intro: fs_vc)
  have "fok good bad reported X (fbind (put_file_metadata_version E ops a p v) (\<lambda>res. if res \<noteq> 0 then freturn res
      else fbind (add_child_to_parent_dir E ops p False) (\<lambda>res. if res \<noteq> 0 then freturn res else set_accessed p)) s)" for a v
    by (rule fvalidD[OF send g TrueI]) (use created in simp)
  moreover have "fok good bad reported X (fbind (put_file_metadata_version E ops a p v)
      (\<lambda>res. if res \<noteq> 0 then freturn res else set_accessed p) s)" for a v
    by (rule fvalidD[OF send g TrueI]) (use acc in simp)
  ultimately show "fok good bad reported X (flush_open_file E ops p s)"
    using fvalidD[OF acc g TrueI] fvalidD[OF none g TrueI]
    by (auto simp: flush_open_file_def Let_def split: option.splits FileAccess.splits)
qed

lemma release_ok:
  assumes "write_exns \<subseteq> X"
  shows "fvalid good bad P (flush_and_release_open_file E ops p) reported X"
  unfolding flush_and_release_open_file_def
proof (rule fvalid_bind[OF flush_ok[OF assms]])
  fix res
  show "fvalid good bad (reported res) (if res \<noteq> 0 then freturn res else (\<lambda>s. (Ret 0, s\<lparr>open_files := (open_files s)(p := None)\<rparr>))) reported X"
    by (rule fs_vc, rule fs_vc) (auto simp: fvalid_def reported_def)
qed

lemma fvalid_archive: "format_exns \<subseteq> X \<Longrightarrow> fvalid good bad P (fres (of_option Archive_exception d)) (\<lambda>_ _. True) X"
  by (rule fvalid_res) (cases d; auto simp: format_exns_def)+

lemma request_metadata_ok:
  assumes "read_exns \<union> format_exns \<subseteq> X"
  shows "fvalid good bad P (request_metadata E ops p n v g b) (\<lambda>_ _. True) X"
proof (rule fvalidI)
  fix s :: "'c lsfs_state" assume g: "good (df_client s)"
  have "fvalid good bad (\<lambda>_. True) (fbind (on_client (co_get_metadata_batch ops ks mx g)) (\<lambda>(r, response', data_strs).
      fbind (fres r) (\<lambda>_. if response' \<noteq> Ok then freturn (None, response')
        else fbind (fres (of_option Archive_exception (dec_metadata E (concat (map blk_bytes data_strs)))))
               (\<lambda>met. freturn (Some met, response'))))) (\<lambda>_ _. True) X" for ks mx
    by (intro call_read_bind3[OF metadata_batch_exns] fs_vc fvalid_bind[OF fvalid_archive]) (use assms in auto)
  from fvalidD[OF this g TrueI] show "fok good bad (\<lambda>_ _. True) X (request_metadata E ops p n v g b s)"
    unfolding request_metadata_def .
qed

lemma stol_throws: "stol d = Throw e \<Longrightarrow> (Own, e) \<in> format_exns"
  by (auto simp: stol_def format_exns_def split: option.splits if_splits)

lemma fvalid_stol: "format_exns \<subseteq> X \<Longrightarrow> fvalid good bad P (fres (stol d)) (\<lambda>_ _. True) X"
  by (rule fvalid_res) (use stol_throws in auto)

text \<open>The loops that read a directory.\<close>

lemma metadata_loop_ok:
  assumes "read_exns \<union> format_exns \<subseteq> X"
  shows "fvalid good bad P (get_dir_metadata_loop E ops p n g) (\<lambda>_ _. True) X"
proof (induction n arbitrary: P g)
  case (Suc n)
  show ?case
    unfolding get_dir_metadata_loop.simps
    by (intro call_read_bind3[OF metadata_size_exns] fs_vc fvalid_bind[OF fvalid_stol] fvalid_bind2[OF request_metadata_ok])
      (use assms Suc in auto)
qed (auto intro: fs_vc)

lemma get_dir_metadata_ok: "read_exns \<union> format_exns \<subseteq> X \<Longrightarrow> fvalid good bad P (get_dir_metadata E ops p) (\<lambda>_ _. True) X"
  by (rule fvalidI) (simp add: get_dir_metadata_def fvalidD[OF metadata_loop_ok[where P = "\<lambda>_. True"]])

lemma get_stored_stat_ok:
  assumes "read_exns \<union> format_exns \<subseteq> X"
  shows "fvalid good bad P (get_stored_stat E ops p) (\<lambda>_ _. True) X"
  unfolding get_stored_stat_def
  by (intro call_read_bind3[OF metadata_stat_exns] fs_vc fvalid_bind[OF fvalid_archive]) (use assms in auto)

text \<open>The loops over the blocks of a file.\<close>

lemma put_limited_ok:
  assumes "write_exns \<subseteq> X"
  shows "fvalid good bad P (put_limited ops m buf p b v) (\<lambda>_ _. True) X"
proof (induction "length buf" arbitrary: buf b P rule: less_induct)
  case less
  have "fvalid good bad P (fbind (put_fixed_size_blocks_from_buffer ops (take (min m (length buf)) buf) p b v) (\<lambda>res.
      if res = 0 then put_limited ops m (drop (min m (length buf)) buf) p (b + of_nat (min m (length buf) div BLK_SIZE)) v
      else freturn (-1))) (\<lambda>_ _. True) X" if "buf \<noteq> []" "m \<noteq> 0"
  proof (rule fvalid_bind[where Q = "\<lambda>_ _. True"])
    show "fvalid good bad P (put_fixed_size_blocks_from_buffer ops (take (min m (length buf)) buf) p b v) (\<lambda>_ _. True) X"
      unfolding put_fixed_size_blocks_from_buffer_def
      by (rule fvalid_bind[OF call_write[OF put_batch_exns assms]]) (auto intro: fs_vc)
  qed (use that in \<open>auto intro!: fs_vc less\<close>)
  then show ?case
    by (subst put_limited.simps) (auto simp: Let_def intro!: fs_vc fvalid_res)
qed

lemma put_blocks_ok:
  "write_exns \<subseteq> X \<Longrightarrow> fvalid good bad P (put_fixed_size_blocks_from_buffer_limited_paralelization ops buf p b v) (\<lambda>_ _. True) X"
  by (rule fvalidI)
    (simp add: put_fixed_size_blocks_from_buffer_limited_paralelization_def fvalidD[OF put_limited_ok[where P = "\<lambda>_. True"]])

lemma read_blocks_ok:
  "read_exns \<subseteq> X \<Longrightarrow> fvalid good bad P (read_fixed_size_blocks_to_buffer ops n p b) (\<lambda>_ _. True) X"
  unfolding read_fixed_size_blocks_to_buffer_def Let_def
  by (intro call_read_bind[OF latest_batch_exns] fs_vc) auto

lemma read_limited_ok:
  assumes "read_limited ops' m n p b buf s = Some out" "read_exns \<subseteq> X"
  shows "ops' = ops \<longrightarrow> good (df_client s) \<longrightarrow> fok good bad (\<lambda>_ _. True) X out"
proof (rule read_limited.raw_induct[where P = "\<lambda>ops' m n p b buf s out.
    ops' = ops \<longrightarrow> good (df_client s) \<longrightarrow> fok good bad (\<lambda>_ _. True) X out", OF _ assms(1)], intro impI)
  fix rl ops' m n p b buf s y
  assume 1: "\<And>ops' m n p b buf s y. rl ops' m n p b buf s = Some y \<Longrightarrow> ops' = ops \<longrightarrow> good (df_client s) \<longrightarrow> fok good bad (\<lambda>_ _. True) X y"
    "(if length buf < n
      then let out = read_fixed_size_blocks_to_buffer ops' (min m (n - length buf)) p b s
           in case fst out of
                Ret d \<Rightarrow> rl ops' m n p (b + of_nat (length d div BLK_SIZE)) (buf @ d) (snd out)
              | Throw e \<Rightarrow> Some (Throw e, snd out) | Hang \<Rightarrow> Some (Hang, snd out)
      else Some (Ret buf, s)) = Some y"
    and o: "ops' = ops" and g: "good (df_client s)"
  let ?r = "read_fixed_size_blocks_to_buffer ops (min m (n - length buf)) p b s"
  from fvalidD[OF read_blocks_ok[OF assms(2), of "\<lambda>_. True"] g TrueI]
  have "fok good bad (\<lambda>_ _. True) X (fst ?r, snd ?r)" by simp
  with 1 o g show "fok good bad (\<lambda>_ _. True) X y" by (cases "fst ?r") (auto simp: Let_def split: if_splits)
qed

lemma read_file_ok:
  assumes "read_exns \<subseteq> X"
  shows "fvalid good bad P (read_fixed_size_blocks_to_buffer_limited_paralelization ops n p b) (\<lambda>_ _. True) X"
proof (rule fvalidI)
  fix s :: "'c lsfs_state" assume "good (df_client s)"
  then show "fok good bad (\<lambda>_ _. True) X (read_fixed_size_blocks_to_buffer_limited_paralelization ops n p b s)"
    by (auto simp: read_fixed_size_blocks_to_buffer_limited_paralelization_def dest: read_limited_ok[OF _ assms] split: option.splits)
qed

text \<open>The system calls.\<close>

lemma minus_errno_reports: "\<exists>a. minus_errno s = (Ret a, s) \<and> a = - errno s"
  by (simp add: minus_errno_def)

lemma fail_reports: "\<exists>a. fbind minus_errno (\<lambda>r. freturn (r, b)) s = (Ret a, s) \<and> fst a = - errno s"
  by (simp add: fbind_def minus_errno_def freturn_def)

lemmas try_write = freports_try[where X = write_exns and rep = neg_errno and w = True, OF _ minus_errno_reports]
lemmas try_all = freports_try[where X = "write_exns \<union> format_exns" and rep = neg_errno and w = True, OF _ minus_errno_reports]
lemmas try_read = freports_try[where X = "read_exns \<union> format_exns" and rep = neg_errno_fst, OF _ fail_reports]

lemma host_only_ok: "fvalid good bad P (fbind (host_call x) zero_or_errno) reported X"
  by (rule fvalid_bind[OF fvalid_host_call fvalid_zero_or_errno])

lemma host_only_reports: "freports good bad P (fbind (host_call x) zero_or_errno) neg_errno reported {}"
  by (rule freports_pure[OF host_only_ok]) simp

lemma fs_flush_reports: "freports good bad P (fs_flush E ops p) neg_errno reported {}"
  unfolding fs_flush_def
  by (intro freports_if try_write[OF flush_ok] freports_pure[OF fvalid_report(2)]) auto

lemma fs_release_reports: "freports good bad P (fs_release E ops x p) neg_errno reported {}"
  unfolding fs_release_def by (intro freports_if try_write[OF release_ok] host_only_reports) auto

lemma fs_fsync_reports: "freports good bad P (fs_fsync E ops x p) neg_errno reported {}"
  unfolding fs_fsync_def by (intro freports_if try_write[OF flush_ok] host_only_reports) auto

lemma remove_child_ok: "write_exns \<subseteq> X \<Longrightarrow> fvalid good bad P (fbind (remove_child_from_parent_dir E ops p b) zero_or_errno) reported X"
  unfolding remove_child_from_parent_dir_def
  by (rule fvalid_bind[OF change_parent_dir_ok]) (auto intro: fs_vc)

lemma fs_unlink_reports: "freports good bad P (fs_unlink E ops p) neg_errno reported {}"
  unfolding fs_unlink_def delete_file_def
  by (rule try_write[OF fvalid_bind[OF delete_ok[OF subset_refl]]]) (auto intro!: fs_vc remove_child_ok)

lemma fs_mkdir_reports: "freports good bad P (fs_mkdir E ops x p mode) neg_errno reported {}"
proof -
  let ?body = "\<lambda>met. fbind (put_dir_metadata E ops met p) (\<lambda>_. fbind (add_child_to_parent_dir E ops p True) (\<lambda>res s.
      fbind (on_cache (if use_cache s then add_to_dir_cache (monotonic x) p met else (\<lambda>c. c))) (\<lambda>_. freturn res) s))"
  have c: "fvalid good bad Q (\<lambda>s. fbind (on_cache (if use_cache s then add_to_dir_cache (monotonic x) p met else (\<lambda>c. c))) (\<lambda>_. freturn res) s)
      (\<lambda>_ _. True) write_exns" for Q res met
    by (simp add: fvalid_def fbind_def on_cache_def freturn_def)
  have "fvalid good bad P (?body met) (\<lambda>_ _. True) write_exns" for met
    unfolding put_dir_metadata_def add_child_to_parent_dir_def
    by (rule fvalid_bind[OF put_latest_ok[OF subset_refl]], rule fvalid_bind[OF change_parent_dir_ok[OF subset_refl] c])
  then have "freports good bad P (try_catch True (?body met) (freturn (-1))) (\<lambda>a _. a = - 1) (\<lambda>_ _. True) {}" for met
    by (rule freports_try) (auto simp: freturn_def)
  then have "freports good bad P (fbind (try_catch True (?body met) (freturn (-1))) zero_or_errno) neg_errno reported {}" for met
    by (rule freports_bind)
      (simp_all add: freports_pure[OF fvalid_zero_or_errno], simp add: zero_or_errno_def minus_errno_def)
  moreover have "freports good bad P (fbind (set_errno e ()) (\<lambda>_. minus_errno)) neg_errno reported {}" for e
    by (rule freports_pure[OF fvalid_bind[OF fvalid_set_errno[where Q = "\<lambda>_ _. True"]]]) (auto intro: fs_vc)
  ultimately show ?thesis
    unfolding fs_mkdir_def impersonated_def Let_def by (auto split: option.splits)
qed

lemma fvalid_fail: "fvalid good bad P (fbind minus_errno (\<lambda>r. freturn (r, b))) reported_fst X"
  by (simp add: fvalid_def fbind_def minus_errno_def freturn_def reported_def)

lemma fs_getattr_reports: "freports good bad P (fs_getattr E ops x p st) neg_errno_fst reported_fst format_exns"
proof (rule freportsI)
  fix s :: "'c lsfs_state" assume g: "good (df_client s)"
  have host: "fvalid good bad (\<lambda>_. True) (fbind (host_call x) (\<lambda>res. fbind (zero_or_errno res) (\<lambda>r. freturn (r, f res)))) reported_fst format_exns"
    for f :: "int \<Rightarrow> stat"
    by (intro fvalid_bind[OF fvalid_host_call] fvalid_bind[OF fvalid_zero_or_errno] fs_vc) simp
  have "fvalid good bad (\<lambda>_. True) (fbind (get_stored_stat E ops p) (\<lambda>met_attr.
      case met_attr of None \<Rightarrow> fbind minus_errno (\<lambda>r. freturn (r, st)) | Some (st, _) \<Rightarrow> freturn (0, st))) reported_fst (read_exns \<union> format_exns)"
    by (rule fvalid_bind[OF get_stored_stat_ok[OF subset_refl]])
      (auto intro!: fvalid_option fvalid_fail fvalid_return[where Q = reported_fst] simp: reported_zero)
  then have net: "freports good bad (\<lambda>_. True) (try_catch False (fbind (get_stored_stat E ops p) (\<lambda>met_attr.
      case met_attr of None \<Rightarrow> fbind minus_errno (\<lambda>r. freturn (r, st)) | Some (st, _) \<Rightarrow> freturn (0, st)))
      (fbind minus_errno (\<lambda>r. freturn (r, st)))) neg_errno_fst reported_fst format_exns"
    by (rule try_read) auto
  show "frep good bad neg_errno_fst reported_fst format_exns (fs_getattr E ops x p st s)"
    using freportsD[OF freports_pure[OF host] g TrueI] freportsD[OF net _ TrueI] g
    by (auto simp: fs_getattr_def split: option.splits prod.splits)
qed

lemma change_stored_reports: "freports good bad P (change_stored E ops x p f) neg_errno reported format_exns"
  unfolding change_stored_def put_file_metadata_def
proof (rule freports_bind2[OF fs_getattr_reports])
  fix res stbuf
  show "freports good bad (reported_fst (res, stbuf)) (if res \<noteq> 0 then minus_errno
      else try_catch True (fbind (put_latest ops p (enc_metadata E (metadata_of_attr (f stbuf))) FILE)
        (\<lambda>res. if res = - 1 then minus_errno else freturn 0)) minus_errno) neg_errno reported format_exns"
    by (intro freports_if freports_pure[OF fvalid_report(1)] try_write[OF fvalid_bind[OF put_latest_ok[OF subset_refl]]]) (auto intro: fs_vc)
qed (auto simp: minus_errno_def)

lemma update_open_client [simp]: "df_client (snd (update_open_file_metadata p st s)) = df_client s"
  by (auto simp: update_open_file_metadata_def split: option.splits prod.splits)

lemma fs_utimens_reports: "freports good bad P (fs_utimens E ops x p t t') neg_errno reported format_exns"
proof (rule freportsI)
  fix s :: "'c lsfs_state" assume g: "good (df_client s)"
  have "freports good bad (\<lambda>_. True) (fbind (host_call x) zero_or_errno) neg_errno reported format_exns"
    by (rule freports_pure[OF host_only_ok]) simp
  note h = freportsD[OF this g TrueI]
  have c: "df_client (snd (update_file_time_if_opened p t t' s)) = df_client s"
    by (simp add: update_file_time_if_opened_def split: option.splits)
  then show "frep good bad neg_errno reported format_exns (fs_utimens E ops x p t t' s)"
    using h g by (auto simp: fs_utimens_def intro!: freportsD[OF change_stored_reports _ TrueI] split: prod.splits bool.splits)
qed

lemma fs_truncate_reports: "freports good bad P (fs_truncate E ops x p n) neg_errno reported format_exns"
proof (rule freportsI)
  fix s :: "'c lsfs_state" assume g: "good (df_client s)"
  have "freports good bad (\<lambda>_. True) (fbind (host_call x) zero_or_errno) neg_errno reported format_exns"
    by (rule freports_pure[OF host_only_ok]) simp
  note h = freportsD[OF this g TrueI]
  have c: "df_client (snd (update_file_size_if_opened p n t s)) = df_client s" for t
    by (simp add: update_file_size_if_opened_def split: option.splits)
  from c[of "realtime x"] show "frep good bad neg_errno reported format_exns (fs_truncate E ops x p n s)"
    using h g by (auto simp: fs_truncate_def intro!: freportsD[OF change_stored_reports _ TrueI] split: prod.splits bool.splits)
qed

lemma create_or_open_ok: "fvalid good bad P (create_or_open x fi) reported_fst X"
  unfolding create_or_open_def Let_def
  by (intro fvalid_bind[OF fvalid_host_call] fs_vc fvalid_fail) (simp_all add: reported_def)

text \<open>Opening without \<^verbatim>\<open>O_TRUNC\<close>; the result of the truncation is ignored.\<close>

lemma fs_open_reports:
  assumes "and (fi_flags fi) O_TRUNC = 0"
  shows "freports good bad P (fs_open E ops x p fi) neg_errno_fst reported_fst format_exns"
proof -
  have opened: "fvalid good bad Q (\<lambda>s. if is_file_opened p s then (Ret 0, s)
      else fbind (get_stored_stat E ops p) (\<lambda>met_attr. case met_attr of None \<Rightarrow> minus_errno
        | Some (st, last_version) \<Rightarrow> (\<lambda>s. (Ret 0, add_open_file p st ACCESSED last_version s))) s) reported (read_exns \<union> format_exns)" for Q
  proof (rule fvalidI)
    fix s :: "'c lsfs_state" assume g: "good (df_client s)"
    have "fvalid good bad (\<lambda>_. True) (fbind (get_stored_stat E ops p) (\<lambda>met_attr. case met_attr of None \<Rightarrow> minus_errno
        | Some (st, last_version) \<Rightarrow> (\<lambda>s. (Ret 0, add_open_file p st ACCESSED last_version s)))) reported (read_exns \<union> format_exns)"
      by (intro fvalid_bind[OF get_stored_stat_ok] fs_vc)
        (auto simp: fvalid_def add_open_file_def reported_def split: option.splits prod.splits)
    from fvalidD[OF this g TrueI] g show "fok good bad reported (read_exns \<union> format_exns) (if is_file_opened p s then (Ret 0, s)
      else fbind (get_stored_stat E ops p) (\<lambda>met_attr. case met_attr of None \<Rightarrow> minus_errno
        | Some (st, last_version) \<Rightarrow> (\<lambda>s. (Ret 0, add_open_file p st ACCESSED last_version s))) s)" by (simp add: reported_def)
  qed
  have "freports good bad P (try_catch False (fbind (freturn (0 :: int)) (\<lambda>_ s. if is_file_opened p s then (Ret 0, s)
      else fbind (get_stored_stat E ops p) (\<lambda>met_attr. case met_attr of None \<Rightarrow> minus_errno
        | Some (st, last_version) \<Rightarrow> (\<lambda>s. (Ret 0, add_open_file p st ACCESSED last_version s))) s)) minus_errno) neg_errno reported format_exns"
    by (rule freports_try[OF fvalid_bind[OF fvalid_return[where Q = "\<lambda>_ _. True"] opened] minus_errno_reports]) auto
  then show ?thesis
    unfolding fs_open_def using assms
    by (auto intro!: freports_if freports_pure[OF create_or_open_ok] freports_bind[where rep = neg_errno and Q = reported]
        freports_pure[OF fvalid_return] simp: freturn_def)
qed

lemma fs_read_reports:
  assumes "\<not> is_temp_file (regex_search E) p"
  shows "freports good bad P (fs_read E ops x p n off) neg_errno_fst read_bytes format_exns"
proof (induction "off mod BLK_SIZE" arbitrary: P n off rule: less_induct)
  case less
  have fail: "fvalid good bad Q (fbind minus_errno (\<lambda>r. freturn (r, []))) read_bytes X" for Q X
    by (simp add: fvalid_def fbind_def minus_errno_def freturn_def read_bytes_def)
  have rest: "fvalid good bad Q (fbind (if 0 < k then read_fixed_size_blocks_to_buffer_limited_paralelization ops (nat k) p b else freturn [])
      (\<lambda>d. freturn (to_int32 (int (length (ini @ d))), ini @ d))) read_bytes (read_exns \<union> format_exns)" for Q k b ini
    by (intro fvalid_bind[where Q = "\<lambda>_ _. True"] fs_vc read_file_ok) (auto simp: read_bytes_def)
  have empty: "fvalid good bad Q (freturn (0, [])) read_bytes X" for Q X
    by (rule fs_vc) (simp add: read_bytes_def to_int32_def)
  let ?first = "\<lambda>f. if off mod BLK_SIZE \<noteq> 0 then fbind (fs_read E ops x p BLK_SIZE (off div BLK_SIZE * BLK_SIZE)) (\<lambda>(bytes_read, ini_buf).
        if bytes_read < 0 then freturn None else freturn (Some (f bytes_read ini_buf))) else freturn (Some [])"
  have first: "freports good bad Q (?first f) (\<lambda>a _. a = None) (\<lambda>_ _. True) format_exns" for Q and f :: "int \<Rightarrow> bytes \<Rightarrow> bytes"
  proof (cases "off mod BLK_SIZE = 0")
    case True
    then show ?thesis by (auto intro!: freports_pure fs_vc)
  next
    case False
    then have "freports good bad Q (fs_read E ops x p BLK_SIZE (off div BLK_SIZE * BLK_SIZE)) neg_errno_fst read_bytes format_exns"
      by (intro less) auto
    then have "freports good bad Q (fbind (fs_read E ops x p BLK_SIZE (off div BLK_SIZE * BLK_SIZE)) (\<lambda>(bytes_read, ini_buf).
        if bytes_read < 0 then freturn None else freturn (Some (f bytes_read ini_buf)))) (\<lambda>a _. a = None) (\<lambda>_ _. True) format_exns"
      by (rule freports_bind2) (auto intro!: freports_pure fs_vc simp: freturn_def)
    then show ?thesis using False by simp
  qed
  let ?rest = "\<lambda>k b first. case first of None \<Rightarrow> fbind minus_errno (\<lambda>r. freturn (r, []))
      | Some ini \<Rightarrow> fbind (if 0 < k ini then read_fixed_size_blocks_to_buffer_limited_paralelization ops (nat (k ini)) p b else freturn [])
          (\<lambda>d. freturn (to_int32 (int (length (ini @ d))), ini @ d))"
  have body: "freports good bad Q (try_catch True (fbind (?first f) (?rest k b)) (fbind minus_errno (\<lambda>r. freturn (r, []))))
      neg_errno_fst read_bytes format_exns" for Q f k b
  proof (rule freports_try_bind[OF first])
    show "freports good bad (\<lambda>_. True) (try_catch True (?rest k b a) (fbind minus_errno (\<lambda>r. freturn (r, [])))) neg_errno_fst read_bytes format_exns"
      for a
    proof (rule try_read)
      show "fvalid good bad (\<lambda>_. True) (?rest k b a) read_bytes (read_exns \<union> format_exns)" by (cases a) (simp_all only: option.case fail rest)
    qed auto
  qed (auto simp: try_catch_def fbind_def minus_errno_def freturn_def)
  show ?case
    unfolding fs_read.simps[of E ops x p n off] Let_def if_not_P[OF assms]
    by (rule freports_bind2[OF fs_getattr_reports], intro freports_if freports_pure[OF fail] freports_pure[OF empty] body)
      (auto simp: fbind_def minus_errno_def freturn_def)
qed

text \<open>A write at a block boundary; a write in the middle of a block goes on after a failed read.\<close>

lemma fs_write_reports:
  assumes "\<not> is_temp_file (regex_search E) p" "off mod BLK_SIZE = 0"
  shows "freports good bad P (fs_write E ops x p buf off) neg_errno (wrote (length buf)) format_exns"
proof -
  have m: "fvalid good bad Q minus_errno (wrote (length buf)) X" for Q X
    by (rule fs_vc) (simp add: wrote_def)
  have u: "fvalid good bad Q (\<lambda>s. (Ret (to_int32 (int (length buf))), snd (update_open_file_metadata p st s))) (wrote (length buf)) X" for Q st X
    by (simp add: fvalid_def wrote_def)
  have "fvalid good bad (\<lambda>_. True) (fbind (write_first_block E ops x p buf off n ver) (\<lambda>first. case first of Inl r \<Rightarrow> freturn r
        | Inr (read_off, b) \<Rightarrow> fbind (put_fixed_size_blocks_from_buffer_limited_paralelization ops (drop read_off buf) p b ver)
            (\<lambda>res. if res = -1 then minus_errno else (\<lambda>s. (Ret (to_int32 (int (length buf))), snd (update_open_file_metadata p (st b) s))))))
      (wrote (length buf)) write_exns" for n ver st
    unfolding write_first_block_def Let_def if_P[OF assms(2)]
    by (rule fvalid_bind[OF fvalid_return[where Q = "\<lambda>a _. \<exists>c. a = Inr c"]])
      (auto intro!: fs_vc m u fvalid_bind[OF put_blocks_ok] split: sum.splits prod.splits simp: fvalid_def[where P = "\<lambda>_. False"])
  then have body: "freports good bad (\<lambda>_. True) (try_catch True (fbind (write_first_block E ops x p buf off n ver) (\<lambda>first. case first of Inl r \<Rightarrow> freturn r
        | Inr (read_off, b) \<Rightarrow> fbind (put_fixed_size_blocks_from_buffer_limited_paralelization ops (drop read_off buf) p b ver)
            (\<lambda>res. if res = -1 then minus_errno else (\<lambda>s. (Ret (to_int32 (int (length buf))), snd (update_open_file_metadata p (st b) s))))))
      minus_errno) neg_errno (wrote (length buf)) format_exns" for n ver st
    by (rule try_write) auto
  show ?thesis
    unfolding fs_write_def if_not_P[OF assms(1)]
    by (rule freports_bind2[OF fs_getattr_reports], rule freportsI)
      (auto simp: Let_def fbind_def set_errno_def minus_errno_def
        intro!: freportsD[OF body _ TrueI] split: option.splits)
qed

lemma check_dir_empty_ok:
  "fvalid good bad P (check_dir_empty E ops p) (\<lambda>a s. \<forall>r. a = Some r \<longrightarrow> r = - errno s) (write_exns \<union> format_exns)"
proof (rule fvalidI)
  fix s :: "'c lsfs_state" assume g: "good (df_client s)"
  let ?Q = "\<lambda>a s. \<forall>r. a = Some r \<longrightarrow> r = - errno s"
  have fail: "fvalid good bad P (fbind minus_errno (\<lambda>r. freturn (Some r))) ?Q X" for P X
    by (simp add: fvalid_def fbind_def minus_errno_def freturn_def)
  have ne: "fvalid good bad P (fbind (set_errno ENOTEMPTY ()) (\<lambda>_. fbind minus_errno (\<lambda>r. freturn (Some r)))) ?Q X" for P X
    by (rule fvalid_bind[OF fvalid_set_errno[where Q = "\<lambda>_ _. True"] fail]) simp
  have met: "fvalid good bad P (fbind (get_dir_metadata E ops p) (\<lambda>met. case met of None \<Rightarrow> fbind minus_errno (\<lambda>r. freturn (Some r))
      | Some m \<Rightarrow> if childs_is_empty (childs m) then freturn None
          else fbind (set_errno ENOTEMPTY ()) (\<lambda>_. fbind minus_errno (\<lambda>r. freturn (Some r))))) ?Q (write_exns \<union> format_exns)" for P
    by (intro fvalid_bind[OF get_dir_metadata_ok] fs_vc fail ne) (auto simp: read_exns_def write_exns_def)
  show "fok good bad ?Q (write_exns \<union> format_exns) (check_dir_empty E ops p s)"
    using g by (auto simp: check_dir_empty_def Let_def intro!: fvalidD[OF met _ TrueI] fvalidD[OF ne _ TrueI] split: prod.splits)
qed

lemma fs_rmdir_reports: "freports good bad P (fs_rmdir E ops p) neg_errno reported format_exns"
proof -
  have del: "fvalid good bad Q (\<lambda>s. if res \<noteq> 0 then minus_errno s
      else fbind (on_cache (if use_cache s then remove_from_dir_cache p else (\<lambda>c. c))) (\<lambda>_.
             fbind (remove_child_from_parent_dir E ops p True) zero_or_errno) s) reported (write_exns \<union> format_exns)" for Q and res :: int
  proof (rule fvalidI)
    fix s :: "'c lsfs_state" assume g: "good (df_client s)"
    have r: "fvalid good bad (\<lambda>_. True) (fbind (on_cache f) (\<lambda>_. fbind (remove_child_from_parent_dir E ops p True) zero_or_errno)) reported
        (write_exns \<union> format_exns)" for f
      by (rule fvalid_bind[OF fvalid_on_cache[where Q = "\<lambda>_ _. True"] remove_child_ok]) auto
    show "fok good bad reported (write_exns \<union> format_exns) (if res \<noteq> 0 then minus_errno s
      else fbind (on_cache (if use_cache s then remove_from_dir_cache p else (\<lambda>c. c))) (\<lambda>_.
             fbind (remove_child_from_parent_dir E ops p True) zero_or_errno) s)"
      using fvalidD[OF r g TrueI] g by (simp add: minus_errno_def)
  qed
  show ?thesis
    unfolding fs_rmdir_def delete_dir_def
    by (intro try_all fvalid_bind[OF check_dir_empty_ok] fs_vc fvalid_bind[OF delete_ok del])
      (auto simp: reported_def)
qed

lemma fs_readdir_reports: "freports good bad P (fs_readdir E ops x p) neg_errno_fst reported_fst format_exns"
proof (rule freportsI)
  fix s :: "'c lsfs_state" assume g: "good (df_client s)"
  let ?dots = "''.'' # (if p \<noteq> ''/'' then [''..''] else [])"
  have fill: "fvalid good bad Q (\<lambda>s. fbind (on_cache (if use_cache s then add_to_dir_cache (monotonic x) q m else (\<lambda>c. c)))
      (\<lambda>_. freturn (0, ns)) s) reported_fst X" for Q X q m and ns :: "string list"
    by (simp add: fvalid_def fbind_def on_cache_def freturn_def)
  have "fvalid good bad (\<lambda>_. True) (fbind (get_dir_metadata E ops p) (\<lambda>met.
      case met of None \<Rightarrow> fbind minus_errno (\<lambda>r. freturn (r, ?dots))
      | Some m \<Rightarrow> (\<lambda>s. fbind (on_cache (if use_cache s then add_to_dir_cache (monotonic x) p m else (\<lambda>c. c)))
          (\<lambda>_. freturn (0, ?dots @ listed m)) s))) reported_fst (read_exns \<union> format_exns)"
    by (rule fvalid_bind[OF get_dir_metadata_ok[OF subset_refl]]) (auto intro!: fvalid_option fvalid_fail fill)
  then have net: "freports good bad (\<lambda>_. True) (try_catch False (fbind (get_dir_metadata E ops p) (\<lambda>met.
      case met of None \<Rightarrow> fbind minus_errno (\<lambda>r. freturn (r, ?dots))
      | Some m \<Rightarrow> (\<lambda>s. fbind (on_cache (if use_cache s then add_to_dir_cache (monotonic x) p m else (\<lambda>c. c)))
          (\<lambda>_. freturn (0, ?dots @ listed m)) s))) (fbind minus_errno (\<lambda>r. freturn (r, ?dots)))) neg_errno_fst reported_fst format_exns"
    by (rule try_read) auto
  show "frep good bad neg_errno_fst reported_fst format_exns (fs_readdir E ops x p s)"
    using freportsD[OF net _ TrueI] g unfolding fs_readdir_def Let_def
    by (auto split: option.splits prod.splits)
qed

end

end
