(* ===== verification/Fs_Client.thy ===== *)
theory Fs_Client
  imports Fs_Errors
begin

text \<open>
  The file system on top of the client of \<open>Client\<close> and \<open>Client_Batch\<close>. The state that the system calls thread through is the client, what
  the network does during each of its future operations, the datagrams it has sent and the exceptions its operations have thrown. \<open>ops_of_client\<close>
  fills the interface \<open>client_ops\<close>, with the quorum sizes of the client's configuration (the short overloads of \<^verbatim>\<open>df_client/client.h\<close>); it is an
  instance of \<open>fs_client\<close> as long as the load balancer does not throw the exception for concurrent writes.
\<close>

section \<open>The client as an instance of the interface\<close>

record client_conf =
  nr_puts_required :: nat
  nr_gets_required :: nat
  nr_gets_version_required :: nat

record fs_net =
  fn_client :: client
  fn_script :: "(nat \<Rightarrow> io) list list"
  fn_sent :: "datagram list"
  fn_raised :: "exn list"

text \<open>The beginning of a call: what the network does in it. A call that is still running when its script is used up does not return.\<close>

definition next_script :: "fs_net \<Rightarrow> (nat \<Rightarrow> io) list" where
  "next_script s = (case fn_script s of [] \<Rightarrow> [] | xs # _ \<Rightarrow> xs)"

definition single_ios :: "fs_net \<Rightarrow> io list" where
  "single_ios s = map (\<lambda>g. g 0) (next_script s)"

definition returned :: "'a res option \<Rightarrow> 'a res" where
  "returned r = (case r of None \<Rightarrow> Hang | Some x \<Rightarrow> x)"

definition after_call :: "'a res \<Rightarrow> client \<Rightarrow> datagram list \<Rightarrow> fs_net \<Rightarrow> fs_net" where
  "after_call r c ds s = s\<lparr>fn_client := c, fn_script := tl (fn_script s), fn_sent := fn_sent s @ ds,
     fn_raised := fn_raised s @ (case r of Throw e \<Rightarrow> [e] | _ \<Rightarrow> [])\<rparr>"

definition run_write :: "(client \<Rightarrow> io list \<Rightarrow> unit outcome) \<Rightarrow> fs_net \<Rightarrow> unit res \<times> fs_net" where
  "run_write f s = (case f (fn_client s) (single_ios s) of (r, c, ds) \<Rightarrow> (returned r, after_call (returned r) c ds s))"

definition run_read :: "(client \<Rightarrow> io list \<Rightarrow> ('a, 's) read_outcome) \<Rightarrow> fs_net \<Rightarrow> ('a option res \<times> Response \<times> 's) \<times> fs_net" where
  "run_read f s = (case f (fn_client s) (single_ios s) of (r, g, l, c, ds) \<Rightarrow> ((returned r, g, l), after_call (returned r) c ds s))"

definition run_put_batch :: "nat \<Rightarrow> (kv_store_key \<times> bytes) list \<Rightarrow> fs_net \<Rightarrow> unit res \<times> fs_net" where
  "run_put_batch n items s =
     (case next_script s of
        [] \<Rightarrow> (Hang, s)
      | xf # xfs \<Rightarrow> (case client_put_batch (fn_client s) items n xf xfs of (r, c, ds) \<Rightarrow> (returned r, after_call (returned r) c ds s)))"

definition run_get_latest_batch :: "nat \<Rightarrow> string list \<Rightarrow> fs_net \<Rightarrow> (unit res \<times> bytes option list) \<times> fs_net" where
  "run_get_latest_batch n ks s =
     (case next_script s of
        [] \<Rightarrow> ((Hang, map (\<lambda>_. None) ks), s)
      | xf # xfs \<Rightarrow>
          (case client_get_latest_batch (fn_client s) (map (\<lambda>k. (k, None)) ks) n xf xfs of (r, data, c, ds) \<Rightarrow>
             ((returned r, data), after_call (returned r) c ds s)))"

definition run_get_metadata_batch ::
  "nat \<Rightarrow> kv_store_key list \<Rightarrow> int option \<Rightarrow> Response \<Rightarrow> fs_net \<Rightarrow> (unit res \<times> Response \<times> bytes option list) \<times> fs_net" where
  "run_get_metadata_batch n ks mx response s =
     (case next_script s of
        [] \<Rightarrow> ((Hang, response, map (\<lambda>_. None) ks), s)
      | xf # xfs \<Rightarrow>
          (case client_get_metadata_batch (fn_client s) (map (\<lambda>k. (k, None)) ks)
                  (case mx of None \<Rightarrow> max_timeouts (fn_client s) | Some m \<Rightarrow> m) n xf xfs response of
             (None, data, c, ds) \<Rightarrow> ((Hang, response, data), after_call (Hang :: unit res) c ds s)
           | (Some (r, g), data, c, ds) \<Rightarrow> ((r, g, data), after_call r c ds s)))"

definition ops_of_client :: "client_conf \<Rightarrow> fs_net client_ops" where
  "ops_of_client conf =
     \<lparr>co_put = \<lambda>k v t d. run_write (\<lambda>c. client_put c k v t d (nr_puts_required conf)),
      co_put_batch = run_put_batch (nr_puts_required conf),
      co_put_child = \<lambda>k v ch b d. run_write (\<lambda>c. client_put_child c k v ch b d (nr_puts_required conf)),
      co_del = \<lambda>k v t. run_write (\<lambda>c. client_del c k v t (nr_puts_required conf)),
      co_get_latest_batch = run_get_latest_batch (nr_gets_version_required conf),
      co_get_latest_version = \<lambda>k s.
        (case run_read (\<lambda>c. client_get_latest_version c k Init (nr_gets_version_required conf)) s of ((r, _), s') \<Rightarrow> (r, s')),
      co_get_latest_metadata_size = \<lambda>k g l.
        run_read (\<lambda>c. client_get_latest_metadata_size c k g l (nr_gets_version_required conf)),
      co_get_latest_metadata_stat = \<lambda>k g l.
        run_read (\<lambda>c. client_get_latest_metadata_stat c k g l (nr_gets_version_required conf)),
      co_get_metadata_batch = run_get_metadata_batch (nr_gets_required conf)\<rparr>"

section \<open>Exceptions of the client\<close>

definition throws_opt :: "exn set \<Rightarrow> 'a res option \<Rightarrow> bool" where
  "throws_opt X r \<longleftrightarrow> (\<forall>x. r = Some x \<longrightarrow> throws_only X x)"

lemma throws_opt_simps [simp]: "throws_opt X None" "throws_opt X (Some x) \<longleftrightarrow> throws_only X x"
  by (simp_all add: throws_opt_def)

lemma throws_returned: "throws_opt X r \<Longrightarrow> throws_only X (returned r)"
  by (cases r) (simp_all add: returned_def)

definition lb_ok :: "io \<Rightarrow> bool" where
  "lb_ok x \<longleftrightarrow> (\<forall>q. throws_only reading (io_lb x q))"

lemma timeout_exn [simp]: "TimeoutException \<in> reading"
  by (simp add: reading_def)

lemma fst_after_sending [simp]:
  "fst (after_sending ds out) = fst out" "fst (after_sending_read ds out') = fst out'" "fst (after_sending_batch ds out'') = fst out''"
  by (simp_all add: after_sending_def after_sending_read_def after_sending_batch_def split: prod.splits)

lemma read_loop_exns:
  assumes "\<forall>x\<in>set xs. lb_ok x" "\<And>r x g l h. throws_only reading (fst (wait r x g l h))"
  shows "throws_opt reading (fst (read_loop send wait k xs s c))"
  using assms(1)
proof (induction xs arbitrary: s c)
  case (Cons x xs)
  have lb: "choose_peers k n t x = Throw e \<Longrightarrow> e \<in> reading" for n t e
    using Cons.prems by (auto simp: choose_peers_def lb_ok_def throws_only_def)
  have w: "wait r x g l h = (Throw e, out) \<Longrightarrow> e \<in> reading" for r g l h e out
    using assms(2)[of r x g l h] by simp
  show ?case
    using Cons.IH Cons.prems lb w
    by (auto simp: Let_def split: res.splits prod.splits)
qed simp

lemma read_wait_exns:
  "throws_only reading (fst (wait_for_get_latest_version ord r n ms t g h))"
  "throws_only reading (fst (wait_for_get_latest ord k r n ms t g l h))"
  "throws_only reading (fst (wait_for_get_latest_until ord k r n ms t g h))"
  "throws_only reading (fst (wait_for_get_metadata_until ord r n ms t g h))"
  by (auto simp: wait_for_get_latest_version_def wait_for_get_latest_def wait_for_get_latest_until_def
      wait_for_get_metadata_until_def Let_def split: prod.splits option.splits)

lemma client_read_exns:
  assumes "\<forall>x\<in>set xs. lb_ok x"
  shows "throws_opt reading (fst (client_get_latest_version c k g n xs))"
    "throws_opt reading (fst (client_get_latest_metadata_stat c k g l n xs))"
    "throws_opt reading (fst (client_get_latest_metadata_size c k g l n xs))"
proof -
  have "throws_only reading (fst (plain_wait (\<lambda>r x. wait_for_get_latest_version (io_ord x) r n (io_during x) (io_timeout x)) r x g' l' h))"
    for r x g' l' h
    using read_wait_exns(1)[of "io_ord x" r n "io_during x" "io_timeout x" g' h] by (auto simp: plain_wait_def split: prod.splits)
  then show "throws_opt reading (fst (client_get_latest_version c k g n xs))"
    by (auto simp: client_get_latest_version_def start_read_def intro!: read_loop_exns[OF assms] split: prod.splits)
  have "throws_only reading (fst (latest_wait k n r x g' l' h))" for r x g' l' h
    unfolding latest_wait_def by (rule read_wait_exns)
  then show "throws_opt reading (fst (client_get_latest_metadata_stat c k g l n xs))"
    "throws_opt reading (fst (client_get_latest_metadata_size c k g l n xs))"
    by (auto simp: client_get_latest_metadata_stat_def client_get_latest_metadata_size_def start_read_def
        intro!: read_loop_exns[OF assms] split: prod.splits)
qed

text \<open>Batches.\<close>

lemma lb_exns: "lb_ok x \<Longrightarrow> io_lb x q = Throw e \<Longrightarrow> e \<in> reading" "lb_ok x \<Longrightarrow> choose_peers k n t x = Throw e \<Longrightarrow> e \<in> reading"
  by (auto simp: choose_peers_def lb_ok_def throws_only_def)

lemma throws_rbind: "throws_only X m \<Longrightarrow> (\<And>a. throws_only X (f a)) \<Longrightarrow> throws_only X (rbind m f)"
  by (cases m) auto

lemma get_batch_send_exns:
  assumes "\<forall>i. lb_ok (xf i)"
  shows "throws_only reading (fst (get_batch_send send i xf items c))"
proof (induction items arbitrary: i c)
  case (Cons item items)
  have "throws_only reading (rbind (fst (get_batch_send send j xf items c)) (\<lambda>its. Ret (f its)))"
    for j c and f :: "get_item list \<Rightarrow> get_item list"
    by (rule throws_rbind[OF Cons]) simp
  then show ?case
    using lb_exns(1)[of "xf i"] assms by (cases item) (auto simp: Let_def case_prod_unfold split: res.splits)
qed simp

lemma get_batch_element_exns:
  assumes "lb_ok x" "\<And>k r h. throws_only reading (fst (wait k r x h))"
  shows "throws_only reading (fst (get_batch_element send wait account x t it p c))"
proof -
  have "throws_only reading (fst (resend send x t it c'))" for c'
    using lb_exns(2)[OF assms(1)] by (auto simp: resend_def Let_def case_prod_unfold split: res.splits)
  then have "fst (resend send x t it c') = Throw e \<Longrightarrow> e \<in> reading" for c' e by (metis throws_only_simps(2))
  moreover have "fst (wait k r x h) = Throw e \<Longrightarrow> e \<in> reading" for k r h e using assms(2)[of k r h] by simp
  ultimately show ?thesis by (auto simp: get_batch_element_def Let_def case_prod_unfold split: res.splits)
qed

lemma get_batch_pass_exns:
  assumes "\<And>j it p c. throws_only reading (fst (element j it p c))"
  shows "throws_only reading (fst (get_batch_pass element i items p c))"
proof (induction items arbitrary: i p c)
  case (Cons it items)
  have "fst (element j it' p' c') = Throw e \<Longrightarrow> e \<in> reading" for j it' p' c' e using assms[of j it' p' c'] by simp
  with Cons show ?case by (auto simp: case_prod_unfold split: res.splits)
qed simp

lemma latest_element_exns: "lb_ok (xf j) \<Longrightarrow> throws_only reading (fst (latest_element n xf t j it p c))"
  unfolding latest_element_def by (rule get_batch_element_exns) (auto intro: read_wait_exns)

lemma metadata_element_exns: "lb_ok (xf j) \<Longrightarrow> throws_only reading (fst (metadata_element n xf t j it p c))"
  unfolding metadata_element_def by (rule get_batch_element_exns) (auto intro: read_wait_exns)

lemma latest_batch_loop_exns:
  assumes "\<forall>g\<in>set xfs. \<forall>i. lb_ok (g i)"
  shows "throws_opt reading (fst (get_latest_batch_loop n xfs t m items c))"
  using assms
proof (induction xfs arbitrary: t m items c)
  case (Cons xf xfs)
  have "throws_only reading (fst (get_batch_pass (latest_element n xf t) 0 items p c))" for p
    by (rule get_batch_pass_exns) (use Cons.prems in \<open>auto intro: latest_element_exns\<close>)
  then have "fst (get_batch_pass (latest_element n xf t) 0 items p c) = Throw e \<Longrightarrow> e \<in> reading" for p e
    by (metis throws_only_simps(2))
  moreover have "throws_opt reading (fst (get_latest_batch_end b its c'))" for b its c'
    by (simp add: get_latest_batch_end_def Let_def)
  ultimately show ?case using Cons by (auto simp: Let_def case_prod_unfold split: res.splits)
qed simp

lemma metadata_batch_loop_exns:
  assumes "\<forall>g\<in>set xfs. \<forall>i. lb_ok (g i)"
  shows "throws_opt reading (map_option fst (fst (get_metadata_batch_loop n mx xfs t m items c)))"
  using assms
proof (induction xfs arbitrary: t m items c)
  case (Cons xf xfs)
  have "throws_only reading (fst (get_batch_pass (metadata_element n xf t) 0 items p c))" for p
    by (rule get_batch_pass_exns) (use Cons.prems in \<open>auto intro: metadata_element_exns\<close>)
  then have "fst (get_batch_pass (metadata_element n xf t) 0 items p c) = Throw e \<Longrightarrow> e \<in> reading" for p e
    by (metis throws_only_simps(2))
  moreover have "throws_opt reading (map_option fst (fst (get_metadata_batch_end a b d f its c')))" for a b d f its c'
    by (simp add: get_metadata_batch_end_def Let_def)
  ultimately show ?case using Cons by (auto simp: Let_def case_prod_unfold split: res.splits)
qed simp

lemma client_read_batch_exns:
  assumes "\<forall>i. lb_ok (xf i)" "\<forall>g\<in>set xfs. \<forall>i. lb_ok (g i)"
  shows "throws_opt reading (fst (client_get_latest_batch c items n xf xfs))"
    "throws_opt reading (map_option fst (fst (client_get_metadata_batch c items' mx n xf xfs g)))"
proof -
  have s: "fst (get_batch_send send 0 xf its c) = Throw e \<Longrightarrow> e \<in> reading" for send its e
    using get_batch_send_exns[OF assms(1), of send 0 its c] by simp
  show "throws_opt reading (fst (client_get_latest_batch c items n xf xfs))"
    using s latest_batch_loop_exns[OF assms(2)] by (auto simp: client_get_latest_batch_def case_prod_unfold split: res.splits)
  show "throws_opt reading (map_option fst (fst (client_get_metadata_batch c items' mx n xf xfs g)))"
    using s metadata_batch_loop_exns[OF assms(2)] by (auto simp: client_get_metadata_batch_def case_prod_unfold split: res.splits)
qed

section \<open>The instance\<close>

definition net_ok :: "fs_net \<Rightarrow> bool" where
  "net_ok s \<longleftrightarrow> (\<forall>xfs\<in>set (fn_script s). \<forall>g\<in>set xfs. \<forall>i. lb_ok (g i))"

text \<open>The client has thrown nothing, or nothing but \<open>e\<close>.\<close>

definition calm :: "fs_net \<Rightarrow> bool" where
  "calm s \<longleftrightarrow> net_ok s \<and> fn_raised s = []"

definition raised :: "exn \<Rightarrow> fs_net \<Rightarrow> bool" where
  "raised e s \<longleftrightarrow> fn_raised s = [e]"

lemma net_ok_next: "net_ok s \<Longrightarrow> g \<in> set (next_script s) \<Longrightarrow> lb_ok (g i)"
  by (cases "fn_script s") (auto simp: net_ok_def next_script_def)

lemma net_ok_single: "net_ok s \<Longrightarrow> \<forall>x\<in>set (single_ios s). lb_ok x"
  by (auto simp: single_ios_def dest: net_ok_next)

lemma left_after:
  assumes "calm s" "\<And>e. r = Throw e \<Longrightarrow> (Client, e) \<in> X"
  shows "left calm raised X r (after_call r c ds s)"
proof -
  have "net_ok (after_call r c ds s)" using assms(1) by (cases "fn_script s") (auto simp: net_ok_def after_call_def calm_def)
  moreover have "fn_raised (after_call r c ds s) = (case r of Throw e \<Rightarrow> [e] | _ \<Rightarrow> [])" using assms(1) by (simp add: after_call_def calm_def)
  ultimately show ?thesis using assms(2) by (cases r) (auto simp: left_def calm_def raised_def)
qed

lemma left_Hang [simp]: "left calm raised X Hang s = calm s"
  by (simp add: left_def)

lemma run_write_left: "calm s \<Longrightarrow> run_write f s = (r, s') \<Longrightarrow> left calm raised write_exns r s'"
  by (auto simp: run_write_def left_after split: prod.splits)

lemma throws_read: "throws_only reading r \<Longrightarrow> r = Throw e \<Longrightarrow> (Client, e) \<in> read_exns"
  by (simp add: read_exns_def)

lemma run_read_left:
  assumes "calm s" "run_read f s = ((r, out), s')" "\<And>c xs. \<forall>x\<in>set xs. lb_ok x \<Longrightarrow> throws_opt reading (fst (f c xs))"
  shows "left calm raised read_exns r s'"
proof -
  obtain o1 g l c ds where o: "f (fn_client s) (single_ios s) = (o1, g, l, c, ds)" by (rule prod_cases5)
  have "throws_opt reading o1" using assms(3)[OF net_ok_single, of s "fn_client s"] assms(1) o by (simp add: calm_def)
  then show ?thesis using assms(1,2) o throws_returned by (auto simp: run_read_def intro!: left_after dest: throws_read)
qed

lemma run_batch_left:
  assumes "calm s"
  shows "run_put_batch n items s = (r, s') \<Longrightarrow> left calm raised write_exns r s'"
    and "run_get_latest_batch n ks s = ((r, out), s') \<Longrightarrow> left calm raised read_exns r s'"
    and "run_get_metadata_batch n mks mx g s = ((r, out'), s') \<Longrightarrow> left calm raised read_exns r s'"
proof -
  have net: "net_ok s" using assms by (simp add: calm_def)
  have x: "\<forall>i. lb_ok (xf i)" "\<forall>g\<in>set xfs. \<forall>i. lb_ok (g i)" if "next_script s = xf # xfs" for xf xfs
    using net_ok_next[OF net] that by auto
  show "run_put_batch n items s = (r, s') \<Longrightarrow> left calm raised write_exns r s'"
    using assms by (auto simp: run_put_batch_def left_after split: list.splits prod.splits)
  show "run_get_latest_batch n ks s = ((r, out), s') \<Longrightarrow> left calm raised read_exns r s'"
    using throws_read[OF throws_returned[OF client_read_batch_exns(1)[OF x]]] assms
    by (auto simp: run_get_latest_batch_def case_prod_unfold intro!: left_after split: list.splits)
  show "run_get_metadata_batch n mks mx g s = ((r, out'), s') \<Longrightarrow> left calm raised read_exns r s'"
  proof (cases "next_script s")
    case (Cons xf xfs)
    assume r: "run_get_metadata_batch n mks mx g s = ((r, out'), s')"
    obtain o1 data c ds where o1: "client_get_metadata_batch (fn_client s) (map (\<lambda>k. (k, None)) mks)
        (case mx of None \<Rightarrow> max_timeouts (fn_client s) | Some m \<Rightarrow> m) n xf xfs g = (o1, data, c, ds)"
      by (rule prod_cases4)
    have "throws_opt reading (map_option fst o1)"
      using client_read_batch_exns(2)[OF x[OF Cons], of "fn_client s" "map (\<lambda>k. (k, None)) mks"
          "case mx of None \<Rightarrow> max_timeouts (fn_client s) | Some m \<Rightarrow> m" n g] by (simp add: o1)
    with r Cons o1 assms left_after[OF assms, of "Hang :: unit res"] show ?thesis
      by (cases o1) (auto simp: run_get_metadata_batch_def intro!: left_after dest: throws_read)
  qed (use assms in \<open>auto simp: run_get_metadata_batch_def\<close>)
qed

interpretation fs: fs_client "ops_of_client conf" calm raised
proof
  fix s s' :: fs_net and r p v t d
  assume "calm s" "co_put (ops_of_client conf) p v t d s = (r, s')"
  then show "left calm raised write_exns r s'" by (auto simp: ops_of_client_def dest: run_write_left)
next
  fix s s' :: fs_net and r ks
  assume "calm s" "co_put_batch (ops_of_client conf) ks s = (r, s')"
  then show "left calm raised write_exns r s'" by (auto simp: ops_of_client_def dest: run_batch_left(1))
next
  fix s s' :: fs_net and r p v q b b'
  assume "calm s" "co_put_child (ops_of_client conf) p v q b b' s = (r, s')"
  then show "left calm raised write_exns r s'" by (auto simp: ops_of_client_def dest: run_write_left)
next
  fix s s' :: fs_net and r p v t
  assume "calm s" "co_del (ops_of_client conf) p v t s = (r, s')"
  then show "left calm raised write_exns r s'" by (auto simp: ops_of_client_def dest: run_write_left)
next
  fix s s' :: fs_net and r ps ds
  assume "calm s" "co_get_latest_batch (ops_of_client conf) ps s = ((r, ds), s')"
  then show "left calm raised read_exns r s'" by (auto simp: ops_of_client_def dest: run_batch_left(2))
next
  fix s s' :: fs_net and r p
  assume "calm s" "co_get_latest_version (ops_of_client conf) p s = (r, s')"
  then obtain out where "calm s"
    "run_read (\<lambda>c. client_get_latest_version c p Init (nr_gets_version_required conf)) s = ((r, out), s')"
    by (auto simp: ops_of_client_def split: prod.splits)
  then show "left calm raised read_exns r s'" by (rule run_read_left) (rule client_read_exns)
next
  fix s s' :: fs_net and r p g v out
  assume "calm s" "co_get_latest_metadata_size (ops_of_client conf) p g v s = ((r, out), s')"
  then show "left calm raised read_exns r s'" by (auto simp: ops_of_client_def dest: run_read_left[OF _ _ client_read_exns(3)])
next
  fix s s' :: fs_net and r p g v out
  assume "calm s" "co_get_latest_metadata_stat (ops_of_client conf) p g v s = ((r, out), s')"
  then show "left calm raised read_exns r s'" by (auto simp: ops_of_client_def dest: run_read_left[OF _ _ client_read_exns(2)])
next
  fix s s' :: fs_net and r mks mx g out
  assume "calm s" "co_get_metadata_batch (ops_of_client conf) mks mx g s = ((r, out), s')"
  then show "left calm raised read_exns r s'" by (auto simp: ops_of_client_def dest: run_batch_left(3))
qed

end
