(* ===== verification/Fs_Blocks.thy ===== *)
theory Fs_Blocks
  imports Fs_Client
begin

text \<open>
  Files as sequences of blocks: what a write stores is what a read of the same range asks for and puts together, however
  the transfer is divided into batches.
\<close>

section \<open>Cutting a buffer into blocks and putting it together\<close>

lemma BLK_SIZE_pos [simp]: "0 < BLK_SIZE"
  by (simp add: BLK_SIZE_def)

lemma NR_BLKS_alt: "n div BLK_SIZE + (if n mod BLK_SIZE = 0 then 0 else 1) = NR_BLKS n"
  by (simp add: NR_BLKS_def Let_def)

lemma NR_BLKS_bound: "n \<le> NR_BLKS n * BLK_SIZE"
  using NR_BLKS_bounds[of n] by (cases "n = 0") auto

lemma NR_BLKS_least:
  assumes "n \<le> m * BLK_SIZE"
  shows "NR_BLKS n \<le> m"
proof (cases "n = 0")
  case False
  then have "(NR_BLKS n - 1) * BLK_SIZE < n" using NR_BLKS_bounds[of n] by simp
  also note assms
  finally have "(NR_BLKS n - 1) * BLK_SIZE < m * BLK_SIZE" .
  then show ?thesis by simp
qed simp

lemma NR_BLKS_step:
  assumes "0 < n"
  shows "NR_BLKS n = Suc (NR_BLKS (n - BLK_SIZE))"
proof (rule antisym)
  show "NR_BLKS n \<le> Suc (NR_BLKS (n - BLK_SIZE))" using NR_BLKS_bound[of "n - BLK_SIZE"] by (intro NR_BLKS_least) simp
  have "0 < NR_BLKS n" using NR_BLKS_bound[of n] assms by (cases "NR_BLKS n") auto
  moreover have "NR_BLKS (n - BLK_SIZE) \<le> NR_BLKS n - 1"
    using NR_BLKS_bound[of n] by (intro NR_BLKS_least) (simp add: diff_mult_distrib)
  ultimately show "Suc (NR_BLKS (n - BLK_SIZE)) \<le> NR_BLKS n" by linarith
qed

lemma write_blks_Nil [simp]: "write_blks p ver b [] = []"
  by (simp add: write_blks.simps)

lemma write_blks_Cons: "buf \<noteq> [] \<Longrightarrow> write_blks p ver b buf =
    (\<lparr>key = blk_key p (b + 1), version = ver, f_type = FILE, is_deleted = False\<rparr>, take BLK_SIZE buf) #
    write_blks p ver (b + 1) (drop BLK_SIZE buf)"
  by (subst write_blks.simps) simp

lemma write_blks_concat: "concat (map snd (write_blks p ver b buf)) = buf"
proof (induction p ver b buf rule: write_blks.induct)
  case (1 p ver b buf)
  then show ?case by (cases "buf = []") (simp_all add: write_blks_Cons)
qed

lemma write_blks_keys: "map (key \<circ> fst) (write_blks p ver b buf) = read_keys p b (NR_BLKS (length buf))"
proof (induction p ver b buf rule: write_blks.induct)
  case (1 p ver b buf)
  then show ?case by (cases "buf = []") (simp_all add: write_blks_Cons NR_BLKS_step)
qed

text \<open>A batch boundary at a multiple of the block size is invisible.\<close>

lemma write_blks_split:
  "k * BLK_SIZE \<le> length buf \<Longrightarrow>
     write_blks p ver b buf = write_blks p ver b (take (k * BLK_SIZE) buf) @ write_blks p ver (b + of_nat k) (drop (k * BLK_SIZE) buf)"
proof (induction k arbitrary: b buf)
  case (Suc k)
  then have "buf \<noteq> []" "take (Suc k * BLK_SIZE) buf \<noteq> []" by (auto simp: BLK_SIZE_def)
  with Suc.IH[of "drop BLK_SIZE buf" "b + 1"] Suc.prems
  show ?case by (simp add: write_blks_Cons take_drop add.commute add.left_commute)
qed simp

lemma write_blks_take: "concat (take k (map snd (write_blks p ver b buf))) = take (k * BLK_SIZE) buf"
proof (induction k arbitrary: b buf)
  case (Suc k)
  show ?case
  proof (cases "buf = []")
    case False
    then show ?thesis using Suc[of "b + 1" "drop BLK_SIZE buf"] by (simp add: write_blks_Cons take_add)
  qed simp
qed simp

lemma copy_blks_concat: "copy_blks n (map Some cs) = take n (concat cs)"
  by (induction cs arbitrary: n) (auto simp: Let_def min_def)

lemma read_keys_nth: "i < n \<Longrightarrow> read_keys p b n ! i = blk_key p (b + of_nat (Suc i))"
  by (induction n arbitrary: b i) (auto simp: nth_Cons' less_Suc_eq_0_disj add.commute add.left_commute)

lemma length_read_keys [simp]: "length (read_keys p b n) = n"
  by (induction n arbitrary: b) auto

lemma distinct_read_keys:
  assumes "n \<le> 2 ^ 64"
  shows "distinct (read_keys p b n)"
proof (unfold distinct_conv_nth, intro allI impI)
  fix i j assume "i < length (read_keys p b n)" "j < length (read_keys p b n)" "i \<noteq> j"
  moreover have "i = j" if "(of_nat i :: 64 word) = of_nat j" "i < n" "j < n"
    using of_nat_inverse[OF that(1)] of_nat_inverse[OF refl, of j, where 'a = 64] that(2,3) assms by simp
  ultimately show "read_keys p b n ! i \<noteq> read_keys p b n ! j"
    by (auto simp: read_keys_nth blk_key_def word_unat_eq_iff[symmetric])
qed

section \<open>Batches\<close>

lemma fbind_return [simp]: "fbind (freturn a) f = f a"
  by (rule ext) (simp add: fbind_def freturn_def)

lemma fbind_assoc: "fbind (fbind m f) g = fbind m (\<lambda>a. fbind (f a) g)"
  by (rule ext) (auto simp: fbind_def split: prod.splits res.splits)

text \<open>Handing batches to the client one after the other.\<close>

fun send_batches :: "'c client_ops \<Rightarrow> (kv_store_key \<times> bytes) list list \<Rightarrow> ('c, int) fs" where
  "send_batches ops [] = freturn 0"
| "send_batches ops (x # xs) = fbind (call_client (co_put_batch ops x)) (\<lambda>_. send_batches ops xs)"

lemma put_limited_step:
  assumes "buf \<noteq> []" "0 < m"
  shows "put_limited ops m buf p b ver = fbind (call_client (co_put_batch ops (write_blks p ver b (take m buf))))
    (\<lambda>_. put_limited ops m (drop m buf) p (b + of_nat (m div BLK_SIZE)) ver)"
proof (cases "m \<le> length buf")
  case True
  then show ?thesis using assms
    by (subst put_limited.simps) (simp add: Let_def put_fixed_size_blocks_from_buffer_def fbind_assoc min_def)
next
  case False
  have "put_limited ops m [] p b' ver = freturn 0" for b' by (simp add: put_limited.simps)
  with False assms show ?thesis
    by (subst put_limited.simps) (simp add: Let_def put_fixed_size_blocks_from_buffer_def fbind_assoc min_def)
qed

definition batches_of :: "nat \<Rightarrow> (kv_store_key \<times> bytes) list \<Rightarrow> (kv_store_key \<times> bytes) list list \<Rightarrow> bool" where
  "batches_of k blks bs \<longleftrightarrow> concat bs = blks \<and> (\<forall>x\<in>set bs. x \<noteq> [] \<and> length x \<le> k)"

lemma length_write_blks [simp]: "length (write_blks p ver b buf) = NR_BLKS (length buf)"
  using arg_cong[OF write_blks_keys, of length p ver b buf] by simp

lemma put_limited_batches:
  assumes "0 < k"
  shows "\<exists>bs. batches_of k (write_blks p ver b buf) bs \<and> (\<forall>ops :: 'c client_ops. put_limited ops (k * BLK_SIZE) buf p b ver = send_batches ops bs)"
proof (induction "length buf" arbitrary: buf b rule: less_induct)
  case less
  show ?case
  proof (cases "buf = []")
    case True
    then show ?thesis by (intro exI[of _ "[]"]) (simp add: batches_of_def put_limited.simps)
  next
    case False
    let ?m = "k * BLK_SIZE"
    let ?x = "write_blks p ver b (take ?m buf)"
    have m: "0 < ?m" using assms by simp
    from less[of "drop ?m buf" "b + of_nat k"] False m obtain bs where
      bs: "batches_of k (write_blks p ver (b + of_nat k) (drop ?m buf)) bs"
        "\<forall>ops :: 'c client_ops. put_limited ops ?m (drop ?m buf) p (b + of_nat k) ver = send_batches ops bs"
      by auto
    have "write_blks p ver b buf = ?x @ write_blks p ver (b + of_nat k) (drop ?m buf)"
      using write_blks_split[of k buf p ver b] by (cases "?m \<le> length buf") auto
    moreover have "?x \<noteq> []" using False m by (simp add: write_blks_Cons)
    moreover have "length ?x \<le> k" by (auto intro: NR_BLKS_least)
    ultimately have "batches_of k (write_blks p ver b buf) (?x # bs)" using bs(1) by (simp add: batches_of_def)
    moreover have "put_limited ops ?m buf p b ver = send_batches ops (?x # bs)" for ops :: "'c client_ops"
      by (subst put_limited_step[OF False m]) (use bs(2) in simp)
    ultimately show ?thesis by blast
  qed
qed

lemma configured_size: "convert_string_size_to_num_bytes rx fmt = Ret n \<Longrightarrow> BLK_SIZE dvd n"
  by (auto simp: convert_string_size_to_num_bytes_def Let_def dvd_eq_mod_eq_0 split: option.splits res.splits if_splits)

text \<open>
  C31. A buffer written to a file is cut into blocks of the block size, numbered from the block at which the write begins, and all of them
  are handed to the client in order, in non-empty batches of at most the configured size, whatever the client and its state are. In
  particular where the batches are cut has no influence on the blocks. This needs the configured size to be a positive multiple of
  the block size, of which the configuration check only enforces that it is a multiple (\<open>configured_size\<close>).
\<close>

theorem write_in_batches:
  assumes "0 < max_size" "BLK_SIZE dvd max_size"
  shows "\<exists>bs. concat bs = write_blks p ver b buf \<and> (\<forall>x\<in>set bs. x \<noteq> [] \<and> length x \<le> max_size div BLK_SIZE) \<and>
    (\<forall>ops :: 'c client_ops. put_limited ops max_size buf p b ver = send_batches ops bs)"
proof -
  from assms(2) obtain k where "max_size = BLK_SIZE * k" by (rule dvdE)
  then have k: "max_size = k * BLK_SIZE" by simp
  with assms(1) have "0 < k" "max_size div BLK_SIZE = k" by auto
  with put_limited_batches[of k p ver b buf] show ?thesis unfolding k batches_of_def by auto
qed

theorem write_in_batches_witness:
  "\<exists>bs. concat bs = write_blks ''/f'' default_version (-1) (replicate 5000 CHR ''x'') \<and> (\<forall>x\<in>set bs. length x \<le> 1) \<and>
    (\<forall>conf. put_limited (ops_of_client conf) 4096 (replicate 5000 CHR ''x'') ''/f'' (-1) default_version = send_batches (ops_of_client conf) bs)"
  using write_in_batches[of 4096 "''/f''" default_version "-1" "replicate 5000 CHR ''x''"] by (auto simp: BLK_SIZE_def)

text \<open>
  Blocks round trip. When the blocks of a buffer are stored over whatever was there before, then reading \<open>n\<close> bytes from \<open>j\<close> blocks after
  the beginning of the write gives back the bytes of the buffer from there on: reader and writer agree on the keys, also where the block
  number wraps around to 0.
\<close>

theorem blocks_roundtrip:
  assumes "length buf < 2 ^ 64" "j * BLK_SIZE + n \<le> length buf"
  shows "copy_blks n (map (old ++ map_of (map (\<lambda>(k, d). (key k, d)) (write_blks p ver b buf)))
      (read_keys p (b + of_nat j) (NR_BLKS n))) = take n (drop (j * BLK_SIZE) buf)"
proof -
  let ?L = "\<lambda>b buf. map (\<lambda>(k, d). (key k, d)) (write_blks p ver b buf)"
  let ?rest = "drop (j * BLK_SIZE) buf" and ?b = "b + of_nat j"
  have keys: "map fst (?L b buf) = read_keys p b (NR_BLKS (length buf))" for b buf
    using write_blks_keys[of p ver b buf] by (simp add: case_prod_unfold comp_def)
  have sub: "set (?L ?b ?rest) \<subseteq> set (?L b buf)" using write_blks_split[of j buf p ver b] assms(2) by auto
  have "NR_BLKS (length buf) \<le> 2 ^ 64" by (rule NR_BLKS_least) (use assms(1) in \<open>simp add: BLK_SIZE_def\<close>)
  then have d: "distinct (map fst (?L b buf))" unfolding keys by (rule distinct_read_keys)
  have lk: "(old ++ map_of (?L b buf)) k = Some d" if "(k, d) \<in> set (?L ?b ?rest)" for k d
  proof -
    have "map_of (?L b buf) k = Some d" by (rule map_of_is_SomeI[OF d subsetD[OF sub that]])
    then show ?thesis by (simp add: map_add_def)
  qed
  have "map (old ++ map_of (?L b buf)) (map fst (?L ?b ?rest)) = map Some (map snd (?L ?b ?rest))"
    using lk by (auto simp: comp_def)
  then have all: "map (old ++ map_of (?L b buf)) (read_keys p ?b (NR_BLKS (length ?rest))) = map Some (map snd (write_blks p ver ?b ?rest))"
    unfolding keys by (simp add: case_prod_unfold comp_def)
  have le: "NR_BLKS n \<le> NR_BLKS (length ?rest)"
    by (rule NR_BLKS_least) (use NR_BLKS_bound[of "length ?rest"] assms(2) in simp)
  have pre: "read_keys p ?b (NR_BLKS n) = take (NR_BLKS n) (read_keys p ?b (NR_BLKS (length ?rest)))"
    using le by (intro nth_equalityI) (auto simp: read_keys_nth)
  have "map (old ++ map_of (?L b buf)) (read_keys p ?b (NR_BLKS n)) = take (NR_BLKS n) (map Some (map snd (write_blks p ver ?b ?rest)))"
    unfolding pre take_map[symmetric] all ..
  also have "\<dots> = map Some (take (NR_BLKS n) (map snd (write_blks p ver ?b ?rest)))" by (rule take_map)
  finally show ?thesis by (simp only: copy_blks_concat write_blks_take) (use NR_BLKS_bound[of n] in \<open>simp add: min_def\<close>)
qed

theorem blocks_roundtrip_witness:
  "copy_blks 4 (map (Map.empty ++ map_of (map (\<lambda>(k, d). (key k, d)) (write_blks ''/f'' default_version (-1) (replicate 5000 CHR ''x''))))
     (read_keys ''/f'' 0 1)) = replicate 4 CHR ''x''"
proof -
  have "NR_BLKS 4 = 1" by (simp add: NR_BLKS_def BLK_SIZE_def)
  with blocks_roundtrip[of "replicate 5000 CHR ''x''" 1 4 Map.empty "''/f''" default_version "-1"] show ?thesis
    by (simp add: BLK_SIZE_def)
qed

end
