(* ===== verification/Fs_Spec.thy ===== *)
theory Fs_Spec
  imports Fs_Blocks Ref_Env
begin

text \<open>
  Properties of the system calls: how errors are reported, what a write leaves behind, the life of an open file, listing and removing
  directories, and when a read returns.
\<close>

section \<open>Which calls leave the open files alone\<close>

named_theorems keep_rules \<open>functions that do not change the open files\<close>

definition keeps_files :: "('c, 'a) fs \<Rightarrow> bool" where
  "keeps_files m \<longleftrightarrow> (\<forall>s. open_files (snd (m s)) = open_files s)"

lemma keeps_bind [keep_rules]: "keeps_files m \<Longrightarrow> (\<And>a. keeps_files (f a)) \<Longrightarrow> keeps_files (fbind m f)"
proof (unfold keeps_files_def, intro allI)
  fix s :: "'a lsfs_state" assume m: "\<forall>s. open_files (snd (m s)) = open_files s" and f: "\<And>a. \<forall>s. open_files (snd (f a s)) = open_files s"
  show "open_files (snd (fbind m f s)) = open_files s"
    using m[rule_format, of s] f by (cases "m s", cases "fst (m s)") (auto simp: fbind_def)
qed

lemma keeps_simple [keep_rules]:
  "keeps_files (freturn a)" "keeps_files (fres r)" "keeps_files (set_errno e a)" "keeps_files minus_errno" "keeps_files (on_cache f)"
  "keeps_files (on_client g)" "keeps_files (call_client h)"
  by (simp_all add: keeps_files_def freturn_def fres_def set_errno_def minus_errno_def on_cache_def on_client_def call_client_def fbind_def
      split: prod.splits res.splits)

lemma keeps_if [keep_rules]: "(b \<Longrightarrow> keeps_files m) \<Longrightarrow> (\<not> b \<Longrightarrow> keeps_files m') \<Longrightarrow> keeps_files (if b then m else m')"
  by simp

lemma keeps_option [keep_rules]: "keeps_files m \<Longrightarrow> (\<And>a. keeps_files (f a)) \<Longrightarrow> keeps_files (case x of None \<Rightarrow> m | Some a \<Rightarrow> f a)"
  by (cases x) auto

lemma keeps_prod [keep_rules]: "(\<And>a b. keeps_files (f a b)) \<Longrightarrow> keeps_files (case x of (a, b) \<Rightarrow> f a b)"
  by (cases x) auto

lemma keeps_try [keep_rules]: "keeps_files m \<Longrightarrow> keeps_files h \<Longrightarrow> keeps_files (try_catch w m h)"
  unfolding keeps_files_def try_catch_def
  by (auto split: prod.splits res.splits option.splits) (metis snd_conv)+

lemma keeps_put_block [keep_rules]: "keeps_files (put_block ops p d v t)"
  unfolding put_block_def by (intro keep_rules)

lemma keeps_parent [keep_rules]: "keeps_files (add_child_to_parent_dir E ops p b)" "keeps_files (remove_child_from_parent_dir E ops p b)"
proof -
  have "keeps_files (change_parent_dir E ops f b p b')" for f b b'
  proof -
    have "keeps_files (fbind (on_cache h) (\<lambda>_. fbind (put_dir_metadata_child ops q c b b') (\<lambda>res. if res \<noteq> 0 then minus_errno else freturn 0)))"
      for h q c unfolding put_dir_metadata_child_def by (intro keep_rules)
    then show ?thesis by (auto simp: keeps_files_def change_parent_dir_def split: option.splits)
  qed
  then show "keeps_files (add_child_to_parent_dir E ops p b)" "keeps_files (remove_child_from_parent_dir E ops p b)"
    by (simp_all add: add_child_to_parent_dir_def remove_child_from_parent_dir_def)
qed

lemma keeps_put_limited [keep_rules]: "keeps_files (put_limited ops m buf p b v)"
proof (induction "length buf" arbitrary: buf b rule: less_induct)
  case less
  then show ?case
    by (subst put_limited.simps, unfold Let_def put_fixed_size_blocks_from_buffer_def, intro keep_rules) auto
qed

lemma keeps_put_blocks [keep_rules]: "keeps_files (put_fixed_size_blocks_from_buffer_limited_paralelization ops buf p b v)"
  by (simp add: keeps_files_def put_fixed_size_blocks_from_buffer_limited_paralelization_def keeps_put_limited[unfolded keeps_files_def])

lemma keeps_read_limited: "read_limited ops m n p b buf s = Some out \<Longrightarrow> open_files (snd out) = open_files s"
proof (rule read_limited.raw_induct[where P = "\<lambda>ops m n p b buf s out. open_files (snd out) = open_files s"])
  fix rl ops m n p b buf s y
  assume 1: "\<And>ops m n p b buf s y. rl ops m n p b buf s = Some y \<Longrightarrow> open_files (snd y) = open_files s"
    "(if length buf < n
      then let out = read_fixed_size_blocks_to_buffer ops (min m (n - length buf)) p b s
           in case fst out of
                Ret d \<Rightarrow> rl ops m n p (b + of_nat (length d div BLK_SIZE)) (buf @ d) (snd out)
              | Throw e \<Rightarrow> Some (Throw e, snd out) | Hang \<Rightarrow> Some (Hang, snd out)
      else Some (Ret buf, s)) = Some y"
  have "keeps_files (read_fixed_size_blocks_to_buffer ops (min m (n - length buf)) p b)"
    unfolding read_fixed_size_blocks_to_buffer_def Let_def by (intro keep_rules)
  with 1 show "open_files (snd y) = open_files s"
    by (auto simp: Let_def keeps_files_def split: if_splits res.splits)
qed

lemma keeps_read_blocks [keep_rules]: "keeps_files (read_fixed_size_blocks_to_buffer_limited_paralelization ops n p b)"
  by (auto simp: keeps_files_def read_fixed_size_blocks_to_buffer_limited_paralelization_def dest: keeps_read_limited split: option.splits)

lemma keeps_host [keep_rules]: "keeps_files (host_call x)" "keeps_files (zero_or_errno r)"
  by (auto simp: host_call_def zero_or_errno_def intro: keep_rules split: sum.splits)

lemma keeps_getattr [keep_rules]: "keeps_files (fs_getattr E ops x p st)"
proof -
  have "keeps_files (fbind (host_call x) (\<lambda>res. fbind (zero_or_errno res) (\<lambda>r. freturn (r, if res = 0 then host_stat x else st))))"
    by (intro keep_rules)
  moreover have "keeps_files (try_catch False (fbind (get_stored_stat E ops p) (\<lambda>met_attr.
      case met_attr of None \<Rightarrow> fbind minus_errno (\<lambda>r. freturn (r, st)) | Some (st, _) \<Rightarrow> freturn (0, st)))
      (fbind minus_errno (\<lambda>r. freturn (r, st))))"
    unfolding get_stored_stat_def by (intro keep_rules)
  ultimately show ?thesis by (auto simp: keeps_files_def fs_getattr_def split: option.splits prod.splits)
qed

lemma keeps_read [keep_rules]: "keeps_files (fs_read E ops x p n off)"
proof (induction "off mod BLK_SIZE" arbitrary: n off rule: less_induct)
  case less
  have "keeps_files (fs_read E ops x p BLK_SIZE (off div BLK_SIZE * BLK_SIZE))" if "off mod BLK_SIZE \<noteq> 0"
    by (rule less) (use that in simp)
  then show ?case unfolding fs_read.simps[of E ops x p n off] Let_def by (intro keep_rules)
qed

lemma keeps_first_block [keep_rules]: "keeps_files (write_first_block E ops x p buf off n v)"
  unfolding write_first_block_def Let_def by (intro keep_rules)

section \<open>What a write leaves behind\<close>

lemma to_size_t_id: "0 \<le> i \<Longrightarrow> i < 2 ^ 64 \<Longrightarrow> to_size_t i = nat i"
  by (simp add: to_size_t_def)

lemma to_int32_id: "0 \<le> i \<Longrightarrow> i < 2 ^ 31 \<Longrightarrow> to_int32 i = i"
  by (simp add: to_int32_def)

lemma merge_stat_size: "st_size (fst (merge_stat a b)) = st_size b"
  by (auto simp: merge_stat_def Let_def split: prod.splits if_splits)

lemma merge_stat_modified: "st_size a \<noteq> st_size b \<Longrightarrow> snd (merge_stat a b)"
  by (auto simp: merge_stat_def Let_def split: prod.splits if_splits)

lemma fbind_Ret: "fbind m f s = (Ret b, s') \<longleftrightarrow> (\<exists>a s1. m s = (Ret a, s1) \<and> f a s1 = (Ret b, s'))"
  by (auto simp: fbind_def split: prod.splits res.splits)

lemma keepsD: "keeps_files m \<Longrightarrow> m s = (r, s') \<Longrightarrow> open_files s' = open_files s"
  by (metis keeps_files_def snd_conv)

lemma errno_of_pos: "errno_of w e = Some n \<Longrightarrow> 0 < n"
  by (cases e) (auto simp: EAGAIN_def EPERM_def EHOSTUNREACH_def split: if_splits)

lemma try_Ret:
  assumes "try_catch w m minus_errno s = (Ret r, s')" "0 \<le> r"
  shows "m s = (Ret r, s')"
  using assms errno_of_pos[of w] by (auto simp: try_catch_def minus_errno_def split: prod.splits res.splits option.splits) fastforce

lemma put_limited_zero: "put_limited ops m buf p b v s = (Ret r, s') \<Longrightarrow> r = 0"
proof (induction "length buf" arbitrary: buf b s rule: less_induct)
  case less
  from less.prems[unfolded put_limited.simps[of ops m buf p b v]] less.hyps[of "drop (min m (length buf)) buf"] show ?case
    by (auto simp: Let_def freturn_def fres_def fbind_Ret put_fixed_size_blocks_from_buffer_def split: if_splits)
qed

lemma first_block_error: "write_first_block E ops x p buf off n v s = (Ret (Inl r), s') \<Longrightarrow> r < 0"
  by (auto simp: write_first_block_def Let_def freturn_def fbind_Ret put_block_def set_errno_def minus_errno_def EPERM_def split: if_splits)

lemma getattr_open:
  "open_files s p = Some f \<Longrightarrow> \<not> is_temp_file (regex_search E) p \<Longrightarrow> fs_getattr E ops x p st s = (Ret (0, of_stat f), s)"
  by (simp add: fs_getattr_def get_metadata_if_file_opened_def)

lemma write_open:
  assumes "open_files s p = Some f" "\<not> is_temp_file (regex_search E) p" "fs_write E ops x p buf off s = (Ret r, s')" "0 \<le> r"
  defines "n \<equiv> to_size_t (st_size (of_stat f))"
  shows "\<exists>k b s1 s2. write_first_block E ops x p buf off n (of_version f) s = (Ret (Inr (k, b)), s1) \<and>
      put_fixed_size_blocks_from_buffer_limited_paralelization ops (drop k buf) p b (of_version f) s1 = (Ret 0, s2) \<and>
      r = to_int32 (int (length buf)) \<and>
      s' = snd (update_open_file_metadata p (written_stat (max n (off + length buf)) b (realtime x) (of_stat f)) s2)"
proof -
  have mx: "(if b < a then a else b) = max a b" for a b :: nat by simp
  have "try_catch True (fbind (write_first_block E ops x p buf off n (of_version f)) (\<lambda>first. case first of Inl r \<Rightarrow> freturn r
      | Inr (k, b) \<Rightarrow> fbind (put_fixed_size_blocks_from_buffer_limited_paralelization ops (drop k buf) p b (of_version f))
          (\<lambda>res. if res = -1 then minus_errno else (\<lambda>s. (Ret (to_int32 (int (length buf))),
             snd (update_open_file_metadata p (written_stat (max n (off + length buf)) b (realtime x) (of_stat f)) s))))))
      minus_errno s = (Ret r, s')"
    unfolding n_def using assms(3) getattr_open[OF assms(1,2)] assms(1,2)
    by (simp add: fs_write_def fbind_def get_version_if_file_opened_def Let_def mx cong: if_cong)
  from try_Ret[OF this assms(4)] obtain first s1 where
    w: "write_first_block E ops x p buf off n (of_version f) s = (Ret first, s1)"
      "(case first of Inl r \<Rightarrow> freturn r
        | Inr (k, b) \<Rightarrow> fbind (put_fixed_size_blocks_from_buffer_limited_paralelization ops (drop k buf) p b (of_version f))
            (\<lambda>res. if res = -1 then minus_errno else (\<lambda>s. (Ret (to_int32 (int (length buf))),
               snd (update_open_file_metadata p (written_stat (max n (off + length buf)) b (realtime x) (of_stat f)) s))))) s1 = (Ret r, s')"
    by (subst (asm) fbind_Ret) blast
  show ?thesis
  proof (cases first)
    case (Inl r')
    then show ?thesis using w first_block_error assms(4) by (fastforce simp: freturn_def)
  next
    case (Inr kb)
    obtain k b where kb: "kb = (k, b)" by fastforce
    obtain res s2 where r: "put_fixed_size_blocks_from_buffer_limited_paralelization ops (drop k buf) p b (of_version f) s1 = (Ret res, s2)"
      "(if res = -1 then minus_errno else (\<lambda>s. (Ret (to_int32 (int (length buf))),
         snd (update_open_file_metadata p (written_stat (max n (off + length buf)) b (realtime x) (of_stat f)) s)))) s2 = (Ret r, s')"
      using w(2) Inr kb by (auto simp: fbind_Ret)
    have "res = 0" using put_limited_zero r(1) by (simp add: put_fixed_size_blocks_from_buffer_limited_paralelization_def)
    with w(1) r Inr kb show ?thesis by (intro exI[of _ k] exI[of _ b] exI[of _ s1] exI[of _ s2]) simp
  qed
qed

text \<open>
  C14. Reading one's own writes. When a write to an open file returns no error, it reports the whole buffer, the file's size is the
  larger of the old size and the end of the write, the file is marked for flushing if its size changed, no other open file changes, and
  \<^verbatim>\<open>_getattr\<close> answers with the new size without asking the network.
\<close>

theorem write_then_getattr:
  assumes "open_files s p = Some f" "\<not> is_temp_file (regex_search E) p" "fs_write E ops x p buf off s = (Ret r, s')" "0 \<le> r"
    and "length buf < 2 ^ 31" "0 \<le> st_size (of_stat f)" "st_size (of_stat f) < 2 ^ 63"
  shows "r = int (length buf) \<and>
    (\<exists>f'. open_files s' = (open_files s)(p \<mapsto> f') \<and> st_size (of_stat f') = max (st_size (of_stat f)) (int (off + length buf)) \<and>
      (st_size (of_stat f') \<noteq> st_size (of_stat f) \<longrightarrow> access_t f' \<noteq> ACCESSED) \<and>
      fs_getattr E ops x' p st s' = (Ret (0, of_stat f'), s'))"
proof -
  let ?n = "to_size_t (st_size (of_stat f))"
  obtain k b s1 s2 where w: "write_first_block E ops x p buf off ?n (of_version f) s = (Ret (Inr (k, b)), s1)"
    "put_fixed_size_blocks_from_buffer_limited_paralelization ops (drop k buf) p b (of_version f) s1 = (Ret 0, s2)"
    "r = to_int32 (int (length buf))"
    "s' = snd (update_open_file_metadata p (written_stat (max ?n (off + length buf)) b (realtime x) (of_stat f)) s2)"
    using write_open[OF assms(1-4)] by blast
  have o: "open_files s2 = open_files s" using keepsD[OF keeps_first_block w(1)] keepsD[OF keeps_put_blocks w(2)] by simp
  let ?st = "written_stat (max ?n (off + length buf)) b (realtime x) (of_stat f)"
  let ?acc = "if snd (merge_stat (of_stat f) ?st) \<and> access_t f = ACCESSED then MODIFIED else access_t f"
  let ?f = "f\<lparr>of_stat := fst (merge_stat (of_stat f) ?st), access_t := ?acc\<rparr>"
  have n: "int ?n = st_size (of_stat f)" using assms(6,7) by (simp add: to_size_t_id)
  have s': "s' = s2\<lparr>open_files := (open_files s)(p \<mapsto> ?f)\<rparr>"
    using w(4) o assms(1) by (simp add: update_open_file_metadata_def Let_def case_prod_unfold)
  have sz: "st_size ?st = max (st_size (of_stat f)) (int (off + length buf))"
    using n by (simp add: written_stat_def Let_def max_def)
  have f': "fs_getattr E ops x' p st s' = (Ret (0, of_stat ?f), s')" by (rule getattr_open[OF _ assms(2)]) (simp add: s')
  have acc: "st_size (of_stat ?f) \<noteq> st_size (of_stat f) \<longrightarrow> access_t ?f \<noteq> ACCESSED"
    using merge_stat_modified[of "of_stat f" ?st] by (auto simp: merge_stat_size)
  show ?thesis
    by (intro conjI exI[of _ ?f]) (use w(3) assms(5) sz f' acc in \<open>simp_all add: s' merge_stat_size to_int32_id\<close>)
qed

text \<open>A client in memory, to run the calls on concrete inputs: the latest bytes of every key.\<close>

definition mem_ops :: "(string \<Rightarrow> bytes option) client_ops" where
  "mem_ops =
     \<lparr>co_put = \<lambda>k v t d m. (Ret (), m(k \<mapsto> d)),
      co_put_batch = \<lambda>items m. (Ret (), fold (\<lambda>(k, d) m. m(key k \<mapsto> d)) items m),
      co_put_child = \<lambda>k v ch b d m. (Ret (), m),
      co_del = \<lambda>k v t m. (Ret (), m(k := None)),
      co_get_latest_batch = \<lambda>ks m. ((Ret (), map m ks), m),
      co_get_latest_version = \<lambda>k m. (Ret (map_option (\<lambda>_. default_version) (m k)), m),
      co_get_latest_metadata_size = \<lambda>k g v m. ((Ret (map_option (\<lambda>d. to_string (int (length d))) (m k)), Ok, v), m),
      co_get_latest_metadata_stat = \<lambda>k g v m. ((Ret (m k), Ok, v), m),
      co_get_metadata_batch = \<lambda>ks mx g m. ((Ret (), Ok, map (\<lambda>k. m (key k)) ks), m)\<rparr>"

definition sample_sys :: sys_env where
  "sample_sys = \<lparr>ctx_uid = 0, ctx_gid = 0, ctx_umask = 0, impersonate_error = None, realtime = \<lparr>tv_sec = 1, tv_nsec = 0\<rparr>,
     monotonic = \<lparr>tv_sec = 1, tv_nsec = 0\<rparr>, host_result = Inr 0, host_stat = zero_stat, host_data = [], junk = \<lambda>_. CHR ''?'', stat_junk = zero_stat\<rparr>"

text \<open>One open file of the given size, and no directory in the cache.\<close>

definition sample_fs :: "'c \<Rightarrow> nat \<Rightarrow> FileAccess \<Rightarrow> 'c lsfs_state" where
  "sample_fs c n acc =
     \<lparr>open_files = [''/f'' \<mapsto> \<lparr>access_t = acc, of_stat = zero_stat\<lparr>st_size := int n\<rparr>, of_version = default_version\<rparr>],
      cache = \<lparr>dir_cache_list = [], dir_cache_map = [], dir_cache_map_mutex = {}, next_node = 0, max_directories_in_cache = 2\<rparr>,
      refresh_cache_time = 0, df_client = c, max_parallel_write_size = BLK_SIZE, max_parallel_read_size = BLK_SIZE, use_cache = False,
      max_nr_requests_timeout = 2, cache_max_nr_requests_timeout = 2, errno = 0\<rparr>"

definition no_regex :: "'d env \<Rightarrow> 'd env" where
  "no_regex E = E\<lparr>regex_search := \<lambda>_ _. None\<rparr>"

lemma no_temp [simp]: "\<not> is_temp_file (regex_search (no_regex E)) p"
  by (simp add: is_temp_file_def no_regex_def)

lemma blk_key_0: "blk_key p 0 = p @ '':0''"
proof -
  have "to_string 0 = ''0''" by code_simp
  then show ?thesis by (simp add: blk_key_def blk_path_def)
qed

lemma small_write:
  assumes "buf \<noteq> []" "length buf \<le> BLK_SIZE"
  shows "put_limited ops BLK_SIZE buf p b v = fbind (call_client (co_put_batch ops [(\<lparr>key = blk_key p (b + 1), version = v, f_type = FILE,
    is_deleted = False\<rparr>, buf)])) (\<lambda>_. freturn 0)"
proof -
  have "put_limited ops BLK_SIZE [] p b' v = freturn 0" for b' by (simp add: put_limited.simps)
  then show ?thesis using put_limited_step[OF assms(1) BLK_SIZE_pos, of ops p b v] assms by (simp add: write_blks_Cons)
qed

text \<open>A write of at most a block to the beginning of an open file, with a client that loses nothing.\<close>

lemma mem_write:
  assumes "buf \<noteq> []" "length buf \<le> BLK_SIZE" "open_files s p = Some f" "\<not> is_temp_file (regex_search E) p"
    and "0 \<le> st_size (of_stat f)" "st_size (of_stat f) < 2 ^ 63" "max_parallel_write_size s = BLK_SIZE"
  shows "\<exists>f'. fs_write E mem_ops x p buf 0 s = (Ret (int (length buf)), s\<lparr>df_client := (df_client s)(blk_key p 0 \<mapsto> buf),
      open_files := (open_files s)(p \<mapsto> f')\<rparr>) \<and> st_size (of_stat f') = max (st_size (of_stat f)) (int (length buf))"
proof -
  have b: "length buf < 2 ^ 31" using assms(2) by (simp add: BLK_SIZE_def)
  let ?n = "nat (st_size (of_stat f))"
  have "fs_write E mem_ops x p buf 0 s = (Ret (int (length buf)),
     snd (update_open_file_metadata p (written_stat (max ?n (length buf)) (-1) (realtime x) (of_stat f))
       (s\<lparr>df_client := (df_client s)(blk_key p 0 \<mapsto> buf)\<rparr>)))"
    using assms(3-7) b
    by (simp add: fs_write_def fbind_def getattr_open get_version_if_file_opened_def Let_def try_catch_def write_first_block_def freturn_def
        put_fixed_size_blocks_from_buffer_limited_paralelization_def small_write[OF assms(1,2)] call_client_def on_client_def fres_def mem_ops_def
        to_size_t_id to_int32_id max_def not_less)
  then show ?thesis using assms(3,5)
    by (intro exI conjI) (auto simp: update_open_file_metadata_def Let_def case_prod_unfold merge_stat_size written_stat_def max_def)
qed

theorem write_then_getattr_witness:
  "\<exists>s' f'. fs_write (no_regex ref_env) mem_ops sample_sys ''/f'' ''abc'' 0 (sample_fs Map.empty 0 CREATED) = (Ret 3, s') \<and>
     open_files s' ''/f'' = Some f' \<and> st_size (of_stat f') = 3"
proof -
  let ?s = "sample_fs Map.empty 0 CREATED"
  let ?f = "\<lparr>access_t = CREATED, of_stat = zero_stat\<lparr>st_size := 0\<rparr>, of_version = default_version\<rparr>"
  have o: "open_files ?s ''/f'' = Some ?f" "max_parallel_write_size ?s = BLK_SIZE" by (simp_all add: sample_fs_def)
  have "''abc'' \<noteq> []" "length ''abc'' \<le> BLK_SIZE" "0 \<le> st_size (of_stat ?f)" "st_size (of_stat ?f) < 2 ^ 63" by (simp_all add: BLK_SIZE_def)
  from mem_write[OF this(1,2) o(1) no_temp this(3,4) o(2), of ref_env sample_sys]
  obtain s' where w: "fs_write (no_regex ref_env) mem_ops sample_sys ''/f'' ''abc'' 0 ?s = (Ret 3, s')" by auto
  from write_then_getattr[OF o(1) no_temp w, of sample_sys zero_stat] show ?thesis using w by (auto simp: zero_stat_def)
qed

lemma read_limited_one_byte:
  assumes "df_client s (blk_key p 0) = Some [c]" "n \<le> BLK_SIZE" "length buf \<le> n"
  shows "read_limited mem_ops BLK_SIZE n p (-1) buf s = Some (Ret (buf @ replicate (n - length buf) c), s)"
  using assms(3)
proof (induction "n - length buf" arbitrary: buf)
  case (Suc k)
  let ?m = "min BLK_SIZE (n - length buf)"
  have m: "?m = Suc k" using Suc.hyps(2) assms(2) by simp
  have nb: "NR_BLKS ?m = 1"
  proof (rule antisym)
    show "NR_BLKS ?m \<le> 1" by (rule NR_BLKS_least) simp
    show "1 \<le> NR_BLKS ?m" using NR_BLKS_step[of ?m] m by simp
  qed
  have "read_fixed_size_blocks_to_buffer mem_ops ?m p (-1) s = (Ret [c], s)"
    unfolding read_fixed_size_blocks_to_buffer_def NR_BLKS_alt nb Let_def using assms(1) m
    by (simp add: fbind_def on_client_def mem_ops_def freturn_def fres_def)
  moreover have "replicate (n - length buf) c = c # replicate (n - length (buf @ [c])) c" using Suc.hyps(2) by (metis Suc_diff_Suc diff_Suc_1 length_append_singleton nat.simps(3) replicate_Suc zero_less_Suc zero_less_diff)
  ultimately show ?case using Suc.hyps(1)[of "buf @ [c]"] Suc.hyps(2) Suc.prems
    by (subst read_limited.simps) (simp add: BLK_SIZE_def)
qed (simp add: read_limited.simps)

text \<open>
  C37. A short write corrupts the rest of the block. Overwriting the first byte of a file of at most one block replaces the whole stored
  block by that byte, and the next read of the file returns that byte over and over, without an error. This happens with a client that
  loses nothing.
\<close>

theorem short_overwrite_repeats:
  assumes "open_files s p = Some f" "\<not> is_temp_file (regex_search E) p" "st_size (of_stat f) = int n" "0 < n" "n \<le> BLK_SIZE"
    and "max_parallel_write_size s = BLK_SIZE" "max_parallel_read_size s = BLK_SIZE"
  shows "\<exists>s'. fs_write E mem_ops x p [c] 0 s = (Ret 1, s') \<and> df_client s' = (df_client s)(blk_key p 0 \<mapsto> [c]) \<and>
    fs_read E mem_ops x' p n 0 s' = (Ret (int n, replicate n c), s')"
proof -
  have nb: "int n < 2 ^ 31" using assms(5) by (simp add: BLK_SIZE_def)
  obtain f' where w: "fs_write E mem_ops x p [c] 0 s = (Ret 1, s\<lparr>df_client := (df_client s)(blk_key p 0 \<mapsto> [c]),
      open_files := (open_files s)(p \<mapsto> f')\<rparr>)" and f': "st_size (of_stat f') = int n"
    using mem_write[of "[c]" s p f E x] assms by (auto simp: BLK_SIZE_def)
  let ?s' = "s\<lparr>df_client := (df_client s)(blk_key p 0 \<mapsto> [c]), open_files := (open_files s)(p \<mapsto> f')\<rparr>"
  have r: "read_limited mem_ops BLK_SIZE n p (-1) [] ?s' = Some (Ret (replicate n c), ?s')"
    using read_limited_one_byte[of ?s' p c n "[]"] assms(5) by simp
  have "fs_read E mem_ops x' p n 0 ?s' = (Ret (int n, replicate n c), ?s')"
    using assms(2,4,7) f' nb r
    by (subst fs_read.simps)
      (simp add: fbind_def getattr_open[where f = f'] Let_def try_catch_def freturn_def to_size_t_id to_int32_id
        read_fixed_size_blocks_to_buffer_limited_paralelization_def)
  with w show ?thesis by auto
qed

theorem short_overwrite_repeats_witness:
  "\<exists>s'. fs_write (no_regex ref_env) mem_ops sample_sys ''/f'' ''X'' 0 (sample_fs [''/f:0'' \<mapsto> ''abc''] 3 ACCESSED) = (Ret 1, s') \<and>
    fs_read (no_regex ref_env) mem_ops sample_sys ''/f'' 3 0 s' = (Ret (3, ''XXX''), s')"
proof -
  let ?s = "sample_fs [''/f:0'' \<mapsto> ''abc''] 3 ACCESSED"
  let ?f = "\<lparr>access_t = ACCESSED, of_stat = zero_stat\<lparr>st_size := 3\<rparr>, of_version = default_version\<rparr>"
  have o: "open_files ?s ''/f'' = Some ?f" "max_parallel_write_size ?s = BLK_SIZE" "max_parallel_read_size ?s = BLK_SIZE"
    by (simp_all add: sample_fs_def)
  have "replicate 3 CHR ''X'' = ''XXX''" by (simp add: numeral_eq_Suc)
  with short_overwrite_repeats[OF o(1) no_temp _ _ _ o(2,3), of 3 ref_env sample_sys "CHR ''X''" sample_sys] show ?thesis
    by (auto simp: BLK_SIZE_def)
qed

section \<open>Errors\<close>

text \<open>
  What a system call owes its caller about the exceptions of the client library. \<open>fn_raised\<close> lists those that the client's functions have
  thrown. When there are none, \<open>Q\<close> describes the result, and the only exceptions are those of \<open>F\<close>. A timeout, an empty view and a concurrent
  write become \<^verbatim>\<open>EHOSTUNREACH\<close>, \<^verbatim>\<open>EAGAIN\<close> and \<^verbatim>\<open>EPERM\<close>; \<open>code\<close> is the number that the call returns. Any other exception leaves the call.
\<close>

definition told :: "('a \<Rightarrow> int) \<Rightarrow> ('a \<Rightarrow> fs_net lsfs_state \<Rightarrow> bool) \<Rightarrow> exn set \<Rightarrow> 'a res \<times> fs_net lsfs_state \<Rightarrow> bool" where
  "told code Q F = (\<lambda>(out, s).
     let returns = (\<lambda>n. case out of Ret a \<Rightarrow> code a = - n \<and> errno s = n | _ \<Rightarrow> False) in
     case fn_raised (df_client s) of
       [] \<Rightarrow> (case out of Ret a \<Rightarrow> Q a s | Throw e \<Rightarrow> e \<in> F | Hang \<Rightarrow> True)
     | [e] \<Rightarrow>
         if e = TimeoutException then returns EHOSTUNREACH
         else if e = EmptyViewException then returns EAGAIN
         else if e = ConcurrentWritesSameKeyException then returns EPERM
         else out = Throw e
     | _ \<Rightarrow> False)"

definition format_errors :: "exn set" where
  "format_errors = {Archive_exception, Invalid_argument, Out_of_range}"

lemma frep_told:
  assumes "frep calm raised (\<lambda>a n. code a = - n) Q X out" "\<And>e. (Own, e) \<in> X \<Longrightarrow> e \<in> F"
  shows "told code Q F out"
proof -
  obtain r s where out: "out = (r, s)" by fastforce
  have n: "errno_of True e = None \<longleftrightarrow> e \<notin> {TimeoutException, EmptyViewException, ConcurrentWritesSameKeyException}"
    "errno_of True TimeoutException = Some EHOSTUNREACH" "errno_of True EmptyViewException = Some EAGAIN"
    "errno_of True ConcurrentWritesSameKeyException = Some EPERM" for e
    by (cases e) auto
  show ?thesis
  proof (cases r)
    case (Ret a)
    then consider "calm (df_client s)" "Q a s" | e where "raised e (df_client s)" "errno_of True e = Some (errno s)" "code a = - errno s"
      using assms(1) out by auto
    then show ?thesis
    proof cases
      case 2
      then have "e \<in> {TimeoutException, EmptyViewException, ConcurrentWritesSameKeyException}" using n(1)[of e] by auto
      then show ?thesis using 2 out Ret by (auto simp: told_def raised_def)
    qed (use out Ret in \<open>auto simp: told_def calm_def\<close>)
  next
    case (Throw e)
    then show ?thesis using assms out n(1)[of e] by (auto simp: told_def calm_def raised_def)
  qed (use assms out in \<open>auto simp: told_def calm_def\<close>)
qed

lemma told_calls:
  assumes "calm (df_client s)"
  shows "freports calm raised (\<lambda>_. True) m neg_errno Q {} \<Longrightarrow> told (\<lambda>r. r) Q {} (m s)"
    and "freports calm raised (\<lambda>_. True) m neg_errno Q format_exns \<Longrightarrow> told (\<lambda>r. r) Q format_errors (m s)"
    and "freports calm raised (\<lambda>_. True) m' neg_errno_fst Q' format_exns \<Longrightarrow> told fst Q' format_errors (m' s)"
  using assms by (auto intro!: frep_told dest!: freportsD simp: format_exns_def format_errors_def)

text \<open>
  C12. Errors of the client library reach the caller as the right \<^verbatim>\<open>errno\<close>. Let the client of this development have thrown nothing so far, and let the
  load balancer not throw the exception for concurrent writes, which it never does. If a function of the client throws during the call, then at most once, and a
  timeout makes the call return \<^verbatim>\<open>-EHOSTUNREACH\<close>, an empty view \<^verbatim>\<open>-EAGAIN\<close>, a concurrent write \<^verbatim>\<open>-EPERM\<close>; any other exception, such as
  the texts that the load balancers throw, leaves the call unhandled. If none throws, the call returns 0, or what it wrote or read, or the negated
  \<^verbatim>\<open>errno\<close>. Flushing, closing, syncing, unlinking and making a directory throw nothing of their own; the calls that read stored
  metadata also throw when it is malformed. Opening is without \<^verbatim>\<open>O_TRUNC\<close> and writing at a block boundary: there the code ignores a failed call.
\<close>

theorem syscalls_report_errors:
  fixes s :: "fs_net lsfs_state" and conf :: client_conf
  assumes "net_ok (df_client s)" "fn_raised (df_client s) = []"
  shows "(\<forall>m \<in> {fs_flush E (ops_of_client conf) p, fs_release E (ops_of_client conf) x p, fs_fsync E (ops_of_client conf) x p,
        fs_unlink E (ops_of_client conf) p, fs_mkdir E (ops_of_client conf) x p mode}. told (\<lambda>r. r) reported {} (m s)) \<and>
    (\<forall>m \<in> {fs_rmdir E (ops_of_client conf) p, fs_truncate E (ops_of_client conf) x p n, fs_utimens E (ops_of_client conf) x p t t'}.
        told (\<lambda>r. r) reported format_errors (m s)) \<and>
    told fst reported_fst format_errors (fs_getattr E (ops_of_client conf) x p st s) \<and>
    told fst reported_fst format_errors (fs_readdir E (ops_of_client conf) x p s) \<and>
    (and (fi_flags fi) O_TRUNC = 0 \<longrightarrow> told fst reported_fst format_errors (fs_open E (ops_of_client conf) x p fi s)) \<and>
    (\<not> is_temp_file (regex_search E) p \<longrightarrow> told fst read_bytes format_errors (fs_read E (ops_of_client conf) x p n off s)) \<and>
    (\<not> is_temp_file (regex_search E) p \<and> off mod BLK_SIZE = 0 \<longrightarrow>
       told (\<lambda>r. r) (wrote (length buf)) format_errors (fs_write E (ops_of_client conf) x p buf off s))"
proof -
  have c: "calm (df_client s)" using assms by (simp add: calm_def)
  note own = told_calls(1)[OF c fs.fs_flush_reports] told_calls(1)[OF c fs.fs_release_reports] told_calls(1)[OF c fs.fs_fsync_reports]
    told_calls(1)[OF c fs.fs_unlink_reports] told_calls(1)[OF c fs.fs_mkdir_reports]
  note stored = told_calls(2)[OF c fs.fs_rmdir_reports] told_calls(2)[OF c fs.fs_truncate_reports] told_calls(2)[OF c fs.fs_utimens_reports]
    told_calls(3)[OF c fs.fs_getattr_reports] told_calls(3)[OF c fs.fs_readdir_reports] told_calls(3)[OF c fs.fs_open_reports]
    told_calls(3)[OF c fs.fs_read_reports] told_calls(2)[OF c fs.fs_write_reports]
  show ?thesis by (simp add: own stored)
qed

definition sample_net :: "exn \<Rightarrow> fs_net" where
  "sample_net e = \<lparr>fn_client = sample_client, fn_script = [[\<lambda>_. (sample_io True [])\<lparr>io_lb := \<lambda>_. Throw e\<rparr>]], fn_sent = [], fn_raised = []\<rparr>"

definition sample_conf :: client_conf where
  "sample_conf = \<lparr>nr_puts_required = 1, nr_gets_required = 1, nr_gets_version_required = 1\<rparr>"

lemma sample_put_throws:
  "fst (co_put (ops_of_client sample_conf) ''/f'' default_version FILE d (sample_net e)) = Throw e"
  by (simp add: ops_of_client_def run_write_def single_ios_def next_script_def sample_net_def client_put_def Let_def sample_client_def
      register_put_def empty_handler_def tick_def receive_replies_def sample_io_def choose_peers_def returned_def split: prod.splits)

text \<open>The sample file is flushed while the load balancer throws \<open>e\<close>.\<close>

lemma sample_flush:
  "fst (fs_flush (no_regex E) (ops_of_client sample_conf) ''/f'' (sample_fs (sample_net e) 3 MODIFIED)) =
     (case errno_of True e of None \<Rightarrow> Throw e | Some n \<Rightarrow> Ret (- n))"
proof -
  let ?d = "enc_metadata (no_regex E) (metadata_of_attr (zero_stat\<lparr>st_size := 3\<rparr>))"
  obtain n' where p: "co_put (ops_of_client sample_conf) ''/f'' default_version FILE ?d (sample_net e) = (Throw e, n')"
    by (cases "co_put (ops_of_client sample_conf) ''/f'' default_version FILE ?d (sample_net e)")
      (use sample_put_throws[of ?d e] in simp)
  show ?thesis
    by (simp add: fs_flush_def try_catch_def flush_open_file_def sample_fs_def put_file_metadata_version_def put_block_def fbind_def
        call_client_def on_client_def fres_def p minus_errno_def split: option.splits)
qed

theorem syscalls_report_errors_witness:
  "\<exists>s'. fs_flush (no_regex ref_env) (ops_of_client sample_conf) ''/f'' (sample_fs (sample_net EmptyViewException) 3 MODIFIED) =
     (Ret (- EAGAIN), s') \<and> told (\<lambda>r. r) reported {} (Ret (- EAGAIN), s')"
proof -
  let ?s = "sample_fs (sample_net EmptyViewException) 3 MODIFIED"
  have "net_ok (df_client ?s)" "fn_raised (df_client ?s) = []"
    by (simp_all add: sample_fs_def net_ok_def sample_net_def lb_ok_def reading_def)
  from syscalls_report_errors[OF this, where E = "no_regex ref_env" and conf = sample_conf and p = "''/f''"]
  have "told (\<lambda>r. r) reported {} (fs_flush (no_regex ref_env) (ops_of_client sample_conf) ''/f'' ?s)" by simp
  moreover obtain s' where "fs_flush (no_regex ref_env) (ops_of_client sample_conf) ''/f'' ?s = (Ret (- EAGAIN), s')"
    using sample_flush[of ref_env EmptyViewException] by (metis errno_of.simps(1) option.simps(5) prod.collapse)
  ultimately show ?thesis by simp
qed

section \<open>Open files\<close>

lemma flush_files:
  assumes "open_files s p = Some f" "flush_open_file E ops p s = (out, s')"
  shows "open_files s' = (if out = Ret 0 then (open_files s)(p \<mapsto> f\<lparr>access_t := ACCESSED\<rparr>) else open_files s)"
proof -
  have acc: "open_files s2 = (if out = Ret 0 then (open_files s)(p \<mapsto> f\<lparr>access_t := ACCESSED\<rparr>) else open_files s)"
    if "keeps_files m" "fbind m (\<lambda>res. if res \<noteq> 0 then freturn res else set_accessed p) s = (out, s2)" for m s2
  proof -
    obtain r s1 where m: "m s = (r, s1)" by fastforce
    then have "open_files s1 = open_files s" by (rule keepsD[OF that(1)])
    then show ?thesis using that(2) m assms(1) by (auto simp: fbind_def freturn_def set_accessed_def split: res.splits if_splits)
  qed
  let ?send = "put_file_metadata_version E ops (metadata_of_attr (of_stat f)) p (of_version f)"
  have send: "keeps_files ?send" unfolding put_file_metadata_version_def by (rule keep_rules)
  show ?thesis
  proof (cases "access_t f")
    case CREATED
    have "fbind (fbind ?send (\<lambda>res. if res \<noteq> 0 then freturn res else add_child_to_parent_dir E ops p False))
        (\<lambda>res. if res \<noteq> 0 then freturn res else set_accessed p) s = (out, s')"
      using assms CREATED by (auto simp: flush_open_file_def fbind_def freturn_def split: prod.splits res.splits if_splits)
    then show ?thesis by (rule acc[rotated]) (intro keep_rules send)
  next
    case MODIFIED
    then have "fbind ?send (\<lambda>res. if res \<noteq> 0 then freturn res else set_accessed p) s = (out, s')"
      using assms by (simp add: flush_open_file_def)
    then show ?thesis by (rule acc[rotated, OF _ send])
  next
    case ACCESSED
    then show ?thesis using assms by (auto simp: flush_open_file_def set_accessed_def)
  qed
qed

text \<open>
  C15. Closing a file forgets it only after its metadata has been stored. When the release of an open file returns 0, flushing the file
  succeeded and the file, and only it, is no longer open. When the release fails, whether by an error of the parent directory or by an
  exception of the client, all open files and what is still to be flushed of them stay as they were, so the release can be repeated.
\<close>

theorem release_forgets_only_flushed:
  assumes "open_files s p = Some f" "\<not> is_temp_file (regex_search E) p" "fs_release E ops x p s = (Ret r, s')"
  shows "if r = 0 then (\<exists>s1. flush_open_file E ops p s = (Ret 0, s1)) \<and> open_files s' = (open_files s)(p := None)
    else open_files s' = open_files s"
proof -
  obtain out s1 where fl: "flush_open_file E ops p s = (out, s1)" by fastforce
  note files = flush_files[OF assms(1) fl]
  have rel: "try_catch True (flush_and_release_open_file E ops p) minus_errno s = (Ret r, s')"
    using assms(2,3) by (simp add: fs_release_def)
  show ?thesis
  proof (cases out)
    case (Ret a)
    then show ?thesis using rel fl files
      by (auto simp: try_catch_def flush_and_release_open_file_def fbind_def freturn_def split: if_splits)
  next
    case (Throw e)
    then show ?thesis using rel fl files errno_of_pos[of True e]
      by (auto simp: try_catch_def flush_and_release_open_file_def fbind_def minus_errno_def split: option.splits)
  next
    case Hang
    then show ?thesis using rel fl by (simp add: try_catch_def flush_and_release_open_file_def fbind_def)
  qed
qed

theorem release_forgets_only_flushed_witness:
  "\<exists>s'. fs_release (no_regex ref_env) mem_ops sample_sys ''/f'' (sample_fs Map.empty 3 MODIFIED) = (Ret 0, s') \<and> open_files s' = Map.empty"
proof -
  let ?s = "sample_fs Map.empty 3 MODIFIED"
  have o: "open_files ?s ''/f'' = Some \<lparr>access_t = MODIFIED, of_stat = zero_stat\<lparr>st_size := 3\<rparr>, of_version = default_version\<rparr>"
    by (simp add: sample_fs_def)
  obtain s' where "fs_release (no_regex ref_env) mem_ops sample_sys ''/f'' ?s = (Ret 0, s')"
    by (simp add: fs_release_def try_catch_def flush_and_release_open_file_def flush_open_file_def sample_fs_def put_file_metadata_version_def
        put_block_def fbind_def call_client_def on_client_def fres_def mem_ops_def freturn_def set_accessed_def)
  with release_forgets_only_flushed[OF o no_temp this] show ?thesis by (auto simp: sample_fs_def)
qed

end
