(* ===== verification/Fs_Behaviour.thy ===== *)
theory Fs_Behaviour
  imports Fs_Spec
begin

text \<open>
  The behaviour of the file system over a client that loses nothing: what is written to a file is read back, a new file is listed by its
  directory, and where the code does not do this.
\<close>

section \<open>Writing and reading\<close>

text \<open>A client that loses nothing: \<open>look\<close> gives the latest bytes of every key, a batch of writes changes them and a batch of reads
  returns them.\<close>

definition stored_items :: "(kv_store_key \<times> bytes) list \<Rightarrow> (string \<Rightarrow> bytes option) \<Rightarrow> string \<Rightarrow> bytes option" where
  "stored_items items m = fold (\<lambda>(k, d) m. m(key k \<mapsto> d)) items m"

definition reliable :: "'c client_ops \<Rightarrow> ('c \<Rightarrow> string \<Rightarrow> bytes option) \<Rightarrow> bool" where
  "reliable ops look \<longleftrightarrow>
     (\<forall>items c. \<exists>c'. co_put_batch ops items c = (Ret (), c') \<and> look c' = stored_items items (look c)) \<and>
     (\<forall>ks c. \<exists>c'. co_get_latest_batch ops ks c = ((Ret (), map (look c) ks), c') \<and> look c' = look c)"

text \<open>Only the client changed.\<close>

definition client_changed :: "'c lsfs_state \<Rightarrow> 'c lsfs_state \<Rightarrow> bool" where
  "client_changed s s' \<longleftrightarrow> (\<exists>c. s' = s\<lparr>df_client := c\<rparr>)"

lemma client_changed_simps [simp]: "client_changed s s" "client_changed s (s\<lparr>df_client := c\<rparr>)"
  by (auto simp: client_changed_def intro: exI[of _ "df_client s"])

lemma client_changed_trans: "client_changed s s1 \<Longrightarrow> client_changed s1 s2 \<Longrightarrow> client_changed s s2"
  by (auto simp: client_changed_def)

lemma client_changedE:
  assumes "client_changed s s'"
  obtains c where "s' = s\<lparr>df_client := c\<rparr>" "df_client s' = c"
  using assms by (auto simp: client_changed_def)

lemma reliable_mem: "reliable mem_ops (\<lambda>m. m)"
  by (simp add: reliable_def mem_ops_def stored_items_def)

lemma stored_items_append [simp]: "stored_items (xs @ ys) m = stored_items ys (stored_items xs m)"
  by (simp add: stored_items_def)

lemma send_batches_reliable:
  assumes "reliable ops look"
  shows "\<exists>s'. send_batches ops bs s = (Ret 0, s') \<and> client_changed s s' \<and>
    look (df_client s') = stored_items (concat bs) (look (df_client s))"
proof (induction bs arbitrary: s)
  case (Cons x bs)
  obtain c' where c: "co_put_batch ops x (df_client s) = (Ret (), c')"
    "look c' = stored_items x (look (df_client s))"
    using assms by (force simp: reliable_def)
  from Cons[of "s\<lparr>df_client := c'\<rparr>"] c show ?case
    by (auto simp: fbind_def call_client_def on_client_def fres_def intro: client_changed_trans[OF client_changed_simps(2)])
qed (simp add: freturn_def stored_items_def)

lemma fold_updates: "distinct (map fst xs) \<Longrightarrow> fold (\<lambda>(k, d) m. m(k \<mapsto> d)) xs m = m ++ map_of xs"
proof (induction xs arbitrary: m)
  case (Cons x xs)
  obtain k d where x: "x = (k, d)" by fastforce
  have "map_of xs k = None" using Cons.prems x by (simp add: map_of_eq_None_iff)
  then show ?case using Cons x by (auto simp: fun_eq_iff map_add_def split: option.splits)
qed simp

lemma put_limited_reliable:
  assumes "reliable ops look" "0 < k" "length buf < 2 ^ 64"
  shows "\<exists>s'. put_limited ops (k * BLK_SIZE) buf p b ver s = (Ret 0, s') \<and> client_changed s s' \<and>
    look (df_client s') = look (df_client s) ++ map_of (map (\<lambda>(k, d). (key k, d)) (write_blks p ver b buf))"
proof -
  obtain bs where bs: "concat bs = write_blks p ver b buf" "put_limited ops (k * BLK_SIZE) buf p b ver = send_batches ops bs"
    using put_limited_batches[OF assms(2), of p ver b buf] by (auto simp: batches_of_def)
  let ?L = "map (\<lambda>(k, d). (key k, d)) (write_blks p ver b buf)"
  have "map fst ?L = read_keys p b (NR_BLKS (length buf))"
    using write_blks_keys[of p ver b buf] by (simp add: case_prod_unfold comp_def)
  moreover have "NR_BLKS (length buf) \<le> 2 ^ 64" by (rule NR_BLKS_least) (use assms(3) in \<open>simp add: BLK_SIZE_def\<close>)
  ultimately have "distinct (map fst ?L)" by (simp add: distinct_read_keys)
  from fold_updates[OF this] have "stored_items (concat bs) m = m ++ map_of ?L" for m
    by (simp add: stored_items_def bs(1) fold_map comp_def case_prod_unfold)
  with send_batches_reliable[OF assms(1), of bs s] bs(2) show ?thesis by simp
qed

lemma read_blocks_reliable:
  assumes "reliable ops look"
  shows "\<exists>s'. read_fixed_size_blocks_to_buffer ops n p b s =
      (Ret (copy_blks n (map (look (df_client s)) (read_keys p b (NR_BLKS n)))), s') \<and> client_changed s s' \<and>
      look (df_client s') = look (df_client s)"
proof -
  obtain c' where "co_get_latest_batch ops (read_keys p b (NR_BLKS n)) (df_client s) =
      ((Ret (), map (look (df_client s)) (read_keys p b (NR_BLKS n))), c')" "look c' = look (df_client s)"
    using assms by (force simp: reliable_def)
  then show ?thesis
    by (simp add: read_fixed_size_blocks_to_buffer_def NR_BLKS_alt Let_def fbind_def on_client_def fres_def freturn_def)
qed

text \<open>The read loop returns the content when all blocks are stored, however it is divided.\<close>

lemma read_limited_reliable:
  assumes "reliable ops look" "0 < k"
    and "\<And>j n. j * BLK_SIZE + n \<le> length content \<Longrightarrow>
      copy_blks n (map m (read_keys p (b + of_nat j) (NR_BLKS n))) = take n (drop (j * BLK_SIZE) content)"
  shows "look (df_client s) = m \<Longrightarrow> j * BLK_SIZE + n \<le> length content \<Longrightarrow>
    \<exists>s'. read_limited ops (k * BLK_SIZE) (length acc + n) p (b + of_nat j) acc s = Some (Ret (acc @ take n (drop (j * BLK_SIZE) content)), s') \<and>
      look (df_client s') = m \<and> client_changed s s'"
proof (induction n arbitrary: j acc s rule: less_induct)
  case (less n)
  let ?xs = "drop (j * BLK_SIZE) content"
  let ?r = "min (k * BLK_SIZE) n"
  show ?case
  proof (cases "n = 0")
    case True
    then show ?thesis using less.prems(1) by (subst read_limited.simps) auto
  next
    case False
    have copy: "copy_blks ?r (map m (read_keys p (b + of_nat j) (NR_BLKS ?r))) = take ?r ?xs" by (rule assms(3)) (use less.prems(2) in simp)
    obtain s1 where s1: "read_fixed_size_blocks_to_buffer ops ?r p (b + of_nat j) s = (Ret (take ?r ?xs), s1)" "client_changed s s1"
      "look (df_client s1) = m"
      using read_blocks_reliable[OF assms(1), of ?r p "b + of_nat j" s] less.prems(1) copy by auto
    have len: "length (take ?r ?xs) = ?r" using less.prems(2) by simp
    have step: "read_limited ops (k * BLK_SIZE) (length acc + n) p (b + of_nat j) acc s =
        read_limited ops (k * BLK_SIZE) (length acc + n) p (b + of_nat j + of_nat (?r div BLK_SIZE)) (acc @ take ?r ?xs) s1"
      by (subst read_limited.simps) (use False s1(1) len in \<open>simp add: Let_def\<close>)
    show ?thesis
    proof (cases "n \<le> k * BLK_SIZE")
      case True
      then have "read_limited ops (k * BLK_SIZE) (length acc + n) p (b + of_nat j + of_nat (?r div BLK_SIZE)) (acc @ take ?r ?xs) s1 =
          Some (Ret (acc @ take n ?xs), s1)"
        using len by (subst read_limited.simps) (simp add: min_absorb2)
      then show ?thesis using step s1 by auto
    next
      case False
      let ?n = "n - k * BLK_SIZE" and ?acc = "acc @ take (k * BLK_SIZE) ?xs"
      have r: "?r = k * BLK_SIZE" using False by simp
      have "?n < n" using False assms(2) by (simp add: BLK_SIZE_def)
      moreover have "(j + k) * BLK_SIZE + ?n \<le> length content" using False less.prems(2) by (simp add: algebra_simps)
      ultimately obtain s' where s': "read_limited ops (k * BLK_SIZE) (length ?acc + ?n) p (b + of_nat (j + k)) ?acc s1 =
          Some (Ret (?acc @ take ?n (drop ((j + k) * BLK_SIZE) content)), s')" "look (df_client s') = m" "client_changed s1 s'"
        using less.IH[of ?n s1 "j + k" ?acc] s1(3) by blast
      moreover have "length ?acc + ?n = length acc + n" using len r False by simp
      moreover have "?acc @ take ?n (drop ((j + k) * BLK_SIZE) content) = acc @ take n ?xs"
        using False take_add[of "k * BLK_SIZE" ?n ?xs] by (simp add: add_mult_distrib add.commute)
      moreover have "b + of_nat j + of_nat (?r div BLK_SIZE) = b + of_nat (j + k)" using r by (simp add: add.assoc)
      ultimately have "read_limited ops (k * BLK_SIZE) (length acc + n) p (b + of_nat j + of_nat (?r div BLK_SIZE)) (acc @ take ?r ?xs) s1 =
          Some (Ret (acc @ take n ?xs), s')" unfolding r by metis
      then show ?thesis using step s'(2) client_changed_trans[OF s1(2) s'(3)] by (intro exI[of _ s']) simp
    qed
  qed
qed

lemma read_aligned:
  assumes "open_files s p = Some f" "\<not> is_temp_file (regex_search E) p" "st_size (of_stat f) = int sz" "sz < 2 ^ 63"
    and "q * BLK_SIZE + n \<le> sz" "n < 2 ^ 31" "read_limited ops (max_parallel_read_size s) n p (of_nat q - 1) [] s = Some (Ret d, s')" "length d = n"
  shows "fs_read E ops x p n (q * BLK_SIZE) s = (Ret (int n, d), s')"
proof (cases "n = 0")
  case True
  then have "s' = s" "d = []" using assms(7,8) by (simp_all add: read_limited.simps)
  then show ?thesis using assms(1-6) True
    by (subst fs_read.simps)
      (simp add: fbind_def getattr_open[where f = f] Let_def try_catch_def freturn_def to_size_t_id to_int32_id not_le)
next
  case False
  have "min n (sz - q * BLK_SIZE) = n" "\<not> sz \<le> q * BLK_SIZE" using False assms(5) by simp_all
  moreover have "to_size_t (int sz - int (q * BLK_SIZE)) = sz - q * BLK_SIZE"
    using assms(4,5) by (subst to_size_t_id) (simp_all del: of_nat_mult)
  ultimately show ?thesis using assms False
    by (subst fs_read.simps)
      (simp add: fbind_def getattr_open[where f = f] Let_def try_catch_def freturn_def to_size_t_id to_int32_id
        read_fixed_size_blocks_to_buffer_limited_paralelization_def)
qed

lemma write_aligned:
  assumes "reliable ops look" "open_files s p = Some f" "\<not> is_temp_file (regex_search E) p" "0 < k" "max_parallel_write_size s = k * BLK_SIZE"
    and "0 \<le> st_size (of_stat f)" "st_size (of_stat f) < 2 ^ 63" "length buf < 2 ^ 31"
  shows "\<exists>s' f'. fs_write E ops x p buf (q * BLK_SIZE) s = (Ret (int (length buf)), s') \<and>
    s' = s\<lparr>df_client := df_client s', open_files := (open_files s)(p \<mapsto> f')\<rparr> \<and>
    look (df_client s') = look (df_client s) ++ map_of (map (\<lambda>(k, d). (key k, d)) (write_blks p (of_version f) (of_nat q - 1) buf)) \<and>
    st_size (of_stat f') = max (st_size (of_stat f)) (int (q * BLK_SIZE + length buf))"
proof -
  have "length buf < 2 ^ 64" using assms(8) by simp
  then obtain s1 where s1: "put_limited ops (k * BLK_SIZE) buf p (of_nat q - 1) (of_version f) s = (Ret 0, s1)" "client_changed s s1"
    "look (df_client s1) = look (df_client s) ++ map_of (map (\<lambda>(k, d). (key k, d)) (write_blks p (of_version f) (of_nat q - 1) buf))"
    using put_limited_reliable[OF assms(1,4)] by blast
  from s1(2) obtain c where c: "s1 = s\<lparr>df_client := c\<rparr>" "df_client s1 = c" by (rule client_changedE)
  let ?n = "nat (st_size (of_stat f))"
  let ?st = "written_stat (max ?n (q * BLK_SIZE + length buf)) (of_nat q - 1) (realtime x) (of_stat f)"
  have "fs_write E ops x p buf (q * BLK_SIZE) s = (Ret (int (length buf)), snd (update_open_file_metadata p ?st s1))"
    using assms(2,3,5-8) s1(1)
    by (simp add: fs_write_def fbind_def getattr_open get_version_if_file_opened_def Let_def try_catch_def write_first_block_def freturn_def
        put_fixed_size_blocks_from_buffer_limited_paralelization_def to_size_t_id to_int32_id max_def not_less)
  moreover obtain f' where "snd (update_open_file_metadata p ?st s1) = s1\<lparr>open_files := (open_files s)(p \<mapsto> f')\<rparr>"
    "st_size (of_stat f') = st_size ?st"
    using assms(2) by (simp add: c(1) update_open_file_metadata_def Let_def case_prod_unfold merge_stat_size)
  moreover have "st_size ?st = max (st_size (of_stat f)) (int (q * BLK_SIZE + length buf))"
    using assms(6) by (simp add: written_stat_def Let_def of_nat_max del: of_nat_add of_nat_mult)
  ultimately show ?thesis using s1(3) by (intro exI[of _ "s1\<lparr>open_files := (open_files s)(p \<mapsto> f')\<rparr>"] exI[of _ f']) (simp add: c)
qed

text \<open>
  C8. Files round trip. Over a client that loses nothing, a write to an open file at a block boundary returns the size of the buffer, and
  every later read that begins at a block boundary and stays inside the written range returns exactly the written bytes,
  whatever was stored before and however the two transfers are divided into batches. In particular the read loop ends.
\<close>

theorem file_roundtrip:
  assumes "reliable ops look" "open_files s p = Some f" "\<not> is_temp_file (regex_search E) p"
    and "0 < kw" "max_parallel_write_size s = kw * BLK_SIZE" "0 < kr" "max_parallel_read_size s = kr * BLK_SIZE"
    and "0 \<le> st_size (of_stat f)" "st_size (of_stat f) < 2 ^ 63" "length buf < 2 ^ 31" "q * BLK_SIZE + length buf < 2 ^ 63"
  shows "\<exists>s'. fs_write E ops x p buf (q * BLK_SIZE) s = (Ret (int (length buf)), s') \<and>
    (\<forall>j n. j * BLK_SIZE + n \<le> length buf \<longrightarrow>
      (\<exists>s''. fs_read E ops x' p n ((q + j) * BLK_SIZE) s' = (Ret (int n, take n (drop (j * BLK_SIZE) buf)), s'')))"
proof -
  obtain s' f' where w: "fs_write E ops x p buf (q * BLK_SIZE) s = (Ret (int (length buf)), s')"
    "s' = s\<lparr>df_client := df_client s', open_files := (open_files s)(p \<mapsto> f')\<rparr>"
    "look (df_client s') = look (df_client s) ++ map_of (map (\<lambda>(k, d). (key k, d)) (write_blks p (of_version f) (of_nat q - 1) buf))"
    "st_size (of_stat f') = max (st_size (of_stat f)) (int (q * BLK_SIZE + length buf))"
    using write_aligned[OF assms(1-5,8-10), of x q] by blast
  let ?sz = "nat (st_size (of_stat f'))"
  have len: "length buf < 2 ^ 64" using assms(10) by simp
  have o: "open_files s' p = Some f'" "max_parallel_read_size s' = kr * BLK_SIZE"
    using arg_cong[OF w(2), of open_files] arg_cong[OF w(2), of max_parallel_read_size] assms(7) by simp_all
  have "0 \<le> st_size (of_stat f')" using w(4) assms(8) by linarith
  moreover have "st_size (of_stat f') < int (2 ^ 63)" unfolding w(4) using assms(9,11) by (simp del: of_nat_add of_nat_mult)
  ultimately have sz: "st_size (of_stat f') = int ?sz" "?sz < 2 ^ 63" by simp_all
  have "\<exists>s''. fs_read E ops x' p n ((q + j) * BLK_SIZE) s' = (Ret (int n, take n (drop (j * BLK_SIZE) buf)), s'')"
    if r: "j * BLK_SIZE + n \<le> length buf" for j n
  proof -
    have "\<exists>s''. read_limited ops (kr * BLK_SIZE) (length ([] :: bytes) + n) p (of_nat q - 1 + of_nat j) [] s' =
        Some (Ret ([] @ take n (drop (j * BLK_SIZE) buf)), s'') \<and> look (df_client s'') = look (df_client s') \<and> client_changed s' s''"
      by (rule read_limited_reliable[OF assms(1,6) _ refl r]) (simp add: w(3) blocks_roundtrip[OF len])
    then obtain s'' where "read_limited ops (kr * BLK_SIZE) n p (of_nat (q + j) - 1) [] s' = Some (Ret (take n (drop (j * BLK_SIZE) buf)), s'')"
      by (auto simp: algebra_simps)
    moreover have "int (q * BLK_SIZE + length buf) \<le> int ?sz" using w(4) sz(1) by linarith
    then have "(q + j) * BLK_SIZE + n \<le> ?sz" using r unfolding of_nat_le_iff by (simp add: add_mult_distrib)
    with calculation have "fs_read E ops x' p n ((q + j) * BLK_SIZE) s' = (Ret (int n, take n (drop (j * BLK_SIZE) buf)), s'')"
      using r assms(10) by (intro read_aligned[OF o(1) assms(3) sz]) (simp_all add: o(2))
    then show ?thesis ..
  qed
  with w(1) show ?thesis by blast
qed

theorem file_roundtrip_witness:
  "\<exists>s' s''. fs_write (no_regex ref_env) mem_ops sample_sys ''/f'' (replicate 5000 CHR ''x'') 4096 (sample_fs Map.empty 5 CREATED) = (Ret 5000, s') \<and>
    fs_read (no_regex ref_env) mem_ops sample_sys ''/f'' 3 8192 s' = (Ret (3, ''xxx''), s'')"
proof -
  let ?s = "sample_fs Map.empty 5 CREATED"
  let ?f = "\<lparr>access_t = CREATED, of_stat = zero_stat\<lparr>st_size := 5\<rparr>, of_version = default_version\<rparr>"
  have o: "open_files ?s ''/f'' = Some ?f" "max_parallel_write_size ?s = 1 * BLK_SIZE" "max_parallel_read_size ?s = 1 * BLK_SIZE"
    by (simp_all add: sample_fs_def)
  have "0 \<le> st_size (of_stat ?f)" "st_size (of_stat ?f) < 2 ^ 63" "length (replicate 5000 CHR ''x'') < 2 ^ 31"
    "1 * BLK_SIZE + length (replicate 5000 CHR ''x'') < 2 ^ 63" by (simp_all add: BLK_SIZE_def)
  from file_roundtrip[OF reliable_mem o(1) no_temp zero_less_one o(2) zero_less_one o(3) this, of ref_env sample_sys sample_sys]
  obtain s' where s': "fs_write (no_regex ref_env) mem_ops sample_sys ''/f'' (replicate 5000 CHR ''x'') 4096 ?s = (Ret 5000, s')"
    "\<And>j n. j * BLK_SIZE + n \<le> 5000 \<Longrightarrow> \<exists>s''. fs_read (no_regex ref_env) mem_ops sample_sys ''/f'' n ((1 + j) * BLK_SIZE) s' =
      (Ret (int n, take n (drop (j * BLK_SIZE) (replicate 5000 CHR ''x''))), s'')"
    by (auto simp: BLK_SIZE_def)
  have "replicate 3 CHR ''x'' = ''xxx''" by (simp add: numeral_eq_Suc)
  then show ?thesis using s'(1) s'(2)[of 1 3] by (auto simp: BLK_SIZE_def)
qed

section \<open>Directories\<close>

lemma readdir_cached:
  assumes "cache_wf (cache s)" "use_cache s" "map_of (lru_of (cache s)) d = Some met"
  shows "\<exists>s'. fs_readdir E ops x d s = (Ret (0, ''.'' # (if d \<noteq> ''/'' then [''..''] else []) @ listed met), s')"
proof -
  obtain dir where "fst (get_metadata_if_dir_cached d (cache s)) = Some dir" "d_metadata dir = met"
    using get_lru[OF assms(1), of d] assms(3) by auto
  then show ?thesis using assms(2)
    by (cases "get_metadata_if_dir_cached d (cache s)") (simp add: fs_readdir_def Let_def)
qed

lemma set_listed: "set (listed met) = c_str ` {n. \<exists>t st. slookup (childs met) n = Some (t, st) \<and> st \<noteq> REMOVED}"
  by (force simp: listed_def in_entries_iff image_iff)

lemma set_listed_plain:
  assumes "\<forall>n. slookup (childs met) n \<noteq> None \<longrightarrow> c_str n = n"
  shows "set (listed met) = {n. \<exists>t st. slookup (childs met) n = Some (t, st) \<and> st \<noteq> REMOVED}"
  using assms by (force simp: set_listed image_iff)

text \<open>The calls of the client leave the cache alone.\<close>

abbreviation same_cache :: "'c lsfs_state \<Rightarrow> 'c lsfs_state \<Rightarrow> bool" where
  "same_cache s s' \<equiv> cache s' = cache s \<and> use_cache s' = use_cache s"

lemma call_client_Ret: "call_client g s = (Ret a, s') \<longleftrightarrow> (\<exists>c. g (df_client s) = (Ret a, c) \<and> s' = s\<lparr>df_client := c\<rparr>)"
  by (cases "g (df_client s)") (auto simp: call_client_def fbind_def on_client_def fres_def)

lemma client_same_cache:
  "put_file_metadata_version E ops met p ver s = (Ret r, s') \<Longrightarrow> same_cache s s'"
  "put_dir_metadata_child ops p ch b d s = (Ret r, s') \<Longrightarrow> same_cache s s' \<and> (r = 0 \<or> errno s' = ENOENT)"
  "delete_file ops p s = (Ret r, s') \<Longrightarrow> same_cache s s'"
  "set_accessed p s = (Ret r, s') \<Longrightarrow> same_cache s s'"
  by (auto simp: put_file_metadata_version_def put_block_def put_dir_metadata_child_def delete_file_def delete_path_def set_accessed_def fbind_Ret
      call_client_Ret freturn_def set_errno_def split: option.splits)

lemma change_parent_cached:
  assumes "change_parent_dir E ops upd b p d s = (Ret r, s')" "use_cache s"
    and "get_parent_dir (regex_search E) p = Some parent" "get_child_name (regex_search E) p = Some child"
  shows "cache s' = upd parent child d (cache s) \<and> use_cache s' \<and> (r = 0 \<or> r = - ENOENT \<and> errno s' = ENOENT)"
  using assms client_same_cache(2)
  by (fastforce simp: change_parent_dir_def fbind_Ret on_cache_def freturn_def minus_errno_def split: if_splits)

lemma child_added:
  assumes "cache_wf c" "map_of (lru_of c) d = Some met"
  shows "cache_wf (add_child_to_dir_cache d ch b c) \<and>
    map_of (lru_of (add_child_to_dir_cache d ch b c)) d = Some (met\<lparr>childs := add_child ch b (childs met)\<rparr>)"
proof -
  have "map_of (lru_update d g l) d = map_option g (map_of l d)" for g l by (induction l) (auto simp: lru_update_def)
  then show ?thesis unfolding add_child_to_dir_cache_def
    using update_lru[OF assms(1), of _ "\<lambda>m. m\<lparr>childs := add_child ch b (childs m)\<rparr>" d] assms(2) by simp
qed

lemma child_removed:
  assumes "cache_wf c" "map_of (lru_of c) d = Some met"
  shows "cache_wf (remove_child_from_dir_cache d ch b c) \<and>
    map_of (lru_of (remove_child_from_dir_cache d ch b c)) d = Some (met\<lparr>childs := remove_child ch b (childs met)\<rparr>)"
proof -
  have "map_of (lru_update d g l) d = map_option g (map_of l d)" for g l by (induction l) (auto simp: lru_update_def)
  then show ?thesis unfolding remove_child_from_dir_cache_def
    using update_lru[OF assms(1), of _ "\<lambda>m. m\<lparr>childs := remove_child ch b (childs m)\<rparr>" d] assms(2) by simp
qed

lemma flush_created_cache:
  assumes "open_files s p = Some f" "access_t f = CREATED" "\<not> is_temp_file (regex_search E) p" "fs_flush E ops p s = (Ret 0, s')" "use_cache s"
    and "get_parent_dir (regex_search E) p = Some parent" "get_child_name (regex_search E) p = Some child"
  shows "cache s' = add_child_to_dir_cache parent child False (cache s) \<and> use_cache s'"
proof -
  have "flush_open_file E ops p s = (Ret 0, s')" using assms(3,4) try_Ret[of True _ s 0 s'] by (simp add: fs_flush_def)
  then obtain s1 r2 s2 where "put_file_metadata_version E ops (metadata_of_attr (of_stat f)) p (of_version f) s = (Ret 0, s1)"
    "change_parent_dir E ops add_child_to_dir_cache True p False s1 = (Ret r2, s2)" "set_accessed p s2 = (Ret 0, s')"
    using assms(1,2) by (auto simp: flush_open_file_def fbind_Ret freturn_def add_child_to_parent_dir_def split: if_splits)
  then show ?thesis using client_same_cache(1,4) change_parent_cached[OF _ _ assms(6,7)] assms(5) by metis
qed

lemma unlink_cache:
  assumes "fs_unlink E ops p s = (Ret 0, s')" "use_cache s"
    and "get_parent_dir (regex_search E) p = Some parent" "get_child_name (regex_search E) p = Some child"
  shows "cache s' = remove_child_from_dir_cache parent child False (cache s) \<and> use_cache s'"
proof -
  have "fbind (delete_file ops p) (\<lambda>res. if res \<noteq> 0 then minus_errno
      else fbind (remove_child_from_parent_dir E ops p False) zero_or_errno) s = (Ret 0, s')"
    by (rule try_Ret[OF assms(1)[unfolded fs_unlink_def]]) simp
  then obtain r s1 where d: "delete_file ops p s = (Ret r, s1)"
    "(if r \<noteq> 0 then minus_errno else fbind (remove_child_from_parent_dir E ops p False) zero_or_errno) s1 = (Ret 0, s')"
    by (subst (asm) fbind_Ret) blast
  have "r = 0 \<or> errno s1 = ENOENT" using d(1) client_same_cache(3)
    by (auto simp: delete_file_def delete_path_def fbind_Ret call_client_Ret freturn_def set_errno_def split: option.splits)
  then obtain r2 s2 where "change_parent_dir E ops remove_child_from_dir_cache False p False s1 = (Ret r2, s2)" "zero_or_errno r2 s2 = (Ret 0, s')"
    using d(2) by (auto simp: fbind_Ret minus_errno_def ENOENT_def remove_child_from_parent_dir_def split: if_splits)
  moreover from this(2) have "s' = s2" by (auto simp: zero_or_errno_def freturn_def minus_errno_def split: if_splits)
  ultimately show ?thesis using client_same_cache(3)[OF d(1)] change_parent_cached[OF _ _ assms(3,4)] assms(2) by metis
qed

text \<open>
  C24. The listing of a cached directory follows the files. When the flush of a newly created file returns 0, reading its directory lists
  its name; when removing a file returns 0, its name is not listed any more. All other names are listed as before.
\<close>

theorem listing_follows_files:
  assumes "cache_wf (cache s)" "use_cache s" "map_of (lru_of (cache s)) parent = Some met"
    and "get_parent_dir (regex_search E) p = Some parent" "get_child_name (regex_search E) p = Some child"
    and "c_str child = child" "\<forall>n. slookup (childs met) n \<noteq> None \<longrightarrow> c_str n = n"
  shows "(open_files s p = Some f \<and> access_t f = CREATED \<and> \<not> is_temp_file (regex_search E) p \<and> fs_flush E ops p s = (Ret 0, s') \<longrightarrow>
      (\<exists>names s''. fs_readdir E ops x parent s' = (Ret (0, ''.'' # (if parent \<noteq> ''/'' then [''..''] else []) @ names), s'') \<and>
        set names = insert child (set (listed met)))) \<and>
    (fs_unlink E ops p s = (Ret 0, s') \<longrightarrow>
      (\<exists>names s''. fs_readdir E ops x parent s' = (Ret (0, ''.'' # (if parent \<noteq> ''/'' then [''..''] else []) @ names), s'') \<and>
        set names = set (listed met) - {child}))"
proof (intro conjI impI)
  let ?m1 = "met\<lparr>childs := add_child child False (childs met)\<rparr>" and ?m2 = "met\<lparr>childs := remove_child child False (childs met)\<rparr>"
  have p: "\<forall>n. slookup (childs ?m1) n \<noteq> None \<longrightarrow> c_str n = n" "\<forall>n. slookup (childs ?m2) n \<noteq> None \<longrightarrow> c_str n = n"
    using assms(6,7) by (auto simp: slookup_add_child slookup_remove_child split: if_splits)
  note l = set_listed_plain[OF p(1)] set_listed_plain[OF p(2)] set_listed_plain[OF assms(7)]
  have l1: "set (listed ?m1) = insert child (set (listed met))" unfolding l by (auto simp: slookup_add_child)
  have l2: "set (listed ?m2) = set (listed met) - {child}" unfolding l by (auto simp: slookup_remove_child split: if_splits)
  show "\<exists>names s''. fs_readdir E ops x parent s' = (Ret (0, ''.'' # (if parent \<noteq> ''/'' then [''..''] else []) @ names), s'') \<and>
      set names = insert child (set (listed met))"
    if "open_files s p = Some f \<and> access_t f = CREATED \<and> \<not> is_temp_file (regex_search E) p \<and> fs_flush E ops p s = (Ret 0, s')"
    using readdir_cached[of s' parent ?m1 E ops x] flush_created_cache[of s p f E ops s', OF _ _ _ _ assms(2,4,5)] that
      child_added[OF assms(1,3), of child False] l1 by auto
  show "\<exists>names s''. fs_readdir E ops x parent s' = (Ret (0, ''.'' # (if parent \<noteq> ''/'' then [''..''] else []) @ names), s'') \<and>
      set names = set (listed met) - {child}" if "fs_unlink E ops p s = (Ret 0, s')"
    using readdir_cached[of s' parent ?m2 E ops x] unlink_cache[OF that assms(2,4,5)] child_removed[OF assms(1,3), of child False] l2 by auto
qed

text \<open>A file \<^verbatim>\<open>/f\<close> that was just created, with the root directory cached.\<close>

definition root_regex :: "'d env \<Rightarrow> 'd env" where
  "root_regex E = E\<lparr>regex_search := \<lambda>pat _. if pat = parent_dir_pattern then Some [[], []] else if pat = child_name_pattern then Some [[], ''f''] else None\<rparr>"

definition created_fs :: "(string \<Rightarrow> bytes option) lsfs_state" where
  "created_fs = (sample_fs [''/'' \<mapsto> []] 3 CREATED)\<lparr>use_cache := True,
     cache := add_to_dir_cache \<lparr>tv_sec = 0, tv_nsec = 0\<rparr> ''/'' sample_dir sample_cache\<rparr>"

theorem listing_follows_files_witness:
  "\<exists>s' names s''. fs_flush (root_regex ref_env) mem_ops ''/f'' created_fs = (Ret 0, s') \<and>
    fs_readdir (root_regex ref_env) mem_ops sample_sys ''/'' s' = (Ret (0, ''.'' # names), s'') \<and> ''f'' \<in> set names"
proof -
  let ?E = "root_regex ref_env"
  have pats: "parent_dir_pattern \<noteq> child_name_pattern" "temp_extensions \<noteq> parent_dir_pattern" "temp_extensions \<noteq> child_name_pattern"
    by (simp_all add: parent_dir_pattern_def child_name_pattern_def temp_extensions_def)
  have rx: "get_parent_dir (regex_search ?E) ''/f'' = Some ''/''" "get_child_name (regex_search ?E) ''/f'' = Some ''f''"
    "\<not> is_temp_file (regex_search ?E) ''/f''"
    using pats by (simp_all add: root_regex_def get_parent_dir_def get_child_name_def is_temp_file_def group1_def)
  have c: "cache_wf (cache created_fs)" "map_of (lru_of (cache created_fs)) ''/'' = Some sample_dir"
    using dc.add_ok[OF sample_cache_ok, of _ "''/''" sample_dir] dc.add_content[OF sample_cache_ok, of _ "''/''" sample_dir]
    by (simp_all add: created_fs_def cache_ok_def lru_put_def sample_cache_def)
  have o: "open_files created_fs ''/f'' = Some \<lparr>access_t = CREATED, of_stat = zero_stat\<lparr>st_size := 3\<rparr>, of_version = default_version\<rparr>" "use_cache created_fs"
    by (simp_all add: created_fs_def sample_fs_def)
  have n: "c_str ''f'' = ''f''" "\<forall>n. slookup (childs sample_dir) n \<noteq> None \<longrightarrow> c_str n = n"
    by (simp_all add: c_str_def sample_dir_def metadata_of_attr_def)
  obtain s' where s': "fs_flush ?E mem_ops ''/f'' created_fs = (Ret 0, s')"
    using o rx by (simp add: fs_flush_def try_catch_def flush_open_file_def put_file_metadata_version_def put_block_def fbind_def call_client_def
        on_client_def fres_def mem_ops_def freturn_def add_child_to_parent_dir_def change_parent_dir_def on_cache_def put_dir_metadata_child_def
        created_fs_def sample_fs_def set_accessed_def)
  from listing_follows_files[OF c(1) o(2) c(2) rx(1,2) n, of "\<lparr>access_t = CREATED, of_stat = zero_stat\<lparr>st_size := 3\<rparr>, of_version = default_version\<rparr>"
      mem_ops s' sample_sys] o(1) rx(3) s' show ?thesis by auto
qed

text \<open>
  With the cache, a directory that is not cached cannot be removed: \<^verbatim>\<open>_rmdir\<close> answers that it is not empty, whatever is stored, without
  asking the client.
\<close>

theorem rmdir_needs_cached:
  assumes "use_cache s" "\<not> is_dir_cached p (cache s)"
  shows "fs_rmdir E ops p s = (Ret (- ENOTEMPTY), s\<lparr>errno := ENOTEMPTY\<rparr>)"
  using assms by (simp add: fs_rmdir_def try_catch_def check_dir_empty_def is_dir_childs_empty_def find_node_def is_dir_cached_def Let_def fbind_def
      set_errno_def minus_errno_def freturn_def)

theorem rmdir_needs_cached_witness:
  "fs_rmdir ref_env mem_ops ''/d'' ((sample_fs Map.empty 3 CREATED)\<lparr>use_cache := True\<rparr>) =
    (Ret (- 39), (sample_fs Map.empty 3 CREATED)\<lparr>use_cache := True, errno := 39\<rparr>)"
  using rmdir_needs_cached[of "(sample_fs Map.empty 3 CREATED)\<lparr>use_cache := True\<rparr>" "''/d''" ref_env mem_ops]
  by (simp add: sample_fs_def is_dir_cached_def ENOTEMPTY_def)

end
