(* ===== verification/Fs_Durability.thy ===== *)
theory Fs_Durability
  imports Fs_Behaviour
begin

text \<open>
  The file system, its client library and the acknowledgements of the peers together: what a write to a file that returns without an
  error means for the blocks of the file.
\<close>

section \<open>The batches of a write\<close>

text \<open>The replies handled in all calls of the client are among \<open>M\<close>.\<close>

definition hears :: "kv_body list \<Rightarrow> fs_net \<Rightarrow> bool" where
  "hears M n \<longleftrightarrow> (\<forall>xfs\<in>set (fn_script n). \<forall>g\<in>set xfs. \<forall>i. set (io_before (g i)) \<union> set (io_during (g i)) \<subseteq> set M)"

lemma hears_mono: "hears M n \<Longrightarrow> set (fn_script n') \<subseteq> set (fn_script n) \<Longrightarrow> hears M n'"
  unfolding hears_def by blast

text \<open>The key of a block of a file, with the version the file was opened with.\<close>

definition file_block :: "string \<Rightarrow> kv_store_version \<Rightarrow> nat \<Rightarrow> kv_store_key" where
  "file_block p ver q = \<lparr>key = blk_key p (of_nat q), version = ver, f_type = FILE, is_deleted = False\<rparr>"

text \<open>The operations that leave the clock and the id of the client alone, and what they are followed by in the file system.\<close>

definition same_clock :: "client \<Rightarrow> client \<Rightarrow> bool" where
  "same_clock c c' \<longleftrightarrow> clock c' = clock c \<and> cl_id c' = cl_id c"

lemma same_clock_refl [simp]: "same_clock c c"
  by (simp add: same_clock_def)

lemma same_clock_trans [trans]: "same_clock a b \<Longrightarrow> same_clock b c \<Longrightarrow> same_clock a c"
  by (simp add: same_clock_def)

lemma same_clock_simps [simp]:
  "same_clock c (c'\<lparr>handler := h\<rparr>) \<longleftrightarrow> same_clock c c'" "same_clock (c\<lparr>handler := h\<rparr>) c' \<longleftrightarrow> same_clock c c'"
  "same_clock c (receive_replies x c') \<longleftrightarrow> same_clock c c'" "same_clock (receive_replies x c) c' \<longleftrightarrow> same_clock c c'"
  by (simp_all add: same_clock_def receive_replies_def)

lemma new_req_id_same: "new_req_id c = (r, c') \<Longrightarrow> same_clock c c'"
  by (auto simp: new_req_id_def inc_and_get_request_count_def same_clock_def)

section \<open>Writing a batch\<close>

lemma put_batch_send_clock:
  "put_batch_send i xf items c = (Ret its, c', ds) \<Longrightarrow> clock c' = (increment ^^ length items) (clock c) \<and> cl_id c' = cl_id c"
proof (induction items arbitrary: i c its ds)
  case (Cons it items)
  obtain k d where it: "it = (k, d)" by fastforce
  obtain h its1 ds1 where "put_batch_send (i + 1) xf items (receive_replies (xf i) ((tick c)\<lparr>handler := h\<rparr>)) = (Ret its1, c', ds1)"
    using Cons.prems by (auto simp: it Let_def split: prod.splits res.splits)
  from Cons.IH[OF this] show ?case by (simp add: receive_replies_def tick_def funpow_swap1)
qed simp

lemma put_batch_pass_same: "put_batch_pass n i xf t its c = (r, c', ds) \<Longrightarrow> same_clock c c'"
proof (induction its arbitrary: i c r c' ds)
  case (Cons it its)
  have IH: "same_clock b a" if "put_batch_pass n (Suc i) xf t its b = (r', a, ds')" for a b r' ds' by (rule Cons.IH[OF that])
  show ?case using Cons.prems by (auto simp: Let_def dest!: IH split: prod.splits res.splits if_splits)
qed simp

lemma put_batch_loop_same: "put_batch_loop n xfs t its c = (r, c', ds) \<Longrightarrow> same_clock c c'"
proof (induction xfs arbitrary: t its c r c' ds)
  case (Cons xf xfs)
  obtain o1 c1 ds1 where p: "put_batch_pass n 0 xf t its c = (o1, c1, ds1)" by (metis prod_cases3)
  have s: "same_clock c c1" by (rule put_batch_pass_same[OF p])
  moreover have "same_clock c a" if "put_batch_loop n xfs t' its' c1 = (r', a, ds')" for t' its' r' a ds'
    by (rule same_clock_trans[OF s Cons.IH[OF that]])
  ultimately show ?case using Cons.prems
    by (auto simp: p Let_def after_sending_def put_batch_end_def split: prod.splits res.splits if_splits)
qed simp

lemma client_put_batch_clock:
  assumes "client_put_batch c items n xf xfs = (Some (Ret ()), c', ds)"
  shows "clock c' = (increment ^^ length items) (clock c) \<and> cl_id c' = cl_id c"
proof -
  obtain its c1 ds1 ds2 where "put_batch_send 0 xf items c = (Ret its, c1, ds1)" "put_batch_loop n xfs 0 its c1 = (Some (Ret ()), c', ds2)"
    using assms by (auto simp: client_put_batch_def after_sending_def split: prod.splits res.splits)
  from put_batch_send_clock[OF this(1)] put_batch_loop_same[OF this(2)] show ?thesis by (simp add: same_clock_def)
qed

lemma batch_key_later:
  assumes "clock c' = (increment ^^ n) (clock c)" "cl_id c' = cl_id c"
  shows "batch_key c' i k = batch_key c (n + i) k"
proof -
  have "(increment ^^ i) ((increment ^^ n) (clock c)) = (increment ^^ (n + i)) (clock c)" by (simp add: add.commute[of n] funpow_add)
  with assms show ?thesis by (simp add: batch_key_def new_version_def)
qed

text \<open>What is acknowledged of the elements of a list, the client having begun with \<open>c\<close>.\<close>

definition all_acknowledged :: "nat \<Rightarrow> client \<Rightarrow> kv_store_key list \<Rightarrow> kv_body list \<Rightarrow> bool" where
  "all_acknowledged n c ks M \<longleftrightarrow> (\<forall>i<length ks. n \<le> card (puts.peers (batch_key c i (ks ! i)) M))"

lemma all_acknowledged_append:
  assumes "all_acknowledged n c ks M" "all_acknowledged n c' ks' M" "clock c' = (increment ^^ length ks) (clock c)" "cl_id c' = cl_id c"
  shows "all_acknowledged n c (ks @ ks') M"
  unfolding all_acknowledged_def
proof (intro allI impI)
  fix i assume i: "i < length (ks @ ks')"
  show "n \<le> card (puts.peers (batch_key c i ((ks @ ks') ! i)) M)"
  proof (cases "i < length ks")
    case False
    then have "batch_key c' (i - length ks) k = batch_key c i k" for k using batch_key_later[OF assms(3,4)] by simp
    then show ?thesis using assms(2) False i by (auto simp: all_acknowledged_def nth_append dest!: spec[of _ "i - length ks"])
  qed (use assms(1) in \<open>simp add: all_acknowledged_def nth_append\<close>)
qed

lemma batch_acknowledged:
  assumes "co_put_batch (ops_of_client conf) items s = (Ret (), s')" "hears M s"
  shows "all_acknowledged (nr_puts_required conf) (fn_client s) (map fst items) M" "hears M s'"
    "clock (fn_client s') = (increment ^^ length items) (clock (fn_client s))" "cl_id (fn_client s') = cl_id (fn_client s)"
proof -
  obtain xf xfs rest where sc: "fn_script s = (xf # xfs) # rest"
    using assms(1) by (auto simp: ops_of_client_def run_put_batch_def next_script_def split: list.splits)
  obtain c ds where b: "client_put_batch (fn_client s) items (nr_puts_required conf) xf xfs = (Some (Ret ()), c, ds)"
    "s' = after_call (Ret ()) c ds s"
    using assms(1) sc by (auto simp: ops_of_client_def run_put_batch_def next_script_def returned_def split: prod.splits option.splits)
  have "\<forall>i<length items. nr_puts_required conf \<le> card (puts.peers (batch_key (fn_client s) i (fst (items ! i))) M)"
    by (rule put_batch_acknowledged[OF b(1)]) (use assms(2) sc in \<open>auto simp: hears_def\<close>)
  then show "all_acknowledged (nr_puts_required conf) (fn_client s) (map fst items) M" by (simp add: all_acknowledged_def)
  show "hears M s'" using assms(2) sc b(2) by (auto simp: hears_def after_call_def)
  show "clock (fn_client s') = (increment ^^ length items) (clock (fn_client s))" "cl_id (fn_client s') = cl_id (fn_client s)"
    using client_put_batch_clock[OF b(1)] b(2) by (simp_all add: after_call_def)
qed

lemma batches_acknowledged:
  assumes "send_batches (ops_of_client conf) bs s = (Ret r, s')" "hears M (df_client s)"
  shows "all_acknowledged (nr_puts_required conf) (fn_client (df_client s)) (map fst (concat bs)) M"
  using assms
proof (induction bs arbitrary: s)
  case (Cons x bs)
  then obtain c where c: "co_put_batch (ops_of_client conf) x (df_client s) = (Ret (), c)"
    "send_batches (ops_of_client conf) bs (s\<lparr>df_client := c\<rparr>) = (Ret r, s')"
    by (auto simp: fbind_Ret call_client_Ret)
  note B = batch_acknowledged[OF c(1) Cons.prems(2)]
  have "all_acknowledged (nr_puts_required conf) (fn_client c) (map fst (concat bs)) M" using Cons.IH[OF c(2)] B(2) by simp
  from all_acknowledged_append[OF B(1) this] B(3,4) show ?case by simp
qed (simp add: all_acknowledged_def)

section \<open>Reading the block that is written in its middle\<close>

lemma get_batch_send_same: "get_batch_send send i xf items c = (r, c', ds) \<Longrightarrow> same_clock c c'"
proof (induction items arbitrary: i c r c' ds)
  case (Cons item items)
  obtain r1 c1 where q: "new_req_id c = (r1, c1)" by fastforce
  have s: "same_clock c c1" by (rule new_req_id_same[OF q])
  have IH: "same_clock b a" if "get_batch_send send (Suc i) xf items b = (r', a, ds')" for a b r' ds' by (rule Cons.IH[OF that])
  show ?case using Cons.prems s
    by (cases item) (auto simp: q Let_def dest!: IH elim: same_clock_trans split: prod.splits res.splits)
qed simp

lemma resend_same: "resend send x t it c = (r, c', ds) \<Longrightarrow> same_clock c c'"
  by (auto simp: resend_def Let_def dest: new_req_id_same split: if_splits prod.splits res.splits)

lemma get_batch_element_same:
  assumes "get_batch_element send wait account x t it p c = (r, c', ds)"
  shows "same_clock c c'"
proof -
  obtain r1 c1 ds1 where q: "resend send x t it (receive_replies x c) = (r1, c1, ds1)" by (rule prod_cases3)
  then have "same_clock c c1" using resend_same[OF q] by simp
  then show ?thesis using assms by (auto simp: q get_batch_element_def Let_def split: res.splits prod.splits if_splits)
qed

lemma get_batch_pass_same:
  assumes "get_batch_pass element i its p c = (r, its', c', ds)" "\<And>j it p c r c' ds. element j it p c = (r, c', ds) \<Longrightarrow> same_clock c c'"
  shows "same_clock c c'"
  using assms(1)
proof (induction its arbitrary: i p c r its' c' ds)
  case (Cons it its)
  have IH: "same_clock b a" if "get_batch_pass element (Suc i) its p' b = (r', its', a, ds')" for a b r' its' p' ds' by (rule Cons.IH[OF that])
  show ?case using Cons.prems
    by (auto dest!: IH assms(2) elim: same_clock_trans split: if_splits prod.splits res.splits)
qed simp

lemma get_latest_batch_loop_same: "get_latest_batch_loop n xfs t m its c = (r, d, c', ds) \<Longrightarrow> same_clock c c'"
proof (induction xfs arbitrary: t m its c r d c' ds)
  case (Cons xf xfs)
  obtain o1 its1 c1 ds1 where p: "get_batch_pass (latest_element n xf t) 0 its
      \<lparr>ps_happend_timeout = False, ps_res_count = m, ps_stop = None\<rparr> c = (o1, its1, c1, ds1)" by (rule prod_cases4)
  have s: "same_clock c c1" by (rule get_batch_pass_same[OF p]) (simp add: latest_element_def get_batch_element_same)
  moreover have "same_clock c a" if "get_latest_batch_loop n xfs t' m' its' c1 = (r', d', a, ds')" for t' m' its' r' d' a ds'
    by (rule same_clock_trans[OF s Cons.IH[OF that]])
  ultimately show ?case using Cons.prems
    by (auto simp: p Let_def after_sending_batch_def get_latest_batch_end_def split: prod.splits res.splits if_splits)
qed simp

lemma client_get_latest_batch_same:
  assumes "client_get_latest_batch c items n xf xfs = (r, d, c', ds)"
  shows "same_clock c c'"
proof -
  obtain r1 c1 ds1 where q: "get_batch_send (\<lambda>c k. send_get_latest_version c (key k) True) 0 xf (map (map_prod file_key (\<lambda>d. d)) items) c =
      (r1, c1, ds1)" by (rule prod_cases3)
  note s = get_batch_send_same[OF q]
  show ?thesis using assms s
    by (auto simp: q client_get_latest_batch_def after_sending_batch_def dest!: get_latest_batch_loop_same
        elim: same_clock_trans split: res.splits prod.splits)
qed

text \<open>Calls of the file system that leave the clock of the client and the size of the batches alone and hear nothing outside the script.\<close>

named_theorems still_rules \<open>functions that do not use the clock of the client\<close>

definition still_net :: "fs_net lsfs_state \<Rightarrow> fs_net lsfs_state \<Rightarrow> bool" where
  "still_net s s' \<longleftrightarrow> same_clock (fn_client (df_client s)) (fn_client (df_client s')) \<and>
     set (fn_script (df_client s')) \<subseteq> set (fn_script (df_client s)) \<and> max_parallel_write_size s' = max_parallel_write_size s"

definition still :: "(fs_net, 'a) fs \<Rightarrow> bool" where
  "still m \<longleftrightarrow> (\<forall>s. still_net s (snd (m s)))"

lemma still_net_refl [simp]: "still_net s s"
  by (simp add: still_net_def)

lemma still_net_trans: "still_net a b \<Longrightarrow> still_net b c \<Longrightarrow> still_net a c"
  by (auto simp: still_net_def elim: same_clock_trans)

lemma still_bind [still_rules]: "still m \<Longrightarrow> (\<And>a. still (f a)) \<Longrightarrow> still (fbind m f)"
proof (unfold still_def, intro allI)
  fix s assume m: "\<forall>s. still_net s (snd (m s))" and f: "\<And>a. \<forall>s. still_net s (snd (f a s))"
  show "still_net s (snd (fbind m f s))"
    using m[rule_format, of s] f by (cases "m s", cases "fst (m s)") (auto simp: fbind_def elim: still_net_trans)
qed

lemma still_simple [still_rules]: "still (freturn a)" "still (fres r)" "still minus_errno"
  by (simp_all add: still_def freturn_def fres_def minus_errno_def)

lemma still_if [still_rules]: "(b \<Longrightarrow> still m) \<Longrightarrow> (\<not> b \<Longrightarrow> still m') \<Longrightarrow> still (if b then m else m')"
  by simp

lemma still_prod [still_rules]: "(\<And>a b. still (f a b)) \<Longrightarrow> still (case x of (a, b) \<Rightarrow> f a b)"
  by (cases x) auto

lemma still_try [still_rules]:
  assumes "still m" "still h"
  shows "still (try_catch w m h)"
  unfolding still_def
proof
  fix s
  obtain r s1 where m: "m s = (r, s1)" by fastforce
  then have s1: "still_net s s1" using assms(1) by (metis still_def snd_conv)
  then have "still_net s (s1\<lparr>errno := e\<rparr>)" for e by (simp add: still_net_def)
  moreover have "still_net (s1\<lparr>errno := e\<rparr>) (snd (h (s1\<lparr>errno := e\<rparr>)))" for e using assms(2) by (simp add: still_def)
  ultimately have "still_net s (snd (h (s1\<lparr>errno := e\<rparr>)))" for e by (rule still_net_trans)
  with s1 m show "still_net s (snd (try_catch w m h s))" by (auto simp: try_catch_def split: res.splits option.splits)
qed

lemma set_tl: "x \<in> set (tl xs) \<Longrightarrow> x \<in> set xs"
  by (cases xs) simp_all

lemma still_latest_batch [still_rules]: "still (on_client (co_get_latest_batch (ops_of_client conf) ks))"
proof (unfold still_def, intro allI)
  fix s :: "fs_net lsfs_state"
  obtain out n' where o: "co_get_latest_batch (ops_of_client conf) ks (df_client s) = (out, n')" by fastforce
  then have "same_clock (fn_client (df_client s)) (fn_client n') \<and> set (fn_script n') \<subseteq> set (fn_script (df_client s))"
    by (auto simp: ops_of_client_def run_get_latest_batch_def after_call_def dest!: client_get_latest_batch_same set_tl
        split: list.splits prod.splits)
  with o show "still_net s (snd (on_client (co_get_latest_batch (ops_of_client conf) ks) s))"
    by (simp add: on_client_def still_net_def)
qed

lemma still_read_blocks [still_rules]: "still (read_fixed_size_blocks_to_buffer (ops_of_client conf) n p b)"
  unfolding read_fixed_size_blocks_to_buffer_def Let_def by (intro still_rules)

lemma still_read_limited: "read_limited ops m n p b buf s = Some out \<Longrightarrow> ops = ops_of_client conf \<longrightarrow> still_net s (snd out)"
proof (rule read_limited.raw_induct[where P = "\<lambda>ops m n p b buf s out. ops = ops_of_client conf \<longrightarrow> still_net s (snd out)"], intro impI)
  fix rl ops m n p b buf s y
  assume 1: "\<And>ops m n p b buf s y. rl ops m n p b buf s = Some y \<Longrightarrow> ops = ops_of_client conf \<longrightarrow> still_net s (snd y)"
    "(if length buf < n
      then let out = read_fixed_size_blocks_to_buffer ops (min m (n - length buf)) p b s
           in case fst out of
                Ret d \<Rightarrow> rl ops m n p (b + of_nat (length d div BLK_SIZE)) (buf @ d) (snd out)
              | Throw e \<Rightarrow> Some (Throw e, snd out) | Hang \<Rightarrow> Some (Hang, snd out)
      else Some (Ret buf, s)) = Some y"
    and o: "ops = ops_of_client conf"
  let ?r = "read_fixed_size_blocks_to_buffer ops (min m (n - length buf)) p b s"
  have r: "still_net s (snd ?r)" using still_read_blocks o by (simp add: still_def)
  show "still_net s (snd y)"
  proof (cases "length buf < n")
    case True
    then show ?thesis
    proof (cases "fst ?r")
      case (Ret d)
      then have "rl ops m n p (b + of_nat (length d div BLK_SIZE)) (buf @ d) (snd ?r) = Some y" using 1(2) True by (simp add: Let_def)
      from 1(1)[OF this] o have "still_net (snd ?r) (snd y)" by simp
      with r show ?thesis by (rule still_net_trans)
    qed (use 1(2) r in \<open>auto simp: Let_def\<close>)
  qed (use 1(2) in auto)
qed

lemma still_read_limited_blocks [still_rules]:
  "still (read_fixed_size_blocks_to_buffer_limited_paralelization (ops_of_client conf) n p b)"
  by (auto simp: still_def read_fixed_size_blocks_to_buffer_limited_paralelization_def dest: still_read_limited split: option.splits)

lemma still_read:
  assumes "open_files s p = Some f" "\<not> is_temp_file (regex_search E) p"
  shows "still_net s (snd (fs_read E (ops_of_client conf) x p n (q * BLK_SIZE) s))"
proof -
  let ?fail = "fbind minus_errno (\<lambda>r. freturn (r, []))"
  let ?size = "to_size_t (st_size (of_stat f))"
  let ?m = "to_int32 (int (min (to_size_t (int n)) (to_size_t (int ?size - int (q * BLK_SIZE)))))"
  have e: "fs_read E (ops_of_client conf) x p n (q * BLK_SIZE) s =
    (if ?size \<le> q * BLK_SIZE then freturn (0, [])
     else try_catch True
       (fbind (if 0 < ?m then read_fixed_size_blocks_to_buffer_limited_paralelization (ops_of_client conf) (nat ?m) p (of_nat q - 1) else freturn [])
         (\<lambda>d. freturn (to_int32 (int (length d)), d))) ?fail) s"
    by (subst fs_read.simps) (simp add: assms(2) fbind_def[of "fs_getattr _ _ _ _ _"] getattr_open[OF assms] Let_def)
  have "still (if ?size \<le> q * BLK_SIZE then freturn (0, [])
     else try_catch True
       (fbind (if 0 < ?m then read_fixed_size_blocks_to_buffer_limited_paralelization (ops_of_client conf) (nat ?m) p (of_nat q - 1) else freturn [])
         (\<lambda>d. freturn (to_int32 (int (length d)), d))) ?fail)"
    by (intro still_rules)
  then show ?thesis unfolding e still_def by blast
qed

section \<open>Writing a single block\<close>

lemma put_acknowledged:
  assumes "co_put (ops_of_client conf) (key k) (version k) (f_type k) d s = (Ret (), s')" "hears M s"
  shows "all_acknowledged (nr_puts_required conf) (fn_client s) [k] M" "hears M s'"
    "clock (fn_client s') = increment (clock (fn_client s))" "cl_id (fn_client s') = cl_id (fn_client s)"
proof -
  let ?c = "fn_client s"
  obtain c ds where b: "client_put ?c (key k) (version k) (f_type k) d (nr_puts_required conf) (single_ios s) = (Some (Ret ()), c, ds)"
    "s' = after_call (Ret ()) c ds s"
    using assms(1) by (auto simp: ops_of_client_def run_write_def returned_def split: prod.splits option.splits)
  show "clock (fn_client s') = increment (clock ?c)" "cl_id (fn_client s') = cl_id ?c"
    using client_put_frame[of ?c "key k" "version k" "f_type k" d "nr_puts_required conf" "single_ios s"] b by (simp_all add: after_call_def)
  show "hears M s'" by (rule hears_mono[OF assms(2)]) (use b(2) in \<open>auto simp: after_call_def dest: set_tl\<close>)
  have k: "put_key_of ?c (key k) (version k) (f_type k) = batch_key ?c 0 k" by (simp add: put_key_of_def batch_key_def)
  have r: "put_replies (handler ?c) (put_key_of ?c (key k) (version k) (f_type k)) = None"
    using b(1) by (auto simp: client_put_def put_key_of_def register_put_def Let_def split: option.splits)
  obtain h where l: "client_put ?c (key k) (version k) (f_type k) d (nr_puts_required conf) (single_ios s) =
      write_loop (send_put ?c (key k) (new_version ?c (version k)) (f_type k) d)
        (\<lambda>y. wait_for_put (put_key_of ?c (key k) (version k) (f_type k)) (nr_puts_required conf) (io_during y) (io_timeout y))
        (key k) (single_ios s) 0 ((tick ?c)\<lparr>handler := h\<rparr>)"
    using client_put_run[OF r] by blast
  have "0 < max_timeouts ?c"
  proof (rule ccontr)
    assume "\<not> 0 < max_timeouts ?c"
    then show False using b(1) unfolding l by (cases "single_ios s") (simp_all add: tick_def)
  qed
  from client_put_counts[OF r this, of "nr_puts_required conf" "single_ios s" d] b(1)
  have "nr_puts_required conf \<le> card (puts.peers (batch_key ?c 0 k) (received (single_ios s)))"
    by (simp add: puts.put_outcome_def k)
  also have "\<dots> \<le> card (puts.peers (batch_key ?c 0 k) M)"
  proof (rule card_mono)
    have "set (received (single_ios s)) \<subseteq> set M"
      using assms(2) by (cases "fn_script s") (fastforce simp: hears_def single_ios_def next_script_def received_def)+
    then show "puts.peers (batch_key ?c 0 k) (received (single_ios s)) \<subseteq> puts.peers (batch_key ?c 0 k) M"
      by (auto simp: puts.peers_def)
  qed (simp)
  finally show "all_acknowledged (nr_puts_required conf) ?c [k] M" by (simp add: all_acknowledged_def)
qed

lemma first_block_acknowledged:
  assumes "write_first_block E (ops_of_client conf) x p buf off n ver s = (Ret (Inr (j, b)), s1)" "off mod BLK_SIZE \<noteq> 0"
    and "open_files s p = Some f" "\<not> is_temp_file (regex_search E) p" "hears M (df_client s)"
  shows "j = min (BLK_SIZE - off mod BLK_SIZE) (length buf)" "b = of_nat (off div BLK_SIZE)"
    "all_acknowledged (nr_puts_required conf) (fn_client (df_client s)) [file_block p ver (off div BLK_SIZE)] M"
    "clock (fn_client (df_client s1)) = increment (clock (fn_client (df_client s)))"
    "cl_id (fn_client (df_client s1)) = cl_id (fn_client (df_client s))"
    "hears M (df_client s1)" "max_parallel_write_size s1 = max_parallel_write_size s"
proof -
  obtain br pb s2 d c where R: "fs_read E (ops_of_client conf) x p BLK_SIZE (off div BLK_SIZE * BLK_SIZE) s = (Ret (br, pb), s2)"
    "co_put (ops_of_client conf) (blk_key p (of_nat (off div BLK_SIZE))) ver FILE d (df_client s2) = (Ret (), c)" "s1 = s2\<lparr>df_client := c\<rparr>"
    "j = (if BLK_SIZE < off mod BLK_SIZE + length buf then BLK_SIZE - off mod BLK_SIZE else length buf)" "b = of_nat (off div BLK_SIZE)"
    using assms(1,2)
    by (auto simp: write_first_block_def Let_def freturn_def fbind_Ret put_block_def call_client_Ret set_errno_def minus_errno_def
        split: if_splits)
  have "still_net s s2" using still_read[OF assms(3,4), of conf x BLK_SIZE "off div BLK_SIZE"] R(1) by simp
  moreover from this have "hears M (df_client s2)" using hears_mono[OF assms(5)] by (simp add: still_net_def)
  ultimately have N: "hears M (df_client s2)" "clock (fn_client (df_client s2)) = clock (fn_client (df_client s))"
    "cl_id (fn_client (df_client s2)) = cl_id (fn_client (df_client s))" "max_parallel_write_size s2 = max_parallel_write_size s"
    by (simp_all add: still_net_def same_clock_def)
  let ?k = "file_block p ver (off div BLK_SIZE)"
  have "co_put (ops_of_client conf) (key ?k) (version ?k) (f_type ?k) d (df_client s2) = (Ret (), c)" using R(2) by (simp add: file_block_def)
  note P = put_acknowledged[OF this N(1)]
  have "batch_key (fn_client (df_client s2)) i ?k = batch_key (fn_client (df_client s)) i ?k" for i
    using batch_key_later[of "fn_client (df_client s2)" 0] N(2,3) by simp
  then show "all_acknowledged (nr_puts_required conf) (fn_client (df_client s)) [?k] M" using P(1) by (simp add: all_acknowledged_def)
  show "b = of_nat (off div BLK_SIZE)" by (rule R(5))
  show "j = min (BLK_SIZE - off mod BLK_SIZE) (length buf)" using R(4) by (auto simp: min_def)
  show "clock (fn_client (df_client s1)) = increment (clock (fn_client (df_client s)))"
    "cl_id (fn_client (df_client s1)) = cl_id (fn_client (df_client s))" "hears M (df_client s1)"
    "max_parallel_write_size s1 = max_parallel_write_size s"
    using P(2-4) N R(3) by simp_all
qed

lemma file_blocks: "map fst (write_blks p ver (of_nat q - 1) buf) = map (\<lambda>i. file_block p ver (q + i)) [0..<NR_BLKS (length buf)]"
proof (rule nth_equalityI)
  fix i assume i: "i < length (map fst (write_blks p ver (of_nat q - 1) buf))"
  have *: "version (fst w) = ver \<and> f_type (fst w) = FILE \<and> \<not> is_deleted (fst w)" if "w \<in> set (write_blks p ver b buf)" for w b
    using that
  proof (induction p ver b buf rule: write_blks.induct)
    case (1 p ver b buf)
    then show ?case by (cases "buf = []") (auto simp: write_blks_Cons)
  qed
  have "key (fst (write_blks p ver (of_nat q - 1) buf ! i)) = map (key \<circ> fst) (write_blks p ver (of_nat q - 1) buf) ! i" using i by simp
  also have "\<dots> = blk_key p (of_nat (q + i))" unfolding write_blks_keys using i by (simp add: read_keys_nth)
  finally show "map fst (write_blks p ver (of_nat q - 1) buf) ! i = map (\<lambda>i. file_block p ver (q + i)) [0..<NR_BLKS (length buf)] ! i"
    using i *[of "write_blks p ver (of_nat q - 1) buf ! i" "of_nat q - 1"]
    by (cases "fst (write_blks p ver (of_nat q - 1) buf ! i)") (simp add: file_block_def)
qed simp

section \<open>Properties\<close>

text \<open>
  C2. A write to a file is acknowledged. When a write to an open file, at any offset, returns without an error, every block that the
  write touches, the one in the middle of which it begins included, was acknowledged by the required number of distinct peers, each in
  the version that this very write gave it: the version with which the file was opened, with the clock of the client advanced once
  for each block up to this one. This holds however the buffer was divided into batches, and whatever was read of the old first block.
  \<open>M\<close> are the replies handled by the client, and the configured size of the batches is a positive multiple of the block size.
\<close>

theorem file_write_acknowledged:
  assumes "fs_write E (ops_of_client conf) x p buf off s = (Ret r, s')" "0 \<le> r"
    and "open_files s p = Some f" "\<not> is_temp_file (regex_search E) p" "0 < k" "max_parallel_write_size s = k * BLK_SIZE"
    and "hears M (df_client s)"
  shows "\<forall>i<NR_BLKS (off mod BLK_SIZE + length buf). nr_puts_required conf \<le>
    card (puts.peers (batch_key (fn_client (df_client s)) i (file_block p (of_version f) (off div BLK_SIZE + i))) M)"
proof -
  let ?q = "off div BLK_SIZE" and ?o = "off mod BLK_SIZE" and ?ops = "ops_of_client conf" and ?ver = "of_version f"
  obtain j b s1 s2 where w: "write_first_block E ?ops x p buf off (to_size_t (st_size (of_stat f))) ?ver s = (Ret (Inr (j, b)), s1)"
    "put_fixed_size_blocks_from_buffer_limited_paralelization ?ops (drop j buf) p b ?ver s1 = (Ret 0, s2)"
    using write_open[OF assms(3,4,1,2)] by blast
  have rest: "all_acknowledged (nr_puts_required conf) (fn_client (df_client s1))
      (map (\<lambda>i. file_block p ?ver (q + i)) [0..<NR_BLKS (length (drop j buf))]) M"
    if q: "b = of_nat q - 1" "hears M (df_client s1)" "max_parallel_write_size s1 = k * BLK_SIZE" for q
  proof -
    obtain bs where bs: "concat bs = write_blks p ?ver b (drop j buf)"
      "put_limited ?ops (k * BLK_SIZE) (drop j buf) p b ?ver = send_batches ?ops bs"
      using put_limited_batches[OF assms(5), of p ?ver b "drop j buf"] by (auto simp: batches_of_def)
    have "send_batches ?ops bs s1 = (Ret 0, s2)"
      using w(2) q(3) bs(2) by (simp add: put_fixed_size_blocks_from_buffer_limited_paralelization_def)
    from batches_acknowledged[OF this q(2)] show ?thesis unfolding bs(1) q(1) file_blocks .
  qed
  have "all_acknowledged (nr_puts_required conf) (fn_client (df_client s))
      (map (\<lambda>i. file_block p ?ver (?q + i)) [0..<NR_BLKS (?o + length buf)]) M"
  proof (cases "?o = 0")
    case True
    then have "j = 0" "b = of_nat ?q - 1" "s1 = s" using w(1) by (auto simp: write_first_block_def freturn_def Let_def)
    then show ?thesis using rest[of ?q] assms(6,7) True by simp
  next
    case False
    note F = first_block_acknowledged[OF w(1) False assms(3,4,7)]
    let ?n = "NR_BLKS (length (drop j buf))"
    have "length (drop j buf) = ?o + length buf - BLK_SIZE"
      unfolding length_drop F(1) using mod_less_divisor[OF BLK_SIZE_pos, of off] by (simp add: min_def add.commute)
    then have n: "NR_BLKS (?o + length buf) = Suc ?n" using NR_BLKS_step[of "?o + length buf"] False by simp
    have "all_acknowledged (nr_puts_required conf) (fn_client (df_client s1)) (map (\<lambda>i. file_block p ?ver (?q + 1 + i)) [0..<?n]) M"
      by (rule rest) (use F(2,6,7) assms(6) in simp_all)
    from all_acknowledged_append[OF F(3) this] F(4,5) show ?thesis
      unfolding n upt_conv_Cons[OF zero_less_Suc] map_Suc_upt[symmetric] by (simp add: comp_def)
  qed
  then show ?thesis by (simp add: all_acknowledged_def)
qed

text \<open>A run: one peer acknowledges the only block of the sample file.\<close>

definition blk_ack :: kv_body where
  "blk_ack = Put_reply_msg \<lparr>m_ip = [], m_port = 0, m_id = 7, pr_key = \<lparr>pk_key = ''/f:0'', pk_version = [(1, 1)], pk_client_id = 1\<rparr>, pr_type = FILE\<rparr>"

definition ack_net :: fs_net where
  "ack_net = \<lparr>fn_client = sample_client, fn_script = [[\<lambda>_. sample_io True [], \<lambda>_. sample_io True [blk_ack]]], fn_sent = [], fn_raised = []\<rparr>"

lemma ack_batch:
  obtains n' where "co_put_batch (ops_of_client sample_conf) [(sample_base\<lparr>key := ''/f:0''\<rparr>, d)] ack_net = (Ret (), n')"
proof -
  let ?k = "sample_key\<lparr>key := ''/f:0''\<rparr>"
  obtain h where h: "register_put ?k empty_handler = (Ret (), h)" "put_replies h ?k = Some {}"
    by (simp add: register_put_def empty_handler_def)
  have k: "\<lparr>key = ''/f:0'', version = new_version sample_client default_version, f_type = FILE, is_deleted = False\<rparr> = ?k"
    using sample_put_key by (simp add: put_key_of_def sample_key_def)
  obtain c1 ds1 where s: "put_batch_send 0 (\<lambda>_. sample_io True []) [(sample_base\<lparr>key := ''/f:0''\<rparr>, d)] sample_client =
      (Ret [\<lparr>pi_key = ?k, pi_data = d, pi_completed = False\<rparr>], c1, ds1)" "handler c1 = h"
    using h k by (simp add: sample_base_def tick_def sample_client_def sample_io_def receive_replies_def send_put_def send_all_def Let_def)
  have "put_ack blk_ack = Some (?k, 7)"
    by (simp add: blk_ack_def sample_key_def put_key_def version_of_msg_def vv_of_msg_def smap_of_def semplace_def)
  then have "put_replies (fold process_reply [blk_ack] h) ?k = Some {7}" using h(2) by (subst puts.replies_fold) auto
  then obtain h' where "wait_for_put_until ?k 1 [blk_ack] True h = (Ret True, h')"
    using h(2) by (auto simp: wait_for_put_until_def wait_quorum_def Let_def)
  then have "\<exists>c' ds. client_put_batch sample_client [(sample_base\<lparr>key := ''/f:0''\<rparr>, d)] 1 (\<lambda>_. sample_io True []) [\<lambda>_. sample_io True [blk_ack]] =
      (Some (Ret ()), c', ds)" using s
    by (simp add: client_put_batch_def sample_io_def receive_replies_def Let_def after_sending_def put_batch_end_def)
  then show thesis using that
    by (auto simp: ops_of_client_def run_put_batch_def next_script_def ack_net_def sample_conf_def returned_def)
qed

theorem file_write_acknowledged_witness:
  "(\<exists>s'. fs_write (no_regex ref_env) (ops_of_client sample_conf) sample_sys ''/f'' ''x'' 0 (sample_fs ack_net 0 CREATED) = (Ret 1, s')) \<and>
    1 \<le> card (puts.peers (batch_key sample_client 0 (file_block ''/f'' default_version 0)) [blk_ack])"
proof -
  let ?s = "sample_fs ack_net 0 CREATED" and ?f = "\<lparr>access_t = CREATED, of_stat = zero_stat\<lparr>st_size := 0\<rparr>, of_version = default_version\<rparr>"
  let ?blk = "\<lparr>key = blk_key ''/f'' 0, version = default_version, f_type = FILE, is_deleted = False\<rparr>"
  obtain n' where "co_put_batch (ops_of_client sample_conf) [(sample_base\<lparr>key := ''/f:0''\<rparr>, ''x'')] ack_net = (Ret (), n')" by (rule ack_batch)
  then have b: "co_put_batch (ops_of_client sample_conf) [(?blk, ''x'')] ack_net = (Ret (), n')" by (simp add: sample_base_def blk_key_0)
  have o: "open_files ?s ''/f'' = Some ?f" "max_parallel_write_size ?s = 1 * BLK_SIZE" "hears [blk_ack] (df_client ?s)"
    by (simp_all add: sample_fs_def ack_net_def hears_def sample_io_def)
  have "length ''x'' \<le> BLK_SIZE" by (simp add: BLK_SIZE_def)
  then have p: "put_limited (ops_of_client sample_conf) BLK_SIZE ''x'' ''/f'' (-1) default_version ?s = (Ret 0, ?s\<lparr>df_client := n'\<rparr>)"
    using b by (simp add: small_write fbind_def call_client_def on_client_def fres_def freturn_def sample_fs_def)
  obtain s' where w: "fs_write (no_regex ref_env) (ops_of_client sample_conf) sample_sys ''/f'' ''x'' (0 * BLK_SIZE) ?s = (Ret 1, s')"
    using o(1,2) p
    by (simp add: fs_write_def fbind_def getattr_open get_version_if_file_opened_def Let_def try_catch_def write_first_block_def freturn_def
        put_fixed_size_blocks_from_buffer_limited_paralelization_def to_int32_id)
  have "NR_BLKS (0 * BLK_SIZE mod BLK_SIZE + length ''x'') = 1" by (simp add: NR_BLKS_def BLK_SIZE_def)
  with file_write_acknowledged[OF w _ o(1) no_temp zero_less_one o(2,3)]
  have "1 \<le> card (puts.peers (batch_key sample_client 0 (file_block ''/f'' default_version 0)) [blk_ack])"
    by (simp add: sample_conf_def sample_fs_def ack_net_def)
  then show ?thesis using w by simp
qed

end
