(* ===== verification/Balanced_Client.thy ===== *)
theory Balanced_Client
  imports Load_Balancer Fs_Durability
begin

text \<open>
  The client together with its load balancer. The locale \<open>load_balancer\<close> is the interface of \<^verbatim>\<open>df_loadbalancing/load_balancer.h\<close>: the peers a balancer
  gives to the client are peers it knows, and a balancer that knows no peers gives none. It is interpreted on both balancers.
\<close>

section \<open>Where requests are sent\<close>

text \<open>The first two rounds of a write ask for peers of the key, the later ones for random peers.\<close>

lemma write_loop_targets:
  assumes "\<And>e x ps st ds. send e x ps = (st, ds) \<Longrightarrow> fst ` set ds \<subseteq> set ps"
    and "\<forall>x\<in>set xs. \<forall>n ps. io_lb x (N_peers k n) = Ret ps \<longrightarrow> set ps \<subseteq> D"
    and "t + int (length xs) \<le> 2 \<or> (\<forall>x\<in>set xs. \<forall>n ps. io_lb x (N_random_peers n) = Ret ps \<longrightarrow> set ps \<subseteq> D)"
  shows "fst ` set (snd (snd (write_loop send wait k xs t c))) \<subseteq> D"
  using assms(2,3)
proof (induction xs arbitrary: t c)
  case (Cons x xs)
  have IH: "fst ` set (snd (snd (write_loop send wait k xs t' c'))) \<subseteq> D" if "t' \<le> t + 1" for t' c'
  proof (rule Cons.IH)
    show "\<forall>x\<in>set xs. \<forall>n ps. io_lb x (N_peers k n) = Ret ps \<longrightarrow> set ps \<subseteq> D" using Cons.prems(1) by simp
    show "t' + int (length xs) \<le> 2 \<or> (\<forall>x\<in>set xs. \<forall>n ps. io_lb x (N_random_peers n) = Ret ps \<longrightarrow> set ps \<subseteq> D)"
      using Cons.prems(2) that by (cases "t + int (length (x # xs)) \<le> 2") simp_all
  qed
  show ?case
  proof (cases "choose_peers k (max_nodes_to_send_put_request (receive_replies x c)) t x")
    case (Ret ps)
    obtain st ds where sd: "send (t > 0) x ps = (st, ds)" by fastforce
    have "set ps \<subseteq> D" using Ret Cons.prems by (auto simp: choose_peers_def split: if_splits)
    then have D: "fst ` set ds \<subseteq> D" using assms(1)[OF sd] by blast
    have A: "fst ` set (snd (snd (after_sending ds (write_loop send wait k xs t' c')))) \<subseteq> D" if "t' \<le> t + 1" for t' c'
      using IH[OF that, of c'] D by (cases "write_loop send wait k xs t' c'") (simp add: after_sending_def image_Un)
    obtain o1 h where w: "wait x (handler (receive_replies x c)) = (o1, h)" by fastforce
    show ?thesis
      by (subst write_loop.simps, cases o1) (use Ret sd D A w in \<open>simp_all add: Let_def\<close>)
  qed (simp_all add: Let_def)
qed simp

lemma client_put_targets:
  assumes "client_put c k v t data n xs = (res, c', ds)"
    and "\<forall>x\<in>set xs. \<forall>n ps. io_lb x (N_peers k n) = Ret ps \<longrightarrow> set ps \<subseteq> D"
    and "length xs \<le> 2 \<or> (\<forall>x\<in>set xs. \<forall>n ps. io_lb x (N_random_peers n) = Ret ps \<longrightarrow> set ps \<subseteq> D)"
  shows "fst ` set ds \<subseteq> D"
proof -
  have "fst ` set (snd (snd (write_loop (send_put c0 k v0 t data) wait k xs 0 c1))) \<subseteq> D" for c0 v0 wait c1
    by (rule write_loop_targets) (use assms(2,3) in \<open>auto simp: send_put_def dest: send_all_datagrams\<close>)
  note t = this
  obtain r h where h: "register_put \<lparr>key = k, version = new_version c v, f_type = t, is_deleted = False\<rparr> (handler c) = (r, h)" by fastforce
  show ?thesis
  proof (cases r)
    case (Ret u)
    then have "ds = snd (snd (write_loop (send_put c k (new_version c v) t data)
        (\<lambda>x. wait_for_put \<lparr>key = k, version = new_version c v, f_type = t, is_deleted = False\<rparr> n (io_during x) (io_timeout x)) k xs 0 ((tick c)\<lparr>handler := h\<rparr>)))"
      using assms(1) h by (simp add: client_put_def Let_def)
    then show ?thesis using t by simp
  qed (use assms(1) h in \<open>simp_all add: client_put_def Let_def\<close>)
qed

section \<open>The interface\<close>

definition lb_answer :: "(string \<Rightarrow> int \<Rightarrow> 's \<Rightarrow> peer_data list res) \<Rightarrow> (int \<Rightarrow> 's \<Rightarrow> peer_data list res) \<Rightarrow> 's \<Rightarrow> lb_call \<Rightarrow> peer_data list res" where
  "lb_answer n_peers n_random_peers s q = (case q of N_peers k n \<Rightarrow> n_peers k n s | N_random_peers n \<Rightarrow> n_random_peers n s)"

locale load_balancer =
  fixes known :: "'s \<Rightarrow> peer_data set"
    and n_peers :: "string \<Rightarrow> int \<Rightarrow> 's \<Rightarrow> peer_data list res"
    and n_random_peers :: "int \<Rightarrow> 's \<Rightarrow> peer_data list res"
  assumes n_peers_known: "n_peers k n s = Ret ps \<Longrightarrow> set ps \<subseteq> known s"
    and n_random_known: "n_random_peers n s = Ret ps \<Longrightarrow> set ps \<subseteq> known s"
    and n_peers_empty: "known s = {} \<Longrightarrow> n_peers k n s \<noteq> Ret ps"
    and n_random_empty: "known s = {} \<Longrightarrow> n_random_peers n s \<noteq> Ret ps"
begin

text \<open>\<open>S\<close> are the states of the balancer in the rounds of a write: its datagrams go to peers known then.\<close>

lemma put_goes_to_known:
  assumes "client_put c k v t data n xs = (res, c', ds)" "\<forall>x\<in>set xs. \<exists>s\<in>S. io_lb x = lb_answer n_peers n_random_peers s"
  shows "fst ` set ds \<subseteq> \<Union> (known ` S)"
proof (rule client_put_targets[OF assms(1)])
  show "\<forall>x\<in>set xs. \<forall>n ps. io_lb x (N_peers k n) = Ret ps \<longrightarrow> set ps \<subseteq> \<Union> (known ` S)"
    using assms(2) n_peers_known by (fastforce simp: lb_answer_def)
  show "length xs \<le> 2 \<or> (\<forall>x\<in>set xs. \<forall>n ps. io_lb x (N_random_peers n) = Ret ps \<longrightarrow> set ps \<subseteq> \<Union> (known ` S))"
    using assms(2) n_random_known by (fastforce simp: lb_answer_def)
qed

lemma empty_sends_nothing:
  assumes "client_put c k v t data n xs = (res, c', ds)" "\<forall>x\<in>set xs. \<exists>s. known s = {} \<and> io_lb x = lb_answer n_peers n_random_peers s"
  shows "ds = []"
  using put_goes_to_known[OF assms(1), of "{s. known s = {}}"] assms(2) by auto

end

section \<open>The two balancers\<close>

definition dynamic_answer :: "(nat \<Rightarrow> nat) \<times> dynamic_lb \<Rightarrow> lb_call \<Rightarrow> peer_data list res" where
  "dynamic_answer = lb_answer (\<lambda>k n (r, s). dl_get_n_peers r k n s) (\<lambda>n (r, s). dl_get_n_random_peers r n s)"

definition smart_answer :: "'d env \<Rightarrow> (nat \<Rightarrow> nat) \<times> nat list \<times> smart_lb \<Rightarrow> lb_call \<Rightarrow> peer_data list res" where
  "smart_answer E = lb_answer (\<lambda>k n (r, rs, s). sl_get_n_peers E r rs k n s) (\<lambda>n (r, rs, s). sl_get_n_random_peers rs n s)"

text \<open>The state of a call includes its random draws.\<close>

interpretation dyn: load_balancer "\<lambda>(r, s). set (dl_view s)" "\<lambda>k n (r, s). dl_get_n_peers r k n s" "\<lambda>n (r, s). dl_get_n_random_peers r n s"
  by unfold_locales
    (auto simp: dl_get_n_peers_def dl_get_n_random_peers_def dest: std_sample_subset[THEN subsetD] split: if_splits)

lemma group_at_known: "set (group_at i s) \<subseteq> \<Union> (set ` set (sl_view s))"
proof (cases "i < length (sl_view s)")
  case True
  then show ?thesis using nth_mem[OF True] unfolding group_at_def by (simp add: Union_upper image_eqI)
qed (simp add: group_at_def)

lemma fronts_known: "fronts s \<subseteq> \<Union> (set ` set (sl_view s))"
proof
  fix p assume "p \<in> fronts s"
  then obtain g where "g \<in> set (sl_view s)" "g \<noteq> []" "p = hd g" by (auto simp: fronts_def)
  then show "p \<in> \<Union> (set ` set (sl_view s))" using hd_in_set by blast
qed

interpretation smart: load_balancer "\<lambda>(r, rs, s). \<Union> (set ` set (sl_view s))" "\<lambda>k n (r, rs, s). sl_get_n_peers E r rs k n s"
    "\<lambda>n (r, rs, s). sl_get_n_random_peers rs n s" for E
proof unfold_locales
  have rnd: "set ps \<subseteq> \<Union> (set ` set (sl_view s))" if "sl_get_n_random_peers rs n s = Ret ps" for rs n s ps
    using random_peers_known[OF that] fronts_known[of s] by blast
  have hang: "sl_get_n_random_peers rs n s = Hang" if "\<Union> (set ` set (sl_view s)) = {}" for rs n s
    using random_peers_hang[of s rs n] fronts_known[of s] that by blast
  have key: "set ps \<subseteq> \<Union> (set ` set (sl_view s))" if g: "sl_get_n_peers E r rs k n s = Ret ps" for r rs k n s ps
  proof -
    obtain sl where "sl_slice E k s = Some sl" using g by (cases "sl_slice E k s") (simp_all add: sl_get_n_peers_def)
    then have r: "(if group_at (nat (sl - 1)) s = [] then sl_get_n_random_peers rs n s
        else Ret (std_sample r (group_at (nat (sl - 1)) s) (nat (min (int (length (group_at (nat (sl - 1)) s))) n)))) = Ret ps"
      using g unfolding sl_get_n_peers_def Let_def by simp
    show ?thesis
    proof (cases "group_at (nat (sl - 1)) s = []")
      case True
      then show ?thesis using r rnd by simp
    next
      case False
      then have "ps = std_sample r (group_at (nat (sl - 1)) s) (nat (min (int (length (group_at (nat (sl - 1)) s))) n))"
        using r unfolding if_not_P[OF False] by simp
      then show ?thesis using subset_trans[OF std_sample_subset group_at_known] by simp
    qed
  qed
  have key_hang: "sl_get_n_peers E r rs k n s \<noteq> Ret ps" if e: "\<Union> (set ` set (sl_view s)) = {}" for r rs k n s ps
  proof -
    have g: "group_at i s = []" for i
    proof -
      have "set (group_at i s) \<subseteq> {}" using group_at_known[of i s] unfolding e .
      then show ?thesis by simp
    qed
    show ?thesis by (cases "sl_slice E k s") (simp_all add: sl_get_n_peers_def g hang[OF e])
  qed
  fix z :: "(nat \<Rightarrow> nat) \<times> nat list \<times> smart_lb" and k n ps
  obtain r rs s where z: "z = (r, rs, s)" by (metis prod_cases3)
  show "set ps \<subseteq> (case z of (r, rs, s) \<Rightarrow> \<Union> (set ` set (sl_view s)))" if "(case z of (r, rs, s) \<Rightarrow> sl_get_n_random_peers rs n s) = Ret ps"
    using that rnd[of rs n s ps] by (simp add: z)
  show "set ps \<subseteq> (case z of (r, rs, s) \<Rightarrow> \<Union> (set ` set (sl_view s)))" if "(case z of (r, rs, s) \<Rightarrow> sl_get_n_peers E r rs k n s) = Ret ps"
  proof -
    from that have "sl_get_n_peers E r rs k n s = Ret ps" unfolding z prod.case .
    from key[OF this] show ?thesis unfolding z prod.case .
  qed
  show "(case z of (r, rs, s) \<Rightarrow> sl_get_n_random_peers rs n s) \<noteq> Ret ps" if "(case z of (r, rs, s) \<Rightarrow> \<Union> (set ` set (sl_view s))) = {}"
    using that hang[of s rs n] by (simp add: z)
  show "(case z of (r, rs, s) \<Rightarrow> sl_get_n_peers E r rs k n s) \<noteq> Ret ps" if "(case z of (r, rs, s) \<Rightarrow> \<Union> (set ` set (sl_view s))) = {}"
    using that key_hang[of s r rs k n ps] by (simp add: z)
qed

section \<open>Properties\<close>

text \<open>
  C13. Writes reach the group of their key. With a smart load balancer whose number of groups is that of the peers in every round, the first
  two rounds of a write send only to peers whose position is in the group that the peers compute for the key, except in a round in
  which the balancer knows no peer of that group: then they go to the youngest known peers of other groups. The later rounds send to
  known peers of any group. \<open>S\<close> are the states of the balancer in the rounds.
\<close>

theorem write_reaches_group_of_key:
  assumes "client_put c k v t data n xs = (res, c', ds)" "length xs \<le> 2" "get_slice_for_key E st k = Ret sl"
    and "\<forall>x\<in>set xs. \<exists>r rs. \<exists>s\<in>S. io_lb x = smart_answer E (r, rs, s)" "\<forall>s\<in>S. sl_wf s \<and> sl_nr_groups s = nr_slices st"
  shows "\<forall>(p, m)\<in>set ds. group (nr_slices st) (pd_pos p) = sl \<or> (\<exists>s\<in>S. group_at (nat (sl - 1)) s = [] \<and> p \<in> fronts s)"
proof -
  let ?D = "{p. group (nr_slices st) (pd_pos p) = sl \<or> (\<exists>s\<in>S. group_at (nat (sl - 1)) s = [] \<and> p \<in> fronts s)}"
  have "set ps \<subseteq> ?D" if xs: "x \<in> set xs" and lb: "io_lb x (N_peers k m) = Ret ps" for x m ps
  proof -
    obtain r rs s where s: "s \<in> S" "io_lb x = smart_answer E (r, rs, s)" using assms(4) xs by blast
    have w: "sl_wf s" "nr_slices st = sl_nr_groups s" using assms(5) s(1) by simp_all
    have a: "sl_get_n_peers E r rs k m s = Ret ps" using lb s(2) by (simp add: smart_answer_def lb_answer_def)
    show ?thesis
    proof (cases "group_at (nat (sl - 1)) s = []")
      case True
      then have "sl_get_n_random_peers rs m s = Ret ps" using a empty_group_random[OF w assms(3)] by simp
      from random_peers_known[OF this] True s(1) show ?thesis by blast
    next
      case False
      then show ?thesis using group_peers(2)[OF w assms(3) _ a] by blast
    qed
  qed
  then have "fst ` set ds \<subseteq> ?D" using client_put_targets[OF assms(1), of ?D] assms(2) by blast
  then show ?thesis by auto
qed

theorem write_reaches_group_of_key_witness:
  "\<exists>res c' ds. client_put sample_client ''/a'' default_version FILE ''x'' 1 [(sample_io True [])\<lparr>io_lb := smart_answer upper_env (\<lambda>n. n, [], sample_lb)\<rparr>] =
     (res, c', ds) \<and> map fst ds = [gpeer 2 (9/10)] \<and> (\<forall>(p, m)\<in>set ds. group 2 (pd_pos p) = 2)"
proof -
  let ?x = "(sample_io True [])\<lparr>io_lb := smart_answer upper_env (\<lambda>n. n, [], sample_lb)\<rparr>"
  let ?st = "ref_store\<lparr>nr_slices := 2\<rparr>"
  obtain res c' ds where r: "client_put sample_client ''/a'' default_version FILE ''x'' 1 [?x] = (res, c', ds)" by (metis prod_cases3)
  have g: "sl_nr_groups sample_lb = nr_slices ?st" "group_at (nat (2 - 1)) sample_lb = [gpeer 2 (9/10)]" by (simp_all add: sample_lb_def group_at_def)
  then have "\<forall>(p, m)\<in>set ds. group 2 (pd_pos p) = 2"
    using write_reaches_group_of_key[OF r _ upper_slice, of "{sample_lb}"] sample_lb_wf by auto
  moreover have "map fst ds = [gpeer 2 (9/10)]"
  proof -
    have "smart_answer upper_env (\<lambda>n. n, [], sample_lb) (N_peers ''/a'' 2) = Ret [gpeer 2 (9/10)]"
      using group_peers(1)[OF sample_lb_wf g(1)[symmetric] upper_slice, of "\<lambda>n. n" "[]" "''/a''" 2] g(2) by (simp add: smart_answer_def lb_answer_def)
    then show ?thesis using r
      by (auto simp: client_put_def register_put_def sample_client_def empty_handler_def tick_def receive_replies_def choose_peers_def sample_io_def
          send_put_def send_all_def after_sending_def Let_def split: prod.splits res.splits if_splits)
  qed
  ultimately show ?thesis using r by (intro exI[of _ res] exI[of _ c'] exI[of _ ds]) simp
qed

lemma put_without_peers:
  assumes "put_replies (handler c) (put_key_of c k v t) = None" "0 < max_timeouts c" "io_lb x = dynamic_answer (r, d)" "dl_view d = []"
  shows "fst (client_put c k v t data n (x # xs)) = Some (Throw (Message empty_view_message))"
  using assms
  by (simp add: client_put_def put_key_of_def register_put_def Let_def tick_def receive_replies_def choose_peers_def dynamic_answer_def lb_answer_def
      dl_get_n_peers_def dl_get_n_random_peers_def)

text \<open>
  C34. An empty view ends the file system. When the dynamic load balancer knows no peer, flushing a modified file throws the text of the balancer
  out of the system call: the clauses catch \<^verbatim>\<open>EmptyViewException\<close>, which is never thrown, and no text.
\<close>

theorem empty_view_escapes:
  assumes "open_files s p = Some f" "access_t f = MODIFIED" "\<not> is_temp_file (regex_search E) p"
    and "fn_script (df_client s) = (g # gs) # rest" "io_lb (g 0) = dynamic_answer (r, d)" "dl_view d = []"
    and "0 < max_timeouts (fn_client (df_client s))"
    and "put_replies (handler (fn_client (df_client s))) (put_key_of (fn_client (df_client s)) p (of_version f) FILE) = None"
  shows "fst (fs_flush E (ops_of_client conf) p s) = Throw (Message empty_view_message)"
proof -
  let ?d = "enc_metadata E (metadata_of_attr (of_stat f))"
  obtain c' ds where "client_put (fn_client (df_client s)) p (of_version f) FILE ?d (nr_puts_required conf) (map (\<lambda>g. g 0) (g # gs)) =
      (Some (Throw (Message empty_view_message)), c', ds)"
    using put_without_peers[OF assms(8,7,5,6), of ?d "nr_puts_required conf" "map (\<lambda>g. g 0) gs"]
    by (cases "client_put (fn_client (df_client s)) p (of_version f) FILE ?d (nr_puts_required conf) (map (\<lambda>g. g 0) (g # gs))") simp
  then have "co_put (ops_of_client conf) p (of_version f) FILE ?d (df_client s) =
      (Throw (Message empty_view_message), after_call (Throw (Message empty_view_message) :: unit res) c' ds (df_client s))"
    using assms(4) by (simp add: ops_of_client_def run_write_def single_ios_def next_script_def returned_def)
  then show ?thesis using assms(1-3)
    by (simp add: fs_flush_def try_catch_def flush_open_file_def put_file_metadata_version_def put_block_def fbind_def call_client_def on_client_def fres_def)
qed

theorem empty_view_escapes_witness:
  "fst (fs_flush (no_regex ref_env) (ops_of_client sample_conf) ''/f'' (sample_fs \<lparr>fn_client = sample_client,
     fn_script = [[\<lambda>_. (sample_io True [])\<lparr>io_lb := dynamic_answer (\<lambda>n. n, \<lparr>dl_view = [], dl_ip = [], dl_pss_port = 0\<rparr>)\<rparr>]], fn_sent = [], fn_raised = []\<rparr> 3 MODIFIED)) =
     Throw (Message ''Empty View Received'')"
  unfolding empty_view_message_def[symmetric]
  by (rule empty_view_escapes[OF _ _ no_temp, where r = "\<lambda>n. n" and d = "\<lparr>dl_view = [], dl_ip = [], dl_pss_port = 0\<rparr>" and gs = "[]" and rest = "[]"
        and g = "\<lambda>_. (sample_io True [])\<lparr>io_lb := dynamic_answer (\<lambda>n. n, \<lparr>dl_view = [], dl_ip = [], dl_pss_port = 0\<rparr>)\<rparr>"
        and f = "\<lparr>access_t = MODIFIED, of_stat = zero_stat\<lparr>st_size := 3\<rparr>, of_version = default_version\<rparr>"])
    (simp_all add: sample_fs_def sample_client_def empty_handler_def sample_io_def)

end
