(* ===== verification/Bootstrapper.thy ===== *)
theory Bootstrapper
  imports Load_Balancer
begin

text \<open>
  The bootstrapper, \<^verbatim>\<open>df_bootstrapper/bootstrapper_impl.cpp\<close>: it keeps the peers that announced themselves and hands out views of them, which it
  prepares in a queue. Peers and load balancers start from such a view.

  Looking up a peer that is not alive follows an iterator to the end of the table; this undefined behaviour is the value \<open>Undefined\<close>. The random
  numbers and the shuffle are arguments.
\<close>

section \<open>State and operations\<close>

record bootstrapper =
  alivePeers :: pview
  fila :: "long list list"
  viewsize :: nat
  bt_ip :: string

definition boot_port :: int where
  "boot_port = 12345"

definition initialnodes :: nat where
  "initialnodes = 10"

text \<open>Peer ids are \<^verbatim>\<open>long\<close>; some functions take them as \<^verbatim>\<open>int\<close>.\<close>

definition to_int :: "long \<Rightarrow> long" where
  "to_int i = sint (word_of_int i :: 32 word)"

text \<open>The fields that are not set are left uninitialised; they are never read.\<close>

definition add_peer :: "long \<Rightarrow> string \<Rightarrow> int \<Rightarrow> int \<Rightarrow> int \<Rightarrow> rat \<Rightarrow> bootstrapper \<Rightarrow> bootstrapper" where
  "add_peer i ip kv_port pss_port recover_port pos b =
     b\<lparr>alivePeers := view_insert \<lparr>pd_ip = ip, pd_kv_port = kv_port, pd_pss_port = pss_port, pd_recover_port = recover_port, pd_age = 0,
         pd_id = i, pd_nr_slices = 0, pd_pos = pos, pd_slice = 0\<rparr> (alivePeers b)\<rparr>"

definition remove_peer :: "long \<Rightarrow> bootstrapper \<Rightarrow> bootstrapper" where
  "remove_peer i b = b\<lparr>alivePeers := view_erase (to_int i) (alivePeers b)\<rparr>"

definition clear_fila :: "bootstrapper \<Rightarrow> bootstrapper" where
  "clear_fila b = b\<lparr>fila := []\<rparr>"

text \<open>A view of distinct alive peers, drawn one by one; \<open>None\<close> when the draws are used up.\<close>

fun draw_view :: "nat list \<Rightarrow> long list \<Rightarrow> nat \<Rightarrow> long list \<Rightarrow> long list option" where
  "draw_view rs alive n tmp =
     (if length tmp < n then
        (case rs of
           [] \<Rightarrow> None
         | r # rs \<Rightarrow>
             (let i = alive ! (r mod length alive) in draw_view rs alive n (if i \<in> set tmp then tmp else tmp @ [i])))
      else Some tmp)"

record boot_draws =
  bd_shuffle :: "long list \<Rightarrow> long list"
  bd_index :: "nat \<Rightarrow> nat"
  bd_views :: "nat \<Rightarrow> nat list"

definition boot_fila :: "boot_draws \<Rightarrow> bootstrapper \<Rightarrow> bootstrapper option" where
  "boot_fila d b =
     (let alive = map fst (alivePeers b); n = viewsize b in
      if length alive \<le> n then Some (b\<lparr>fila := fila b @ [alive]\<rparr>)
      else if length alive < n * 10 then
        (let tmp = bd_shuffle d alive; max_rand = length tmp - n - 1
         in Some (b\<lparr>fila := fila b @ map (\<lambda>i. take n (drop (bd_index d i mod (max_rand + 1)) tmp)) [0..<initialnodes]\<rparr>))
      else
        (let views = map (\<lambda>i. draw_view (bd_views d i) alive n []) [0..<initialnodes]
         in if None \<in> set views then None else Some (b\<lparr>fila := fila b @ map the views\<rparr>)))"

datatype lookup = Undefined | Restart | Done "peer_data list"

text \<open>The loop over the ids of a view.\<close>

fun collect_peers :: "pview \<Rightarrow> long list \<Rightarrow> peer_data list \<Rightarrow> lookup" where
  "collect_peers alive [] res = Done res"
| "collect_peers alive (peer_id # ids) res =
     (case map_of alive (to_int peer_id) of
        None \<Rightarrow> Undefined
      | Some peer \<Rightarrow>
          if map_of alive (pd_id peer) = None then Restart
          else collect_peers alive ids (res @ [peer\<lparr>pd_age := 20\<rparr>]))"

text \<open>One element of the list of draws per attempt; \<open>None\<close>: undefined behaviour, or no return.\<close>

fun get_view :: "boot_draws list \<Rightarrow> bootstrapper \<Rightarrow> (peer_data list \<times> bootstrapper) option" where
  "get_view [] b = None"
| "get_view (d # ds) b0 =
     (case (if fila b0 = [] then boot_fila d b0 else Some b0) of
        None \<Rightarrow> None
      | Some b \<Rightarrow>
          (let b' = b\<lparr>fila := tl (fila b)\<rparr> in
           case collect_peers (alivePeers b') (hd (fila b)) [] of
             Done res \<Rightarrow> Some (res, b')
           | Undefined \<Rightarrow> None
           | Restart \<Rightarrow> get_view ds (clear_fila b')))"

definition view_message :: "bootstrapper \<Rightarrow> peer_data list \<Rightarrow> pss_message" where
  "view_message b ps =
     \<lparr>ps_sender_ip = bt_ip b, ps_sender_port = boot_port, ps_sender_pos = 0, ps_type = NORMAL,
      ps_view = map (\<lambda>p. p\<lparr>pd_nr_slices := 0, pd_slice := 0\<rparr>) ps\<rparr>"

text \<open>
  The answer sent for a message, if any, and the new state, \<open>None\<close> when there is none: undefined behaviour, or no return. \<open>sent\<close>
  is whether sending the answer succeeds; an exception of it is caught and ends the handling. The answer to an announcement is sent before the
  first entry of its view is read. A message of another type is ignored.
\<close>

definition boot_worker :: "boot_draws list \<Rightarrow> bool \<Rightarrow> pss_message \<Rightarrow> bootstrapper \<Rightarrow> pss_message option \<times> bootstrapper option" where
  "boot_worker ds sent m b =
     (case ps_type m of
        ANNOUNCE \<Rightarrow>
          (case get_view ds b of
             None \<Rightarrow> (None, None)
           | Some (ps, b') \<Rightarrow>
               if \<not> sent then (None, Some b')
               else
                 (Some (view_message b ps),
                  case ps_view m of
                    [] \<Rightarrow> None
                  | p # _ \<Rightarrow> Some (add_peer (pd_id p) (ps_sender_ip m) (pd_kv_port p) (pd_pss_port p) (pd_recover_port p) (pd_pos p) b')))
      | TERMINATION \<Rightarrow> (None, case ps_view m of [] \<Rightarrow> None | p # _ \<Rightarrow> Some (remove_peer (pd_id p) b))
      | GETVIEW \<Rightarrow>
          (case get_view ds b of
             None \<Rightarrow> (None, None)
           | Some (ps, b') \<Rightarrow> (if sent then Some (view_message b ps) else None, Some b'))
      | _ \<Rightarrow> (None, Some b))"

text \<open>What a peer sends when it stops; the message carries no view.\<close>

definition bootstrapper_termination_alerting :: "string \<Rightarrow> int \<Rightarrow> pss_message" where
  "bootstrapper_termination_alerting ip port =
     \<lparr>ps_sender_ip = ip, ps_sender_port = port, ps_sender_pos = 0, ps_type = TERMINATION, ps_view = []\<rparr>"

declare draw_view.simps [simp del]

section \<open>Well-formed states\<close>

definition boot_wf :: "bootstrapper \<Rightarrow> bool" where
  "boot_wf b \<longleftrightarrow> distinct (map fst (alivePeers b)) \<and> (\<forall>(i, p)\<in>set (alivePeers b). pd_id p = i \<and> to_int i = i) \<and>
     (\<forall>v\<in>set (fila b). distinct v \<and> set v \<subseteq> fst ` set (alivePeers b) \<and> length v \<le> viewsize b)"

definition shuffle_ok :: "boot_draws \<Rightarrow> bool" where
  "shuffle_ok d \<longleftrightarrow> (\<forall>xs. distinct xs \<longrightarrow> distinct (bd_shuffle d xs) \<and> set (bd_shuffle d xs) = set xs)"

lemma draw_view_sound:
  "draw_view rs alive n tmp = Some v \<Longrightarrow> alive \<noteq> [] \<Longrightarrow> distinct tmp \<Longrightarrow> set tmp \<subseteq> set alive \<Longrightarrow> length tmp \<le> n \<Longrightarrow>
     distinct v \<and> set v \<subseteq> set alive \<and> length v \<le> n"
proof (induction rs arbitrary: tmp)
  case Nil
  then show ?case by (subst (asm) draw_view.simps) (auto split: if_splits)
next
  case (Cons r rs)
  have "alive ! (r mod length alive) \<in> set alive" using Cons.prems(2) by simp
  then show ?case using Cons by (subst (asm) draw_view.simps) (auto simp: Let_def split: if_splits)
qed

lemma boot_fila_wf:
  assumes "boot_wf b" "shuffle_ok d" "boot_fila d b = Some b'"
  shows "boot_wf b' \<and> alivePeers b' = alivePeers b \<and> bt_ip b' = bt_ip b \<and> fila b' \<noteq> []"
proof -
  let ?alive = "map fst (alivePeers b)" and ?n = "viewsize b"
  obtain vs where b': "b' = b\<lparr>fila := fila b @ vs\<rparr>" "vs \<noteq> []"
    and vs: "\<forall>v\<in>set vs. distinct v \<and> set v \<subseteq> set ?alive \<and> length v \<le> ?n"
  proof (cases "length ?alive \<le> ?n")
    case True
    then show ?thesis using assms(1,3) that[of "[?alive]"] by (simp add: boot_fila_def Let_def boot_wf_def)
  next
    case large: False
    show ?thesis
    proof (cases "length ?alive < ?n * 10")
      case True
      have "distinct (bd_shuffle d ?alive)" "set (bd_shuffle d ?alive) = set ?alive"
        using assms(1,2) by (simp_all add: shuffle_ok_def boot_wf_def)
      then show ?thesis using assms(3) large True
        that[of "map (\<lambda>i. take ?n (drop (bd_index d i mod (length (bd_shuffle d ?alive) - ?n - 1 + 1)) (bd_shuffle d ?alive))) [0..<initialnodes]"]
        by (auto simp: boot_fila_def Let_def initialnodes_def dest!: in_set_takeD in_set_dropD)
    next
      case False
      let ?views = "map (\<lambda>i. draw_view (bd_views d i) ?alive ?n []) [0..<initialnodes]"
      have v: "None \<notin> set ?views" "b' = b\<lparr>fila := fila b @ map the ?views\<rparr>"
        using assms(3) large False by (simp_all add: boot_fila_def Let_def split: if_splits)
      have "distinct w \<and> set w \<subseteq> set ?alive \<and> length w \<le> ?n" if "w \<in> set (map the ?views)" for w
      proof -
        from that obtain x where x: "x \<in> set ?views" "w = the x" by auto
        with v(1) have "x = Some w" by (cases x) auto
        with x(1) obtain i where "draw_view (bd_views d i) ?alive ?n [] = Some w" by auto
        moreover have "?alive \<noteq> []" using large by auto
        ultimately show ?thesis using draw_view_sound by fastforce
      qed
      then show ?thesis using v(2) that[of "map the ?views"] by (simp add: initialnodes_def)
    qed
  qed
  then show ?thesis using assms(1) by (auto simp: boot_wf_def)
qed

lemma collect_alive:
  assumes "\<forall>(i, p)\<in>set alive. pd_id p = i \<and> to_int i = i" "distinct (map fst alive)" "set ids \<subseteq> fst ` set alive"
  shows "collect_peers alive ids res = Done (res @ map (\<lambda>i. (the (map_of alive i))\<lparr>pd_age := 20\<rparr>) ids)"
  using assms(3)
proof (induction ids arbitrary: res)
  case (Cons i ids)
  then obtain p where "(i, p) \<in> set alive" by auto
  then have "map_of alive i = Some p" "pd_id p = i" "to_int i = i" using assms(1,2) by (auto simp: map_of_eq_Some_iff)
  then show ?case using Cons by simp
qed simp

lemma get_view_alive:
  assumes "boot_wf b" "shuffle_ok d" "get_view (d # ds) b = Some (ps, b')"
  shows "distinct (map pd_id ps) \<and> length ps \<le> viewsize b \<and> boot_wf b' \<and>
    (\<forall>p\<in>set ps. \<exists>q. (pd_id p, q) \<in> set (alivePeers b) \<and> p = q\<lparr>pd_age := 20\<rparr>) \<and> alivePeers b' = alivePeers b"
proof -
  obtain b1 where b1: "(if fila b = [] then boot_fila d b else Some b) = Some b1" using assms(3) by (auto split: option.splits)
  have w1: "boot_wf b1" "alivePeers b1 = alivePeers b" "fila b1 \<noteq> []" using b1 boot_fila_wf[OF assms(1,2), of b1] assms(1) by (auto split: if_splits)
  have sz: "viewsize b1 = viewsize b" using b1 by (auto simp: boot_fila_def Let_def split: if_splits)
  let ?v = "hd (fila b1)" and ?a = "alivePeers b"
  have v: "distinct ?v" "set ?v \<subseteq> fst ` set ?a" "length ?v \<le> viewsize b"
    using w1 sz by (auto simp: boot_wf_def dest: bspec[OF _ hd_in_set])
  have a: "\<forall>(i, p)\<in>set ?a. pd_id p = i \<and> to_int i = i" "distinct (map fst ?a)" using assms(1) by (simp_all add: boot_wf_def)
  have r: "ps = map (\<lambda>i. (the (map_of ?a i))\<lparr>pd_age := 20\<rparr>) ?v" "b' = b1\<lparr>fila := tl (fila b1)\<rparr>"
    using assms(3) b1 collect_alive[OF a v(2), of "[]"] w1(2) by (simp_all add: Let_def)
  have q: "\<exists>q. (i, q) \<in> set ?a \<and> the (map_of ?a i) = q \<and> pd_id q = i" if i: "i \<in> set ?v" for i
  proof -
    obtain q where "(i, q) \<in> set ?a" using v(2) i by auto
    then show ?thesis using a by (auto simp: map_of_eq_Some_iff intro!: exI[of _ q])
  qed
  have "map pd_id ps = ?v" unfolding r(1) map_map comp_def by (rule map_idI) (use q in force)
  then have "distinct (map pd_id ps)" using v(1) by simp
  moreover have "\<exists>q. (pd_id p, q) \<in> set ?a \<and> p = q\<lparr>pd_age := 20\<rparr>" if "p \<in> set ps" for p using that q r(1) by force
  moreover have "boot_wf b'" using w1(1,3) r(2) by (auto simp: boot_wf_def dest: list.set_sel(2))
  ultimately show ?thesis using v(3) r w1(2) by auto
qed

lemma add_peer_wf: "boot_wf b \<Longrightarrow> to_int i = i \<Longrightarrow> boot_wf (add_peer i ip kp pp rp pos b)"
  by (auto simp: boot_wf_def add_peer_def view_insert_def map_of_eq_None_iff)

lemma add_peer_alive: "i \<in> fst ` set (alivePeers (add_peer i ip kp pp rp pos b))"
  by (force simp: add_peer_def view_insert_def map_of_eq_None_iff)

text \<open>In a well-formed state one attempt is enough.\<close>

lemma get_view_returns:
  assumes "boot_wf b" "shuffle_ok d" "length (alivePeers b) < viewsize b * 10"
  shows "get_view (d # ds) b \<noteq> None"
proof -
  have "(if fila b = [] then boot_fila d b else Some b) \<noteq> None" using assms(3) by (simp add: boot_fila_def Let_def)
  then obtain b1 where b1: "(if fila b = [] then boot_fila d b else Some b) = Some b1" by blast
  have w1: "boot_wf b1" "alivePeers b1 = alivePeers b" "fila b1 \<noteq> []" using b1 boot_fila_wf[OF assms(1,2), of b1] assms(1) by (auto split: if_splits)
  have "set (hd (fila b1)) \<subseteq> fst ` set (alivePeers b1)" using w1 by (auto simp: boot_wf_def dest: bspec[OF _ hd_in_set])
  then show ?thesis using collect_alive[of "alivePeers b1" "hd (fila b1)" "[]"] w1(1) b1 by (auto simp: boot_wf_def Let_def)
qed

section \<open>Properties\<close>

text \<open>
  C38. The views handed out. In a well-formed state (every id in the prepared views is that of an alive peer, which a termination can
  end, and the ids of the alive peers fit in 32 bits), an announcement or a request for a view is answered, if the answer can be sent and fewer
  peers are alive than ten views hold; an empty view in the message does not matter for this. Every view sent has at most the configured
  number of peers, no peer twice, and each of them announced itself with that address and position. When the ids in the message fit in 32
  bits, the state is well-formed afterwards, and a peer that announced itself and was answered is alive.
\<close>

theorem boot_views_alive:
  assumes "boot_wf b" "shuffle_ok d" "ps_type m = GETVIEW \<or> ps_type m = ANNOUNCE" "boot_worker (d # ds) sent m b = (reply, b')"
  shows "(\<forall>msg. reply = Some msg \<longrightarrow> distinct (map pd_id (ps_view msg)) \<and> length (ps_view msg) \<le> viewsize b \<and>
      (\<forall>p\<in>set (ps_view msg). \<exists>q. (pd_id p, q) \<in> set (alivePeers b) \<and> pd_ip p = pd_ip q \<and> pd_kv_port p = pd_kv_port q \<and>
        pd_pss_port p = pd_pss_port q \<and> pd_recover_port p = pd_recover_port q \<and> pd_pos p = pd_pos q)) \<and>
    (length (alivePeers b) < viewsize b * 10 \<and> sent \<longrightarrow> reply \<noteq> None) \<and>
    ((\<forall>p\<in>set (ps_view m). to_int (pd_id p) = pd_id p) \<longrightarrow> (\<forall>b1. b' = Some b1 \<longrightarrow> boot_wf b1 \<and>
      (\<forall>p ps. ps_type m = ANNOUNCE \<and> ps_view m = p # ps \<and> sent \<longrightarrow> pd_id p \<in> fst ` set (alivePeers b1))))"
proof (cases "get_view (d # ds) b")
  case None
  then have "reply = None" "b' = None" using assms(3,4) by (auto simp: boot_worker_def)
  then show ?thesis using None get_view_returns[OF assms(1,2), of ds] by auto
next
  case (Some r)
  obtain ps b1 where r: "r = (ps, b1)" by fastforce
  note a = get_view_alive[OF assms(1,2) Some[unfolded r]]
  have reply: "reply = (if sent then Some (view_message b ps) else None)" using assms(3,4) Some r by (auto simp: boot_worker_def)
  have ids: "map pd_id (ps_view (view_message b ps)) = map pd_id ps" by (simp add: view_message_def comp_def)
  have b': "b2 = b1 \<and> \<not> (ps_type m = ANNOUNCE \<and> sent) \<or> ps_type m = ANNOUNCE \<and> sent \<and> (\<exists>p q. ps_view m = p # q \<and>
      b2 = add_peer (pd_id p) (ps_sender_ip m) (pd_kv_port p) (pd_pss_port p) (pd_recover_port p) (pd_pos p) b1)" if "b' = Some b2" for b2
    using assms(3,4) Some r that by (auto simp: boot_worker_def split: if_splits list.splits)
  show ?thesis
  proof (intro conjI allI impI)
    fix msg assume "reply = Some msg"
    then have m: "msg = view_message b ps" using reply by (simp split: if_splits)
    show "distinct (map pd_id (ps_view msg))" using a unfolding m ids by blast
    show "length (ps_view msg) \<le> viewsize b" using a by (simp add: m view_message_def)
    show "\<forall>p\<in>set (ps_view msg). \<exists>q. (pd_id p, q) \<in> set (alivePeers b) \<and> pd_ip p = pd_ip q \<and> pd_kv_port p = pd_kv_port q \<and>
        pd_pss_port p = pd_pss_port q \<and> pd_recover_port p = pd_recover_port q \<and> pd_pos p = pd_pos q"
      using a by (fastforce simp: m view_message_def)
  next
    fix b2 assume i: "\<forall>p\<in>set (ps_view m). to_int (pd_id p) = pd_id p" and "b' = Some b2"
    from b'[OF this(2)] show "boot_wf b2" using a i add_peer_wf[of b1] by (elim disjE exE conjE) simp_all
  next
    fix b2 p q assume "b' = Some b2" "ps_type m = ANNOUNCE \<and> ps_view m = p # q \<and> sent"
    with b'[OF this(1)] show "pd_id p \<in> fst ` set (alivePeers b2)" by (auto simp: add_peer_alive)
  qed (use reply in simp)
qed

text \<open>A bootstrapper that knows two peers.\<close>

definition sample_boot :: bootstrapper where
  "sample_boot = add_peer 2 ''10.0.0.2'' 1 2 3 (1/2) (add_peer 1 ''10.0.0.1'' 1 2 3 (1/4) \<lparr>alivePeers = [], fila = [], viewsize = 3, bt_ip = ''10.0.0.9''\<rparr>)"

definition sample_draws :: boot_draws where
  "sample_draws = \<lparr>bd_shuffle = \<lambda>xs. xs, bd_index = \<lambda>i. i, bd_views = \<lambda>i. []\<rparr>"

definition getview_msg :: pss_message where
  "getview_msg = \<lparr>ps_sender_ip = [], ps_sender_port = 0, ps_sender_pos = 0, ps_type = GETVIEW, ps_view = []\<rparr>"

lemma sample_boot_wf: "boot_wf sample_boot"
  by (simp add: boot_wf_def sample_boot_def add_peer_def view_insert_def to_int_def)

theorem boot_views_alive_witness:
  "\<exists>msg b'. boot_worker [sample_draws] True getview_msg sample_boot = (Some msg, Some b') \<and> distinct (map pd_id (ps_view msg)) \<and> boot_wf b'"
proof -
  have s: "shuffle_ok sample_draws" by (simp add: shuffle_ok_def sample_draws_def)
  obtain reply b' where r: "boot_worker [sample_draws] True getview_msg sample_boot = (reply, b')" by fastforce
  have n: "length (alivePeers sample_boot) < viewsize sample_boot * 10" by (simp add: sample_boot_def add_peer_def view_insert_def)
  note v = boot_views_alive[OF sample_boot_wf s _ r]
  obtain msg where m: "reply = Some msg" using v n by (auto simp: getview_msg_def)
  obtain b1 where "b' = Some b1" using r m by (auto simp: boot_worker_def getview_msg_def split: option.splits)
  then show ?thesis using v m r by (auto simp: getview_msg_def)
qed

text \<open>
  A terminated peer breaks the prepared views. When a peer terminates whose id is in the view at the front of the queue, the next request for a view
  follows an iterator to the end of the table, although the code means to prepare new views then: the lookup is used before it is tested.
\<close>

theorem terminated_peer_breaks_view:
  assumes "boot_wf b" "fila b = v # vs" "i \<in> set v" "ps_type m = GETVIEW"
  shows "boot_worker (d # ds) sent m (remove_peer i b) = (None, None)"
proof -
  let ?a = "alivePeers (remove_peer i b)"
  obtain q where "(i, q) \<in> set (alivePeers b)" using assms(1-3) by (auto simp: boot_wf_def)
  then have i: "to_int i = i" using assms(1) by (auto simp: boot_wf_def)
  have none: "map_of ?a i = None" by (auto simp: remove_peer_def view_erase_def i map_of_eq_None_iff)
  have wf: "\<forall>(j, p)\<in>set ?a. pd_id p = j" using assms(1) by (auto simp: boot_wf_def remove_peer_def view_erase_def)
  have "collect_peers ?a ids res = Undefined" if "i \<in> set ids" for ids res
    using that
  proof (induction ids arbitrary: res)
    case (Cons j ids)
    show ?case
    proof (cases "map_of ?a (to_int j)")
      case (Some p)
      then have "pd_id p = to_int j" using wf map_of_SomeD[OF Some] by auto
      moreover have "j \<noteq> i" using Some none i by auto
      ultimately show ?thesis using Cons Some by simp
    qed simp
  qed simp
  from this[OF assms(3)] show ?thesis using assms(2,4) by (simp add: boot_worker_def remove_peer_def Let_def)
qed

theorem terminated_peer_breaks_view_witness:
  "boot_worker [sample_draws] True getview_msg (remove_peer 2 (sample_boot\<lparr>fila := [[1, 2]]\<rparr>)) = (None, None)"
proof (rule terminated_peer_breaks_view[where v = "[1, 2]" and vs = "[]"])
  show "boot_wf (sample_boot\<lparr>fila := [[1, 2]]\<rparr>)"
    by (simp add: boot_wf_def sample_boot_def add_peer_def view_insert_def to_int_def)
qed (simp_all add: getview_msg_def)

text \<open>The message of a stopping peer does not say which peer stops: the bootstrapper reads the first entry of a view that is empty.\<close>

lemma termination_names_no_peer:
  "boot_worker ds sent (bootstrapper_termination_alerting ip port) b = (None, None)"
  by (simp add: boot_worker_def bootstrapper_termination_alerting_def)

text \<open>The last peer of the shuffled ones is in none of the views prepared together.\<close>

lemma last_peer_left_out:
  assumes "viewsize b < length (alivePeers b)" "length (alivePeers b) < viewsize b * 10" "fila b = []" "boot_wf b" "shuffle_ok d"
    and "boot_fila d b = Some b'" "v \<in> set (fila b')"
  shows "last (bd_shuffle d (map fst (alivePeers b))) \<notin> set v"
proof -
  let ?t = "bd_shuffle d (map fst (alivePeers b))"
  have t: "distinct ?t" "set ?t = set (map fst (alivePeers b))" using assms(4,5) by (simp_all add: shuffle_ok_def boot_wf_def)
  have len: "length ?t = length (alivePeers b)"
    using t assms(4) by (metis boot_wf_def distinct_card length_map)
  obtain k where "v = take (viewsize b) (drop (k mod (length ?t - viewsize b - 1 + 1)) ?t)"
    using assms(1-3,6,7) by (auto simp: boot_fila_def Let_def)
  moreover have "k mod (length ?t - viewsize b - 1 + 1) < length ?t - viewsize b" using assms(1) len by (simp add: Suc_diff_Suc)
  ultimately obtain j where j: "v = take (viewsize b) (drop j ?t)" "j < length ?t - viewsize b" by blast
  then have "v = drop j (take (j + viewsize b) ?t)" by (simp add: take_drop add.commute)
  then have "set v \<subseteq> set (take (j + viewsize b) ?t)" using set_drop_subset by simp
  also have "\<dots> \<subseteq> set (butlast ?t)" using j(2) by (simp add: butlast_conv_take set_take_subset_set_take)
  finally have "set v \<subseteq> set (butlast ?t)" .
  moreover have "last ?t \<notin> set (butlast ?t)"
  proof -
    have "?t \<noteq> []" using len assms(1) by auto
    then have "distinct (butlast ?t @ [last ?t])" using t(1) by simp
    then show ?thesis by simp
  qed
  ultimately show ?thesis by blast
qed

end
