(* ===== verification/Spec2Isabelle.thy ===== *)
theory Spec2Isabelle
  imports End_To_End Balanced_Client Bootstrapper
begin

text \<open>
  LSFS is a replicated file store. Clients write and read versioned objects; peers keep them in LevelDB, exchange what they miss by
  anti-entropy, find each other by gossip and divide the key space into groups; a FUSE layer stores directories and the blocks of
  files as objects. This development models the program as functions and step relations and proves what makes its parts correct.

  \<^bold>\<open>Parts and theories.\<close> Paths are relative to \<^verbatim>\<open>src/\<close>.
  \<^item> \<open>LSFS_Prelude\<close>: outcomes of calls (\<open>res\<close>: a value, an exception, or no return) and \<^verbatim>\<open>std::map\<close>.
  \<^item> \<open>Versions\<close>: version vectors, \<^verbatim>\<open>df_util/util.cpp\<close> and \<^verbatim>\<open>df_store/kv_store_value\<close>. \<^verbatim>\<open>comp_version\<close> decides the pointwise order,
    \<^verbatim>\<open>merge_kv\<close> is its join, and the locale on scans over siblings says what an insertion keeps.
  \<^item> \<open>Text_Util\<close>: textual keys and blocks of objects, with their round trips.
  \<^item> \<open>Metadata\<close>: directories and their merge, \<^verbatim>\<open>lsfs/fuse_lsfs/metadata\<close> and \<^verbatim>\<open>storage_specific.cpp\<close>.
  \<^item> \<open>Kv_Store\<close>, \<open>Kv_Leveldb\<close>, \<open>Kv_Transfer\<close>: the store of a peer, \<^verbatim>\<open>df_store/kv_store.h\<close> and \<^verbatim>\<open>kv_store_leveldb.h\<close>: slices and logs;
    writes, deletes and reads of versions; metadata, sampling of keys, reassembly of blocks and state transfer.
  \<^item> \<open>Messages\<close>: \<^verbatim>\<open>df_util/message_builder\<close>. \<open>Reply_Handler\<close>: \<^verbatim>\<open>df_client/client_reply_handler.cpp\<close>, quorums of replies.
    \<open>Client\<close>: \<^verbatim>\<open>df_client/client.cpp\<close>, versions, sending and the retry loops; \<open>Client_Batch\<close>: its batched operations.
  \<^item> \<open>Data_Handler\<close>, \<open>Anti_Entropy\<close>, \<open>State_Transfer\<close>: \<^verbatim>\<open>df_data_handlers\<close>, the message handlers, the phases of a peer and the
    transfer of its state. \<open>Peer_View\<close>, \<open>Group_Construction\<close>, \<open>Pss\<close>: \<^verbatim>\<open>df_core/group_construction.cpp\<close> and \<^verbatim>\<open>df_pss/pss.cpp\<close>.
  \<^item> \<open>Peer\<close>: the threads of \<^verbatim>\<open>df_core/peer.cpp\<close> as a step relation, with runs and their invariants. \<open>End_To_End\<close>: a client
    and its peers together.
  \<^item> \<open>Dir_Cache\<close>, \<open>Fs_State\<close>, \<open>Fs_Ops\<close>: the mounted file system, \<^verbatim>\<open>lsfs/fuse_lsfs/lsfs_state.cpp\<close> and \<^verbatim>\<open>ops_*.cpp\<close>: the cache of directories, a
    least-recently-used list; blocks, stored metadata and open files; the system calls. They call the client library through a record of
    operations. \<open>Fs_Errors\<close>: which exception of the client ends a call with which result, proved once for any client in the locale \<open>fs_client\<close>;
    \<open>Fs_Client\<close> interprets it on the model of the client, whose state records the exceptions it has thrown. \<open>Fs_Blocks\<close>, \<open>Fs_Spec\<close>, \<open>Fs_Behaviour\<close>: blocks, what the calls promise, round trips of files and listings of
    directories. \<open>Fs_Durability\<close>: a write to a file, at any offset, and the acknowledgements of the peers for the versions of its blocks.
  \<^item> \<open>Load_Balancer\<close>: \<^verbatim>\<open>df_loadbalancing\<close>, both balancers. \<open>Balanced_Client\<close>: their interface as the locale \<open>load_balancer\<close>, and the peers a write is sent to.
  \<^item> \<open>Bootstrapper\<close>: \<^verbatim>\<open>df_bootstrapper\<close>, the views handed to new peers and to the balancers.
  \<^item> \<open>Ref_Env\<close>, \<open>Store_Witnesses\<close>, \<open>Node_Witnesses\<close>: a concrete environment in which the hypotheses hold, and the theorems
    applied to it.

  \<^bold>\<open>What is a parameter.\<close> The hash function, the regular expressions, the archive format, LevelDB (a write may fail
  at any time; a read is a function of the state of the database, so that a failing read fails until the state changes, and counts as an absent key, as
  in the code; a read that fails once and succeeds later is not modelled), the random draws, the sizes of serialised messages, the sockets, the timeouts, the clocks, the calls on the host file system
  and the outcome of the undefined behaviour at the end of \<^verbatim>\<open>send_keys_gt\<close>, which uses and deletes a deleted iterator, are arguments; \<open>env_ok\<close> states what
  the code relies on (archives can be read back, a database returns what was written to it). \<open>Ref_Env\<close> is an environment that satisfies it.

  \<^bold>\<open>Abstractions.\<close> Operations are atomic: the interleaving of two threads inside one of them is not modelled, except that
  the waits of the client take the replies handled in the meantime. An \<^verbatim>\<open>unordered_map\<close> is traversed in insertion order, or in the
  order of an argument where the result may depend on it. Positions are rational numbers: they are multiplied by the number of groups and rounded up, which is
  exact for powers of two; the rounding of a floating-point product is not modelled for other numbers of groups, which occur only when a peer reports
  one. What the bootstrapper reports, 0, is allowed everywhere. Integers are unbounded, except hashes and block numbers (64 bits), the clocks of the client, and the sizes that the system
  calls convert between signed and unsigned types, which wrap.
  Loops that may run forever take the list of what happens in their rounds, or are partial functions; nothing is bounded by fuel.

  \<^bold>\<open>Not modelled.\<close> Sockets, threads and their construction, the FUSE binding, the loggers, the configuration file, the generated wire
  format and the vendored thread pool: system calls, library calls and glue. Of the store, opening and closing the databases and the printing functions;
  of the mutexes, everything but the atomicity they give.
\<close>

end
